(* ===== verification/Prelude.thy ===== *)
theory Prelude
  imports Main "HOL-Library.Word"
begin

text \<open>
  The vocabulary every component of the development shares: the machine integers and byte
  strings of the Rust sources, the results of fallible operations, slices and in-place writes
  of byte buffers, and the fixed-width big- and little-endian encodings
  (\<^verbatim>\<open>to_be_bytes\<close>, \<^verbatim>\<open>from_be_bytes\<close>, \<^verbatim>\<open>to_le_bytes\<close>, \<^verbatim>\<open>from_le_bytes\<close>) with the interface
  \<open>fixed_codec\<close> that the packet and record formats are built on.
\<close>

unbundle bit_operations_syntax

section \<open>Types and rule collections\<close>

type_synonym byte = "8 word"
type_synonym u8 = "8 word"
type_synonym u16 = "16 word"
type_synonym u32 = "32 word"
type_synonym u64 = "64 word"
type_synonym bytes = "8 word list"

named_theorems codec_simps \<open>lengths and round trips of the fixed-width encodings\<close>
named_theorems slice_simps \<open>reading back what was written to a buffer\<close>

section \<open>Results\<close>

text \<open>
  A fallible operation returns \<open>Inl e\<close> for \<^verbatim>\<open>Err(e)\<close> and \<open>Inr x\<close> for \<^verbatim>\<open>Ok(x)\<close>; \<open>bindE\<close> is the
  question-mark operator: it stops at the first error.
\<close>

definition bindE :: "'e + 'a \<Rightarrow> ('a \<Rightarrow> 'e + 'b) \<Rightarrow> 'e + 'b" where
  "bindE r f = (case r of Inl e \<Rightarrow> Inl e | Inr x \<Rightarrow> f x)"

definition ok_or :: "'e \<Rightarrow> 'a option \<Rightarrow> 'e + 'a" where
  "ok_or e r = (case r of None \<Rightarrow> Inl e | Some x \<Rightarrow> Inr x)"

definition map_err :: "('e \<Rightarrow> 'f) \<Rightarrow> 'e + 'a \<Rightarrow> 'f + 'a" where
  "map_err g r = (case r of Inl e \<Rightarrow> Inl (g e) | Inr x \<Rightarrow> Inr x)"

text \<open>
  The same for operations that also change a state: the state survives an error, as whatever
  was written before it does.
\<close>

definition bindS :: "'s \<times> ('e + 'a) \<Rightarrow> ('s \<Rightarrow> 'a \<Rightarrow> 's \<times> ('e + 'b)) \<Rightarrow> 's \<times> ('e + 'b)" where
  "bindS r f = (case r of (s, Inl e) \<Rightarrow> (s, Inl e) | (s, Inr x) \<Rightarrow> f s x)"

section \<open>Slices and buffers\<close>

text \<open>
  \<open>get_range xs a b\<close> is \<^verbatim>\<open>xs.get(a..b)\<close>, which is \<^verbatim>\<open>None\<close> when the range leaves the buffer;
  \<open>subslice xs a b\<close> is \<^verbatim>\<open>&xs[a..b]\<close> where the range is known to be inside, and \<open>put xs a ys\<close> is
  \<^verbatim>\<open>xs[a..a + ys.len()].copy_from_slice(ys)\<close> where it fits.
\<close>

definition get_at :: "'a list \<Rightarrow> nat \<Rightarrow> 'a option" where
  "get_at xs i = (if i < length xs then Some (xs ! i) else None)"

definition subslice :: "'a list \<Rightarrow> nat \<Rightarrow> nat \<Rightarrow> 'a list" where
  "subslice xs a b = take (b - a) (drop a xs)"

definition get_range :: "'a list \<Rightarrow> nat \<Rightarrow> nat \<Rightarrow> 'a list option" where
  "get_range xs a b = (if a \<le> b \<and> b \<le> length xs then Some (subslice xs a b) else None)"

definition put :: "'a list \<Rightarrow> nat \<Rightarrow> 'a list \<Rightarrow> 'a list" where
  "put xs a ys = take a xs @ ys @ drop (a + length ys) xs"

text \<open>
  \<open>chunks n xs\<close> is the sequence \<^verbatim>\<open>xs.chunks(n)\<close>: pieces of \<open>n\<close> elements, the last one shorter
  when the length is no multiple of \<open>n\<close>.
\<close>

function chunks :: "nat \<Rightarrow> 'a list \<Rightarrow> 'a list list" where
  "chunks n xs = (if n = 0 \<or> xs = [] then [] else take n xs # chunks n (drop n xs))"
  by pat_completeness auto
termination
  by (relation "measure (\<lambda>(n, xs). length xs)") auto

declare chunks.simps [simp del]

text \<open>The bytes of an ASCII literal.\<close>

definition ascii :: "string \<Rightarrow> bytes" where
  "ascii s = map of_char s"

section \<open>Fixed-width integers as bytes\<close>

definition le_bytes :: "nat \<Rightarrow> 'a::len word \<Rightarrow> bytes" where
  "le_bytes n w = map (\<lambda>i. ucast (drop_bit (8 * i) w)) [0..<n]"

definition be_bytes :: "nat \<Rightarrow> 'a::len word \<Rightarrow> bytes" where
  "be_bytes n w = rev (le_bytes n w)"

definition of_le :: "bytes \<Rightarrow> 'a::len word" where
  "of_le bs = foldr (\<lambda>b a. ucast b OR push_bit 8 a) bs 0"

definition of_be :: "bytes \<Rightarrow> 'a::len word" where
  "of_be bs = foldl (\<lambda>a b. push_bit 8 a OR ucast b) 0 bs"

abbreviation be16 :: "u16 \<Rightarrow> bytes" where "be16 \<equiv> be_bytes 2"
abbreviation be32 :: "u32 \<Rightarrow> bytes" where "be32 \<equiv> be_bytes 4"
abbreviation be64 :: "u64 \<Rightarrow> bytes" where "be64 \<equiv> be_bytes 8"
abbreviation le16 :: "u16 \<Rightarrow> bytes" where "le16 \<equiv> le_bytes 2"
abbreviation le32 :: "u32 \<Rightarrow> bytes" where "le32 \<equiv> le_bytes 4"
abbreviation le64 :: "u64 \<Rightarrow> bytes" where "le64 \<equiv> le_bytes 8"

abbreviation from_be16 :: "bytes \<Rightarrow> u16" where "from_be16 \<equiv> of_be"
abbreviation from_be32 :: "bytes \<Rightarrow> u32" where "from_be32 \<equiv> of_be"
abbreviation from_be64 :: "bytes \<Rightarrow> u64" where "from_be64 \<equiv> of_be"
abbreviation from_le16 :: "bytes \<Rightarrow> u16" where "from_le16 \<equiv> of_le"
abbreviation from_le32 :: "bytes \<Rightarrow> u32" where "from_le32 \<equiv> of_le"
abbreviation from_le64 :: "bytes \<Rightarrow> u64" where "from_le64 \<equiv> of_le"

section \<open>Saturating and wrapping arithmetic\<close>

definition sat_add :: "'a::len word \<Rightarrow> 'a word \<Rightarrow> 'a word" where
  "sat_add a b = (if a + b < a then - 1 else a + b)"

definition sat_sub :: "'a::len word \<Rightarrow> 'a word \<Rightarrow> 'a word" where
  "sat_sub a b = (if a < b then 0 else a - b)"

section \<open>Lemmas on results\<close>

lemma bindE_simps [simp]:
  "bindE (Inl e) f = Inl e"
  "bindE (Inr x) f = f x"
  by (simp_all add: bindE_def)

lemma bindE_eq_Inr: "bindE r f = Inr y \<longleftrightarrow> (\<exists>x. r = Inr x \<and> f x = Inr y)"
  by (cases r) auto

lemma bindE_eq_Inl: "bindE r f = Inl e \<longleftrightarrow> r = Inl e \<or> (\<exists>x. r = Inr x \<and> f x = Inl e)"
  by (cases r) auto

lemma bindE_cong [fundef_cong]:
  "r = r' \<Longrightarrow> (\<And>x. r' = Inr x \<Longrightarrow> f x = g x) \<Longrightarrow> bindE r f = bindE r' g"
  by (cases r') auto

lemma bindS_simps [simp]:
  "bindS (s, Inl e) f = (s, Inl e)"
  "bindS (s, Inr x) f = f s x"
  by (simp_all add: bindS_def)

lemma bindS_eq_Inr: "bindS r f = (t, Inr y) \<longleftrightarrow> (\<exists>s x. r = (s, Inr x) \<and> f s x = (t, Inr y))"
  by (cases r; cases "snd r") (auto simp: bindS_def)

lemma bindS_cong [fundef_cong]:
  "r = r' \<Longrightarrow> (\<And>s x. r' = (s, Inr x) \<Longrightarrow> f s x = g s x) \<Longrightarrow> bindS r f = bindS r' g"
  by (cases r'; cases "snd r'") (auto simp: bindS_def)

lemma ok_or_simps [simp]:
  "ok_or e None = Inl e"
  "ok_or e (Some x) = Inr x"
  by (simp_all add: ok_or_def)

lemma ok_or_eq_Inr [simp]: "ok_or e r = Inr x \<longleftrightarrow> r = Some x"
  by (cases r) auto

lemma map_err_simps [simp]:
  "map_err g (Inl e) = Inl (g e)"
  "map_err g (Inr x) = Inr x"
  by (simp_all add: map_err_def)

section \<open>Lemmas on slices and buffers\<close>

lemma get_at_Some [simp]: "get_at xs i = Some x \<longleftrightarrow> i < length xs \<and> x = xs ! i"
  by (auto simp: get_at_def)

lemma get_at_None [simp]: "get_at xs i = None \<longleftrightarrow> length xs \<le> i"
  by (auto simp: get_at_def)

lemma get_at_append:
  "get_at (xs @ ys) i = (if i < length xs then Some (xs ! i) else get_at ys (i - length xs))"
  by (auto simp: get_at_def nth_append)

lemma length_slice [simp]: "length (subslice xs a b) = min (b - a) (length xs - a)"
  by (simp add: subslice_def)

lemma get_range_Some [simp]:
  "get_range xs a b = Some ys \<longleftrightarrow> a \<le> b \<and> b \<le> length xs \<and> ys = subslice xs a b"
  by (auto simp: get_range_def)

lemma get_range_None [simp]: "get_range xs a b = None \<longleftrightarrow> \<not> (a \<le> b \<and> b \<le> length xs)"
  by (simp add: get_range_def)

lemma slice_append_left [slice_simps]:
  "b \<le> length xs \<Longrightarrow> subslice (xs @ ys) a b = subslice xs a b"
  by (simp add: subslice_def)

lemma slice_append_right [slice_simps]:
  "length xs \<le> a \<Longrightarrow> subslice (xs @ ys) a b = subslice ys (a - length xs) (b - length xs)"
  by (simp add: subslice_def)

lemma slice_Cons [slice_simps]:
  "0 < a \<Longrightarrow> subslice (x # xs) a b = subslice xs (a - 1) (b - 1)"
  by (simp add: subslice_def drop_Cons')

lemma slice_whole [simp]: "length xs \<le> b \<Longrightarrow> subslice xs 0 b = xs"
  by (simp add: subslice_def)

lemma slice_empty [simp]: "b \<le> a \<Longrightarrow> subslice xs a b = []"
  by (simp add: subslice_def)

lemma slice_drop: "subslice (drop k xs) a b = subslice xs (k + a) (k + b)"
  by (simp add: subslice_def add.commute)

lemma nth_slice [simp]:
  "i < b - a \<Longrightarrow> a + i < length xs \<Longrightarrow> subslice xs a b ! i = xs ! (a + i)"
  by (simp add: subslice_def)

lemma slice_append_slice:
  "a \<le> b \<Longrightarrow> b \<le> c \<Longrightarrow> subslice xs a b @ subslice xs b c = subslice xs a c"
proof -
  assume ab: "a \<le> b" and bc: "b \<le> c"
  have "take (c - a) (drop a xs)
      = take (b - a) (drop a xs) @ take (c - b) (drop (b - a) (drop a xs))"
    using ab bc by (metis add_diff_inverse_nat diff_diff_left le_add_diff_inverse
        not_less take_add diff_le_mono Nat.add_diff_assoc2)
  then show ?thesis
    using ab by (simp add: subslice_def)
qed

lemma drop_exact: "length xs = n \<Longrightarrow> drop n (xs @ ys) = ys"
  by simp

lemma length_put [simp]:
  "a + length ys \<le> length xs \<Longrightarrow> length (put xs a ys) = length xs"
  by (simp add: put_def)

lemma slice_put_same [slice_simps]:
  "a + length ys \<le> length xs \<Longrightarrow> b = a + length ys \<Longrightarrow> subslice (put xs a ys) a b = ys"
  by (simp add: put_def subslice_def)

lemma slice_drop_take: "subslice xs a b = drop a (take b xs)"
  by (simp add: subslice_def drop_take)

lemma slice_put_before [slice_simps]:
  "b \<le> a \<Longrightarrow> a + length ys \<le> length xs \<Longrightarrow> subslice (put xs a ys) c b = subslice xs c b"
  by (simp add: put_def slice_drop_take min_def)

lemma slice_put_after [slice_simps]:
  assumes "a + length ys \<le> c" "a + length ys \<le> length xs"
  shows "subslice (put xs a ys) c b = subslice xs c b"
proof -
  have "drop c (put xs a ys) = drop (c - (a + length ys)) (drop (a + length ys) xs)"
    using assms by (simp add: put_def)
  then have "drop c (put xs a ys) = drop c xs"
    using assms by simp
  then show ?thesis by (simp add: subslice_def)
qed

lemma nth_put:
  "a + length ys \<le> length xs \<Longrightarrow> i < length xs \<Longrightarrow>
   put xs a ys ! i = (if a \<le> i \<and> i < a + length ys then ys ! (i - a) else xs ! i)"
  by (auto simp: put_def nth_append min_def)

lemma put_put_adjacent:
  "b = a + length ys \<Longrightarrow> b + length zs \<le> length xs \<Longrightarrow> put (put xs a ys) b zs = put xs a (ys @ zs)"
  by (simp add: put_def ac_simps)

lemma put_whole: "length ys = length xs \<Longrightarrow> put xs 0 ys = ys"
  by (simp add: put_def)

section \<open>Lemmas on chunks\<close>

lemma chunks_Nil [simp]: "chunks n [] = []"
  by (simp add: chunks.simps)

lemma chunks_step:
  "0 < n \<Longrightarrow> xs \<noteq> [] \<Longrightarrow> chunks n xs = take n xs # chunks n (drop n xs)"
  by (subst chunks.simps) simp

lemma concat_chunks: "0 < n \<Longrightarrow> concat (chunks n xs) = xs"
proof (induction n xs rule: chunks.induct)
  case (1 n xs)
  then show ?case by (cases "xs = []") (simp_all add: chunks_step)
qed

lemma length_in_chunks:
  "c \<in> set (chunks n xs) \<Longrightarrow> 0 < length c \<and> length c \<le> n"
proof (induction n xs rule: chunks.induct)
  case (1 n xs)
  then show ?case
    by (cases "n = 0 \<or> xs = []") (auto simp: chunks.simps [of n xs])
qed

section \<open>Fixed-width integers: lengths and round trips\<close>

lemma length_le_bytes [simp, codec_simps]: "length (le_bytes n w) = n"
  by (simp add: le_bytes_def)

lemma length_be_bytes [simp, codec_simps]: "length (be_bytes n w) = n"
  by (simp add: be_bytes_def)

lemma le_bytes_0 [simp]: "le_bytes 0 w = []"
  by (simp add: le_bytes_def)

lemma le_bytes_Suc: "le_bytes (Suc n) w = ucast w # le_bytes n (drop_bit 8 w)"
proof -
  have "[0..<Suc n] = 0 # map Suc [0..<n]"
    by (simp add: upt_conv_Cons map_Suc_upt del: upt_Suc)
  then show ?thesis
    by (simp add: le_bytes_def o_def add.commute del: upt_Suc)
qed

lemma of_le_simps [simp]:
  "of_le [] = 0"
  "of_le (b # bs) = ucast b OR push_bit 8 (of_le bs)"
  by (simp_all add: of_le_def)

lemma of_be_rev: "of_be bs = of_le (rev bs)"
  by (simp add: of_be_def of_le_def foldr_conv_fold foldl_conv_fold or.commute)

lemma of_le_bytes_take_bit: "(of_le (le_bytes n w) :: 'a::len word) = take_bit (8 * n) w"
proof (induction n arbitrary: w)
  case 0
  then show ?case by simp
next
  case (Suc n)
  have "(of_le (le_bytes (Suc n) w) :: 'a word)
      = ucast (ucast w :: byte) OR push_bit 8 (take_bit (8 * n) (drop_bit 8 w))"
    by (simp add: le_bytes_Suc Suc)
  also have "\<dots> = take_bit (8 * Suc n) w"
    by (rule bit_word_eqI) (auto simp: bit_simps)
  finally show ?case .
qed

lemma le_bytes_of_le_length:
  "8 * length bs \<le> LENGTH('a::len) \<Longrightarrow> le_bytes (length bs) (of_le bs :: 'a word) = bs"
proof (induction bs)
  case Nil
  then show ?case by simp
next
  case (Cons b bs)
  let ?r = "of_le bs :: 'a word"
  have low: "(ucast (ucast b OR push_bit 8 ?r) :: byte) = b"
    using Cons.prems by (intro bit_word_eqI) (auto simp: bit_simps)
  have bnd: "bit ?r i \<Longrightarrow> i + 8 < LENGTH('a)" for i
  proof -
    assume "bit ?r i"
    have "?r = take_bit (8 * length bs) ?r"
      using Cons by (simp add: of_le_bytes_take_bit [symmetric])
    with \<open>bit ?r i\<close> have "i < 8 * length bs" by (metis bit_take_bit_iff)
    with Cons.prems show ?thesis by simp
  qed
  have high: "drop_bit 8 (ucast b OR push_bit 8 ?r) = ?r"
    by (rule bit_word_eqI)
      (use bnd in \<open>auto simp: bit_simps add.commute dest: bit_imp_le_length\<close>)
  from Cons low high show ?case by (simp add: le_bytes_Suc)
qed

lemma le_bytes_of_le [codec_simps]:
  "length bs = n \<Longrightarrow> 8 * n \<le> LENGTH('a::len) \<Longrightarrow> le_bytes n (of_le bs :: 'a word) = bs"
  using le_bytes_of_le_length by blast

lemma of_le_le_bytes [simp, codec_simps]:
  "LENGTH('a::len) \<le> 8 * n \<Longrightarrow> (of_le (le_bytes n w) :: 'a word) = w"
  by (simp add: of_le_bytes_take_bit take_bit_word_eq_self)

lemma of_be_be_bytes [simp, codec_simps]:
  "LENGTH('a::len) \<le> 8 * n \<Longrightarrow> (of_be (be_bytes n w) :: 'a word) = w"
  by (simp add: of_be_rev be_bytes_def)

lemma be_bytes_of_be [codec_simps]:
  "length bs = n \<Longrightarrow> 8 * n \<le> LENGTH('a::len) \<Longrightarrow> be_bytes n (of_be bs :: 'a word) = bs"
  by (simp add: be_bytes_def of_be_rev le_bytes_of_le)

lemma unat_of_nat_small: "n < 2 ^ LENGTH('a) \<Longrightarrow> unat (word_of_nat n :: 'a :: len word) = n"
  by (simp add: unat_of_nat take_bit_nat_eq_self)

lemma take_bit_eq_self_iff_less: "take_bit k (w :: 'a :: len word) = w \<longleftrightarrow> unat w < 2 ^ k"
  by (simp add: word_unat_eq_iff unsigned_take_bit_eq take_bit_nat_eq_self_iff)

lemma sat_add_spec: "unat (sat_add a b) = min (unat a + unat b) (2 ^ LENGTH('a) - 1)" for a b :: "'a::len word"
proof (cases "unat a + unat b < 2 ^ LENGTH('a)")
  case True
  then have "unat (a + b) = unat a + unat b" by (simp add: unat_add_lem)
  with True show ?thesis by (simp add: sat_add_def word_less_nat_alt)
next
  case False
  obtain x y M :: nat where xy: "unat a = x" "unat b = y" "2 ^ LENGTH('a) = M" by simp
  have lt: "x < M" "y < M" unfolding xy [symmetric] by (rule unsigned_less)+
  have "unat (a + b) = (x + y) mod M" unfolding xy [symmetric] by (rule unat_word_ariths)
  also have "\<dots> = x + y - M" using False lt by (simp add: xy le_mod_geq)
  finally show ?thesis using lt False
    by (simp add: sat_add_def word_less_nat_alt unsigned_minus_1_eq_mask mask_eq_exp_minus_1 xy)
qed

section \<open>The interface of a fixed-width encoding\<close>

text \<open>
  What a format needs of an integer encoding: it always has the same width, and reading the
  field back, wherever it stands in the buffer, gives the value that was written.
\<close>

locale fixed_codec =
  fixes width :: nat
    and enc :: "'v \<Rightarrow> bytes"
    and dec :: "bytes \<Rightarrow> 'v"
  assumes enc_width: "length (enc v) = width"
    and dec_enc: "dec (enc v) = v"
    and enc_dec: "length bs = width \<Longrightarrow> enc (dec bs) = bs"
begin

lemma field_append:
  "a = length pre \<Longrightarrow> b = a + width \<Longrightarrow> dec (subslice (pre @ enc v @ post) a b) = v"
  by (simp add: slice_simps enc_width dec_enc)

lemma field_first: "b = width \<Longrightarrow> dec (subslice (enc v @ post) 0 b) = v"
  using field_append [of 0 "[]"] by simp

lemma field_put:
  "a + width \<le> length buf \<Longrightarrow> b = a + width \<Longrightarrow> dec (subslice (put buf a (enc v)) a b) = v"
  by (simp add: slice_put_same enc_width dec_enc)

lemma enc_inject: "enc v = enc w \<longleftrightarrow> v = w"
  by (metis dec_enc)

end

interpretation be16: fixed_codec 2 be16 from_be16
  by unfold_locales (simp_all add: codec_simps)

interpretation be32: fixed_codec 4 be32 from_be32
  by unfold_locales (simp_all add: codec_simps)

interpretation be64: fixed_codec 8 be64 from_be64
  by unfold_locales (simp_all add: codec_simps)

interpretation le16: fixed_codec 2 le16 from_le16
  by unfold_locales (simp_all add: codec_simps)

interpretation le32: fixed_codec 4 le32 from_le32
  by unfold_locales (simp_all add: codec_simps)

interpretation le64: fixed_codec 8 le64 from_le64
  by unfold_locales (simp_all add: codec_simps)

section \<open>The interface of a packet header\<close>

text \<open>
  Every packet format of the mux writes a header of fixed length at the front of a caller's
  buffer and reads it back from the front of a packet. The interface says what its users rely
  on: the header bytes depend on the header alone, the rest of the buffer is left alone, and a
  packet that starts with the bytes of a header decodes to that header up to the fields the
  format does not carry exactly (\<open>norm\<close>). The client of the interface is the code that frames
  a payload: allocate, encode, copy the payload behind the header.
\<close>

locale header_codec =
  fixes hlen :: nat
    and hdr :: "'h \<Rightarrow> bytes"
    and norm :: "'h \<Rightarrow> 'h"
    and encode :: "'h \<Rightarrow> bytes \<Rightarrow> 'e + (bytes \<times> nat)"
    and decode :: "bytes \<Rightarrow> 'e + 'h"
  assumes length_hdr: "length (hdr h) = hlen"
    and encode_ok: "hlen \<le> length out \<Longrightarrow> encode h out = Inr (put out 0 (hdr h), hlen)"
    and encode_short: "length out < hlen \<Longrightarrow> \<exists>e. encode h out = Inl e"
    and decode_hdr: "decode (hdr h @ rest) = Inr (norm h)"
    and decode_short: "length bs < hlen \<Longrightarrow> \<exists>e. decode bs = Inl e"
begin

lemma encode_buffer: "hlen \<le> length out \<Longrightarrow> encode h out = Inr (hdr h @ drop hlen out, hlen)"
  by (simp add: encode_ok put_def length_hdr)

lemma frame_payload:
  "encode h (replicate (hlen + length p) 0) = Inr (hdr h @ replicate (length p) 0, hlen)"
  "put (hdr h @ replicate (length p) 0) hlen p = hdr h @ p"
  by (simp_all add: encode_buffer put_def length_hdr)

lemma decode_encode:
  "encode h out = Inr (out', n) \<Longrightarrow> decode out' = Inr (norm h) \<and> n = hlen \<and> length out' = length out"
  using encode_short [of out h] encode_buffer [of out h]
  by (cases "hlen \<le> length out") (auto simp: decode_hdr length_hdr not_le)

lemma drop_header: "drop hlen (hdr h @ p) = p"
  by (simp add: length_hdr)

end

end
