(* ===== verification/Frame.thy ===== *)
theory Frame
  imports Prelude
begin

text \<open>
  The outer framing of the USB mux, \<^verbatim>\<open>src/usbmux/frame.rs\<close>: the mux header in its two versions,
  the version packet and the version request. The theory ends with the interpretation of the
  header interface on both header layouts.
\<close>

section \<open>Constants\<close>

definition HEADER_LEN_V2 :: nat where "HEADER_LEN_V2 = 16"
definition HEADER_LEN_V1 :: nat where "HEADER_LEN_V1 = 8"
definition VERSION_PACKET_LEN :: nat where "VERSION_PACKET_LEN = 20"
definition HOST_MAGIC :: u32 where "HOST_MAGIC = 0xFEEDFACE"
definition DEVICE_MAGIC :: u32 where "DEVICE_MAGIC = 0xFACEFACE"
definition MAX_PACKET :: nat where "MAX_PACKET = 0x8000"
definition MAX_TRANSFER :: nat where "MAX_TRANSFER = 0x7FFC"

lemmas frame_consts =
  HEADER_LEN_V2_def HEADER_LEN_V1_def VERSION_PACKET_LEN_def MAX_PACKET_def MAX_TRANSFER_def

section \<open>Versions and protocols\<close>

datatype MuxVersion = V1 | V2

fun header_len :: "MuxVersion \<Rightarrow> nat" where
  "header_len V1 = HEADER_LEN_V1"
| "header_len V2 = HEADER_LEN_V2"

fun MuxVersion_wire_value :: "MuxVersion \<Rightarrow> u32" where
  "MuxVersion_wire_value V1 = 1"
| "MuxVersion_wire_value V2 = 2"

definition negotiated_from :: "u32 \<Rightarrow> MuxVersion" where
  "negotiated_from value = (if value = 1 then V1 else V2)"

fun is_sequenced :: "MuxVersion \<Rightarrow> bool" where
  "is_sequenced V1 = False"
| "is_sequenced V2 = True"

datatype Protocol = Version | Control | HostLogLevel | Tcp | Unknown u32

fun Protocol_wire_value :: "Protocol \<Rightarrow> u32" where
  "Protocol_wire_value Version = 0"
| "Protocol_wire_value Control = 1"
| "Protocol_wire_value HostLogLevel = 2"
| "Protocol_wire_value Tcp = 6"
| "Protocol_wire_value (Unknown value) = value"

definition Protocol_from_wire :: "u32 \<Rightarrow> Protocol" where
  "Protocol_from_wire value =
     (if value = 0 then Version
      else if value = 1 then Control
      else if value = 2 then HostLogLevel
      else if value = 6 then Tcp
      else Unknown value)"

fun is_dispatched :: "Protocol \<Rightarrow> bool" where
  "is_dispatched Version = True"
| "is_dispatched HostLogLevel = True"
| "is_dispatched Tcp = True"
| "is_dispatched _ = False"

section \<open>The mux header\<close>

datatype FrameError =
    FrameShort nat nat
  | LengthMismatch u32 nat
  | NotVersion u32

record MuxHeader =
  mh_protocol :: Protocol
  mh_length :: u32
  mh_magic :: u32
  mh_tx_seq :: u16
  mh_rx_ack :: u16

definition MuxHeader_host :: "Protocol \<Rightarrow> u32 \<Rightarrow> u16 \<Rightarrow> u16 \<Rightarrow> MuxHeader" where
  "MuxHeader_host p len tx rx =
     \<lparr>mh_protocol = p, mh_length = len, mh_magic = HOST_MAGIC, mh_tx_seq = tx, mh_rx_ack = rx\<rparr>"

definition MuxHeader_encode :: "MuxVersion \<Rightarrow> MuxHeader \<Rightarrow> bytes \<Rightarrow> FrameError + (bytes \<times> nat)" where
  "MuxHeader_encode version h out =
     (let len = header_len version in
      if length out < len then Inl (FrameShort len (length out))
      else
        let out = put out 0 (be32 (Protocol_wire_value (mh_protocol h)));
            out = put out 4 (be32 (mh_length h))
        in if is_sequenced version then
             let out = put out 8 (be32 (mh_magic h));
                 out = put out 12 (be16 (mh_tx_seq h));
                 out = put out 14 (be16 (mh_rx_ack h))
             in Inr (out, len)
           else Inr (out, len))"

definition MuxHeader_decode :: "MuxVersion \<Rightarrow> bytes \<Rightarrow> FrameError + MuxHeader" where
  "MuxHeader_decode version bs =
     (let len = header_len version in
      if length bs < len then Inl (FrameShort len (length bs))
      else
        let protocol = Protocol_from_wire (from_be32 (subslice bs 0 4));
            declared = from_be32 (subslice bs 4 8);
            (magic, tx_seq, rx_ack) =
              (if is_sequenced version then
                 (from_be32 (subslice bs 8 12), from_be16 (subslice bs 12 14),
                  from_be16 (subslice bs 14 16))
               else (0, 0, 0))
        in Inr \<lparr>mh_protocol = protocol, mh_length = declared, mh_magic = magic,
                mh_tx_seq = tx_seq, mh_rx_ack = rx_ack\<rparr>)"

definition MuxHeader_payload :: "MuxHeader \<Rightarrow> MuxVersion \<Rightarrow> bytes \<Rightarrow> FrameError + bytes" where
  "MuxHeader_payload h version packet =
     (if unat (mh_length h) \<noteq> length packet then Inl (LengthMismatch (mh_length h) (length packet))
      else let header = header_len version in
        if length packet < header then Inl (FrameShort header (length packet))
        else Inr (drop header packet))"

section \<open>The version exchange\<close>

record VersionPacket =
  vp_version :: u32
  vp_reserved :: u32

definition VersionPacket_encode :: "VersionPacket \<Rightarrow> bytes" where
  "VersionPacket_encode p =
     (let out = replicate VERSION_PACKET_LEN 0;
          out = put out 0 (be32 (Protocol_wire_value Version));
          out = put out 4 (be32 (word_of_nat VERSION_PACKET_LEN));
          out = put out 8 (be32 (vp_version p));
          out = put out 12 (be32 (vp_reserved p))
      in out)"

definition VersionPacket_decode :: "bytes \<Rightarrow> FrameError + VersionPacket" where
  "VersionPacket_decode bs =
     (if length bs < VERSION_PACKET_LEN then Inl (FrameShort VERSION_PACKET_LEN (length bs))
      else let protocol = from_be32 (subslice bs 0 4) in
        if protocol \<noteq> Protocol_wire_value Version then Inl (NotVersion protocol)
        else Inr \<lparr>vp_version = from_be32 (subslice bs 8 12),
                  vp_reserved = from_be32 (subslice bs 12 16)\<rparr>)"

definition VersionPacket_negotiated :: "VersionPacket \<Rightarrow> MuxVersion" where
  "VersionPacket_negotiated p = negotiated_from (vp_version p)"

datatype VersionRequest = VersionRequest u32

definition VersionRequest_resync :: VersionRequest where
  "VersionRequest_resync = VersionRequest HOST_MAGIC"

definition VersionRequest_exact :: "MuxVersion \<Rightarrow> VersionRequest" where
  "VersionRequest_exact version = VersionRequest (MuxVersion_wire_value version)"

fun VersionRequest_wire_value :: "VersionRequest \<Rightarrow> u32" where
  "VersionRequest_wire_value (VersionRequest value) = value"

fun VersionRequest_expected :: "VersionRequest \<Rightarrow> MuxVersion" where
  "VersionRequest_expected (VersionRequest value) = negotiated_from value"

fun VersionRequest_packet :: "VersionRequest \<Rightarrow> VersionPacket" where
  "VersionRequest_packet (VersionRequest value) = \<lparr>vp_version = value, vp_reserved = 0\<rparr>"

section \<open>The header as a byte string\<close>

text \<open>
  The bytes of a header as one concatenation, the reference for the field-by-field writes, and
  the part of a header its wire form keeps: an \<open>Unknown\<close> protocol number that is a known one
  reads back as the known protocol, and version 1 carries no magic and no sequence numbers.
\<close>

definition mux_header_bytes :: "MuxVersion \<Rightarrow> MuxHeader \<Rightarrow> bytes" where
  "mux_header_bytes version h =
     be32 (Protocol_wire_value (mh_protocol h)) @ be32 (mh_length h) @
     (if is_sequenced version then be32 (mh_magic h) @ be16 (mh_tx_seq h) @ be16 (mh_rx_ack h)
      else [])"

definition mux_header_norm :: "MuxVersion \<Rightarrow> MuxHeader \<Rightarrow> MuxHeader" where
  "mux_header_norm version h =
     (let h = h\<lparr>mh_protocol := Protocol_from_wire (Protocol_wire_value (mh_protocol h))\<rparr> in
      if is_sequenced version then h else h\<lparr>mh_magic := 0, mh_tx_seq := 0, mh_rx_ack := 0\<rparr>)"

section \<open>Lemmas\<close>

lemma header_len_bounds: "8 \<le> header_len v" "header_len v \<le> 16"
  by (cases v; simp add: frame_consts)+

lemma Protocol_from_to_wire [simp]: "Protocol_wire_value (Protocol_from_wire w) = w"
  by (simp add: Protocol_from_wire_def)

lemma Protocol_to_from_wire:
  "(\<And>w. p = Unknown w \<Longrightarrow> w \<notin> {0, 1, 2, 6}) \<Longrightarrow> Protocol_from_wire (Protocol_wire_value p) = p"
  by (cases p) (auto simp: Protocol_from_wire_def)

lemma length_mux_header_bytes [simp]: "length (mux_header_bytes v h) = header_len v"
  by (cases v) (simp_all add: mux_header_bytes_def frame_consts)

lemma MuxHeader_encode_put:
  assumes "header_len v \<le> length out"
  shows "MuxHeader_encode v h out = Inr (put out 0 (mux_header_bytes v h), header_len v)"
  using assms
  by (cases v)
    (simp_all add: MuxHeader_encode_def mux_header_bytes_def put_put_adjacent frame_consts Let_def)

lemma MuxHeader_decode_bytes:
  "MuxHeader_decode v (mux_header_bytes v h @ rest) = Inr (mux_header_norm v h)"
  by (cases v)
    (simp_all add: MuxHeader_decode_def mux_header_bytes_def mux_header_norm_def frame_consts
      Let_def slice_simps)

lemma MuxHeader_short:
  "length bs < header_len v \<Longrightarrow> MuxHeader_encode v h bs = Inl (FrameShort (header_len v) (length bs))"
  "length bs < header_len v \<Longrightarrow> MuxHeader_decode v bs = Inl (FrameShort (header_len v) (length bs))"
  by (simp_all add: MuxHeader_encode_def MuxHeader_decode_def Let_def)

lemma length_VersionPacket_encode [simp]: "length (VersionPacket_encode p) = VERSION_PACKET_LEN"
  by (simp add: VersionPacket_encode_def frame_consts Let_def)

interpretation mux: header_codec "header_len v" "mux_header_bytes v" "mux_header_norm v"
    "MuxHeader_encode v" "MuxHeader_decode v" for v
  by unfold_locales
    (simp_all add: MuxHeader_encode_put MuxHeader_decode_bytes MuxHeader_short)

lemma MuxHeader_payload_frame:
  "unat (mh_length h) = header_len v + length p \<Longrightarrow>
   MuxHeader_payload (mux_header_norm v h) v (mux_header_bytes v h @ p) = Inr p"
  by (simp add: MuxHeader_payload_def mux_header_norm_def Let_def)

lemma subslice_4: "subslice bs 0 4 @ subslice bs 4 8 = subslice bs 0 8"
  by (rule slice_append_slice) simp_all

lemma take_eq_subslice: "take n bs = subslice bs 0 n"
  by (simp add: subslice_def)

lemma mux_header_bytes_decode:
  assumes "MuxHeader_decode v bs = Inr h"
  shows "mux_header_bytes v h = take (header_len v) bs" and "header_len v \<le> length bs"
proof -
  show len: "header_len v \<le> length bs"
    using assms MuxHeader_short(2) [of bs v] by fastforce
  show "mux_header_bytes v h = take (header_len v) bs"
  proof (cases v)
    case V1
    with assms len show ?thesis
      by (auto simp: MuxHeader_decode_def mux_header_bytes_def frame_consts Let_def codec_simps
          take_eq_subslice slice_append_slice)
  next
    case V2
    with assms len show ?thesis
      by (auto simp: MuxHeader_decode_def mux_header_bytes_def frame_consts Let_def codec_simps
          take_eq_subslice slice_append_slice)
  qed
qed

section \<open>Properties\<close>

text \<open>
  Claim C9. Encoding a mux header into a buffer that has room for it succeeds, writes exactly
  the header length at the front, leaves the rest of the buffer alone, and decoding the buffer
  returns the header, up to the fields version 1 does not carry and the spelling of a known
  protocol number.
\<close>

theorem MuxHeader_roundtrip:
  assumes "header_len v \<le> length out"
  shows "\<exists>out'. MuxHeader_encode v h out = Inr (out', header_len v)
            \<and> length out' = length out
            \<and> drop (header_len v) out' = drop (header_len v) out
            \<and> MuxHeader_decode v out' = Inr (mux_header_norm v h)"
  using assms by (simp add: mux.encode_buffer mux.decode_hdr)

theorem MuxHeader_roundtrip_witness:
  "\<exists>out'. MuxHeader_encode V2 (MuxHeader_host Tcp 17 3 2) (replicate 17 7) = Inr (out', 16)
      \<and> length out' = 17 \<and> drop 16 out' = [7]
      \<and> MuxHeader_decode V2 out' = Inr (MuxHeader_host Tcp 17 3 2)"
  using MuxHeader_roundtrip [of V2 "replicate 17 7" "MuxHeader_host Tcp 17 3 2"]
  by (simp add: HEADER_LEN_V2_def mux_header_norm_def MuxHeader_host_def Protocol_from_wire_def)

text \<open>
  The mux header format is canonical: whatever bytes a header was decoded from, writing
  the decoded header back over them reproduces the same buffer, so no two headers share an
  encoding and decoding loses nothing of the wire form.
\<close>

lemma MuxHeader_decode_canonical:
  assumes "MuxHeader_decode v bs = Inr h"
  shows "MuxHeader_encode v h bs = Inr (bs, header_len v)"
  using mux_header_bytes_decode [OF assms] by (simp add: mux.encode_buffer)

text \<open>
  The version exchange is coherent: the packet built for a version request decodes to
  the value requested, an exact request negotiates the version it names, and the resync request,
  which carries the host magic, negotiates version 2.
\<close>

lemma version_exchange_roundtrip:
  "VersionPacket_decode (VersionPacket_encode (VersionRequest_packet r)) = Inr (VersionRequest_packet r)
   \<and> VersionPacket_negotiated (VersionRequest_packet r) = VersionRequest_expected r
   \<and> VersionRequest_expected (VersionRequest_exact v) = v
   \<and> VersionRequest_expected VersionRequest_resync = V2"
proof -
  have "VersionPacket_decode (VersionPacket_encode p) = Inr p" for p
    by (simp add: VersionPacket_decode_def VersionPacket_encode_def frame_consts Let_def
        slice_simps)
  moreover have "VersionRequest_expected (VersionRequest_exact v) = v"
    by (cases v) (simp_all add: VersionRequest_exact_def negotiated_from_def)
  ultimately show ?thesis
    by (cases r) (simp add: VersionPacket_negotiated_def VersionRequest_resync_def
        negotiated_from_def HOST_MAGIC_def)
qed

end
