(* ===== verification/Tcp_Header.thy ===== *)
theory Tcp_Header
  imports Prelude
begin

text \<open>
  The TCP-shaped segment header inside a mux packet, \<^verbatim>\<open>src/usbmux/tcp.rs\<close>: a fixed header of
  five words, no options, no checksum, and a window whose wire form counts units of 256 bytes.
\<close>

section \<open>Constants and flags\<close>

definition TCP_HEADER_LEN :: nat where "TCP_HEADER_LEN = 20"
definition DATA_OFFSET_WORDS :: u8 where "DATA_OFFSET_WORDS = 5"
definition WINDOW_SCALE_SHIFT :: nat where "WINDOW_SCALE_SHIFT = 8"
definition DEVICE_INITIAL_SEQUENCE :: u32 where "DEVICE_INITIAL_SEQUENCE = 0"

definition FIN :: u8 where "FIN = 0x01"
definition SYN :: u8 where "SYN = 0x02"
definition RST :: u8 where "RST = 0x04"
definition PSH :: u8 where "PSH = 0x08"
definition ACK :: u8 where "ACK = 0x10"
definition URG :: u8 where "URG = 0x20"
definition SYN_ACK :: u8 where "SYN_ACK = SYN OR ACK"

lemmas flag_defs = FIN_def SYN_def RST_def PSH_def ACK_def URG_def SYN_ACK_def

section \<open>The header\<close>

record TcpHeader =
  th_source_port :: u16
  th_destination_port :: u16
  th_sequence :: u32
  th_acknowledgement :: u32
  th_flags :: u8
  th_window :: u32

datatype TcpError =
    TcpShort nat nat
  | TcpOptions u8

definition window_from_wire :: "u16 \<Rightarrow> u32" where
  "window_from_wire value = push_bit WINDOW_SCALE_SHIFT (ucast value)"

definition window_to_wire :: "u32 \<Rightarrow> u16" where
  "window_to_wire bs =
     (let scaled = drop_bit WINDOW_SCALE_SHIFT bs in
      if scaled > 0xFFFF then 0xFFFF else ucast scaled)"

definition TcpHeader_encode :: "TcpHeader \<Rightarrow> bytes \<Rightarrow> TcpError + (bytes \<times> nat)" where
  "TcpHeader_encode h out =
     (if length out < TCP_HEADER_LEN then Inl (TcpShort TCP_HEADER_LEN (length out))
      else
        let out = put out 0 (be16 (th_source_port h));
            out = put out 2 (be16 (th_destination_port h));
            out = put out 4 (be32 (th_sequence h));
            out = put out 8 (be32 (th_acknowledgement h));
            out = put out 12 [push_bit 4 DATA_OFFSET_WORDS];
            out = put out 13 [th_flags h];
            out = put out 14 (be16 (window_to_wire (th_window h)));
            out = put out 16 [0, 0, 0, 0]
        in Inr (out, TCP_HEADER_LEN))"

definition TcpHeader_decode :: "bytes \<Rightarrow> TcpError + TcpHeader" where
  "TcpHeader_decode bs =
     (if length bs < TCP_HEADER_LEN then Inl (TcpShort TCP_HEADER_LEN (length bs))
      else let offset_words = drop_bit 4 (bs ! 12) in
        if offset_words \<noteq> DATA_OFFSET_WORDS then Inl (TcpOptions offset_words)
        else Inr \<lparr>th_source_port = from_be16 (subslice bs 0 2),
                  th_destination_port = from_be16 (subslice bs 2 4),
                  th_sequence = from_be32 (subslice bs 4 8),
                  th_acknowledgement = from_be32 (subslice bs 8 12),
                  th_flags = bs ! 13,
                  th_window = window_from_wire (from_be16 (subslice bs 14 16))\<rparr>)"

definition declared_header_len :: "bytes \<Rightarrow> nat option" where
  "declared_header_len bs = map_option (\<lambda>b. unat (drop_bit 2 b AND 0x3c)) (get_at bs 12)"

definition is_bare_ack :: "TcpHeader \<Rightarrow> bool" where
  "is_bare_ack h \<longleftrightarrow> th_flags h = ACK"

definition is_bare_syn :: "TcpHeader \<Rightarrow> bool" where
  "is_bare_syn h \<longleftrightarrow> th_flags h = SYN"

definition is_syn_ack :: "TcpHeader \<Rightarrow> bool" where
  "is_syn_ack h \<longleftrightarrow> th_flags h = SYN_ACK"

definition is_fin :: "TcpHeader \<Rightarrow> bool" where
  "is_fin h \<longleftrightarrow> th_flags h AND FIN \<noteq> 0 \<and> th_flags h AND NOT (FIN OR ACK OR PSH) = 0"

definition is_reset :: "TcpHeader \<Rightarrow> bool" where
  "is_reset h \<longleftrightarrow> th_flags h AND RST \<noteq> 0"

definition window_edge :: "TcpHeader \<Rightarrow> u32" where
  "window_edge h = th_acknowledgement h + th_window h"

section \<open>The header as a byte string\<close>

definition tcp_header_bytes :: "TcpHeader \<Rightarrow> bytes" where
  "tcp_header_bytes h =
     be16 (th_source_port h) @ be16 (th_destination_port h) @ be32 (th_sequence h) @
     be32 (th_acknowledgement h) @ [push_bit 4 DATA_OFFSET_WORDS, th_flags h] @
     be16 (window_to_wire (th_window h)) @ [0, 0, 0, 0]"

definition tcp_header_norm :: "TcpHeader \<Rightarrow> TcpHeader" where
  "tcp_header_norm h = h\<lparr>th_window := window_from_wire (window_to_wire (th_window h))\<rparr>"

section \<open>Lemmas\<close>

lemma length_tcp_header_bytes [simp]: "length (tcp_header_bytes h) = TCP_HEADER_LEN"
  by (simp add: tcp_header_bytes_def TCP_HEADER_LEN_def)

lemma TcpHeader_encode_put:
  assumes "TCP_HEADER_LEN \<le> length out"
  shows "TcpHeader_encode h out = Inr (put out 0 (tcp_header_bytes h), TCP_HEADER_LEN)"
  using assms
  by (simp add: TcpHeader_encode_def tcp_header_bytes_def put_put_adjacent TCP_HEADER_LEN_def Let_def)

lemma TcpHeader_decode_bytes: "TcpHeader_decode (tcp_header_bytes h @ rest) = Inr (tcp_header_norm h)"
  by (simp add: TcpHeader_decode_def tcp_header_bytes_def tcp_header_norm_def TCP_HEADER_LEN_def
      DATA_OFFSET_WORDS_def slice_simps nth_append)

lemma TcpHeader_short:
  "length bs < TCP_HEADER_LEN \<Longrightarrow> TcpHeader_encode h bs = Inl (TcpShort TCP_HEADER_LEN (length bs))"
  "length bs < TCP_HEADER_LEN \<Longrightarrow> TcpHeader_decode bs = Inl (TcpShort TCP_HEADER_LEN (length bs))"
  by (simp_all add: TcpHeader_encode_def TcpHeader_decode_def)

interpretation tcp: header_codec TCP_HEADER_LEN tcp_header_bytes tcp_header_norm
    TcpHeader_encode TcpHeader_decode
  by unfold_locales (simp_all add: TcpHeader_encode_put TcpHeader_decode_bytes TcpHeader_short)

lemma unat_window_to_wire: "unat (window_to_wire w) = min 0xFFFF (unat w div 256)"
proof (cases "drop_bit 8 w > 0xFFFF")
  case True
  then have "unat w div 256 > 0xFFFF"
    by (simp add: word_less_nat_alt unat_drop_bit_eq drop_bit_eq_div unat_div)
  with True show ?thesis by (simp add: window_to_wire_def WINDOW_SCALE_SHIFT_def)
next
  case False
  then have "unat w div 256 \<le> 0xFFFF"
    by (simp add: word_less_nat_alt unat_drop_bit_eq drop_bit_eq_div unat_div)
  with False show ?thesis
    by (simp add: window_to_wire_def WINDOW_SCALE_SHIFT_def unsigned_ucast_eq unat_drop_bit_eq
        drop_bit_eq_div take_bit_eq_mod unat_div)
qed

lemma unat_window_from_wire: "unat (window_from_wire v) = 256 * unat v"
proof -
  have "unat v < 2 ^ 16" using unsigned_less [of v] by simp
  then show ?thesis
    by (simp add: window_from_wire_def WINDOW_SCALE_SHIFT_def unsigned_push_bit_eq push_bit_eq_mult
        unsigned_ucast_eq take_bit_eq_mod unat_word_ariths)
qed

section \<open>Properties\<close>

text \<open>
  Claim C10. A segment header survives the wire in every field but the window, and the window
  that arrives is the largest multiple of 256 the wire can carry that does not exceed the window
  that was advertised: never more space than there is, and less than 256 bytes short of it unless
  the sixteen-bit field saturates.
\<close>

theorem TcpHeader_roundtrip:
  assumes "TCP_HEADER_LEN \<le> length out"
  shows "\<exists>out' w'. TcpHeader_encode h out = Inr (out', TCP_HEADER_LEN)
           \<and> drop TCP_HEADER_LEN out' = drop TCP_HEADER_LEN out
           \<and> TcpHeader_decode out' = Inr (h\<lparr>th_window := w'\<rparr>)
           \<and> w' \<le> th_window h \<and> 256 dvd unat w'
           \<and> unat w' = min 0xFFFF00 (unat (th_window h) - unat (th_window h) mod 256)"
proof -
  let ?w = "unat (th_window h)"
  let ?w' = "window_from_wire (window_to_wire (th_window h))"
  have eq: "unat ?w' = min 0xFFFF00 (?w - ?w mod 256)"
    by (simp add: unat_window_from_wire unat_window_to_wire minus_mod_eq_mult_div min_mult_distrib_left)
  then have "?w' \<le> th_window h"
    by (simp add: word_le_nat_alt)
  moreover have "256 dvd unat ?w'"
    by (simp add: unat_window_from_wire)
  ultimately show ?thesis
    using assms eq
    by (intro exI [of _ "tcp_header_bytes h @ drop TCP_HEADER_LEN out"] exI [of _ ?w'])
      (simp add: tcp.encode_buffer tcp.decode_hdr tcp_header_norm_def)
qed

theorem TcpHeader_roundtrip_witness:
  "\<exists>out' w'. TcpHeader_encode
       \<lparr>th_source_port = 1, th_destination_port = 2, th_sequence = 3, th_acknowledgement = 4,
        th_flags = ACK, th_window = 1000\<rparr> (replicate 20 0) = Inr (out', TCP_HEADER_LEN)
     \<and> TcpHeader_decode out' = Inr
       \<lparr>th_source_port = 1, th_destination_port = 2, th_sequence = 3, th_acknowledgement = 4,
        th_flags = ACK, th_window = w'\<rparr>
     \<and> unat w' = 768"
  using TcpHeader_roundtrip [of "replicate 20 0"
      "\<lparr>th_source_port = 1, th_destination_port = 2, th_sequence = 3, th_acknowledgement = 4,
        th_flags = ACK, th_window = 1000\<rparr>"]
  by (auto simp: TCP_HEADER_LEN_def)

end
