(* ===== verification/Session.thy ===== *)
theory Session
  imports Tcp_Header
begin

text \<open>
  One mux session, \<^verbatim>\<open>src/usbmux/session.rs\<close>: the sliding-window state machine that carries one
  byte stream each way over mux packets. The state is the record \<open>MuxSession\<close>, each method of
  the source one definition on it. The labelled step relation \<open>session_step\<close> interleaves the
  methods in any order a caller may use; \<open>session_run\<close> collects the labels, and the histories
  read off them (what was written, emitted, accepted, read) are the specification the
  properties at the end are stated against.
\<close>

section \<open>Data\<close>

datatype SessionState = SynSent | Established | Closed

datatype SessionEvent =
    EvEstablished
  | EvData nat
  | EvAcknowledged
  | EvReset
  | EvOutOfOrder u32 u32
  | EvClosedByFlags u8

datatype SessionError =
    SessClosed
  | BadHandshake u8
  | BadAcknowledgement u32 u32

record Segment =
  seg_header :: TcpHeader
  seg_payload :: bytes

record SessionConfig =
  cfg_local_port :: u16
  cfg_remote_port :: u16
  cfg_initial_sequence :: u32
  cfg_mss :: nat
  cfg_receive_window :: u32

record MuxSession =
  ms_config :: SessionConfig
  ms_state :: SessionState
  snd_nxt :: u32
  snd_una :: u32
  snd_wnd_edge :: u32
  send_epoch :: u64
  rcv_nxt :: u32
  outbound :: bytes
  unacknowledged :: bytes
  inbound :: bytes
  owe_ack :: bool
  peer_fin :: "u32 option"
  write_shutdown :: bool
  sent_fin :: "u32 option"
  peer_window :: u32
  max_peer_window :: u32
  segments_in :: u64

text \<open>
  \<^verbatim>\<open>Segment::to_bytes\<close>: the \<^verbatim>\<open>expect\<close> on the header encoding cannot fire, since the buffer is
  sized for it; the branch is kept as \<open>None\<close>.
\<close>

definition Segment_to_bytes :: "Segment \<Rightarrow> bytes option" where
  "Segment_to_bytes g =
     (case TcpHeader_encode (seg_header g) (replicate (TCP_HEADER_LEN + length (seg_payload g)) 0) of
        Inl e \<Rightarrow> None
      | Inr (out, written) \<Rightarrow> Some (put out written (seg_payload g)))"

section \<open>Operations\<close>

definition seq_gt :: "u32 \<Rightarrow> u32 \<Rightarrow> bool" where
  "seq_gt a b \<longleftrightarrow> sint (a - b) > 0"

definition MuxSession_open :: "SessionConfig \<Rightarrow> MuxSession \<times> Segment" where
  "MuxSession_open config =
     (\<lparr>ms_config = config, ms_state = SynSent,
       snd_nxt = cfg_initial_sequence config, snd_una = cfg_initial_sequence config,
       snd_wnd_edge = cfg_initial_sequence config, send_epoch = 0, rcv_nxt = 0,
       outbound = [], unacknowledged = [], inbound = [], owe_ack = False, peer_fin = None,
       write_shutdown = False, sent_fin = None, peer_window = 0, max_peer_window = 0,
       segments_in = 0\<rparr>,
      \<lparr>seg_header =
         \<lparr>th_source_port = cfg_local_port config, th_destination_port = cfg_remote_port config,
          th_sequence = cfg_initial_sequence config, th_acknowledgement = 0, th_flags = SYN,
          th_window = cfg_receive_window config\<rparr>,
       seg_payload = []\<rparr>)"

definition is_open :: "MuxSession \<Rightarrow> bool" where
  "is_open s \<longleftrightarrow> ms_state s \<noteq> Closed"

definition received_len :: "MuxSession \<Rightarrow> nat" where
  "received_len s = length (inbound s)"

definition pending_len :: "MuxSession \<Rightarrow> nat" where
  "pending_len s = length (outbound s)"

definition MuxSession_queue :: "MuxSession \<Rightarrow> bytes \<Rightarrow> MuxSession" where
  "MuxSession_queue s data = s\<lparr>outbound := outbound s @ data\<rparr>"

definition take_outbound :: "MuxSession \<Rightarrow> nat \<Rightarrow> MuxSession \<times> bytes" where
  "take_outbound s n = (s\<lparr>outbound := drop n (outbound s)\<rparr>, take n (outbound s))"

definition MuxSession_take_received :: "MuxSession \<Rightarrow> bytes \<Rightarrow> MuxSession \<times> bytes \<times> nat" where
  "MuxSession_take_received s out =
     (let taken = min (length out) (length (inbound s))
      in (s\<lparr>inbound := drop taken (inbound s)\<rparr>, put out 0 (take taken (inbound s)), taken))"

definition usable_window :: "MuxSession \<Rightarrow> nat" where
  "usable_window s =
     (let room = snd_wnd_edge s - snd_nxt s in if sint room \<le> 0 then 0 else unat room)"

definition in_flight :: "MuxSession \<Rightarrow> u32" where
  "in_flight s = snd_nxt s - snd_una s"

definition advertised_window :: "MuxSession \<Rightarrow> u32" where
  "advertised_window s =
     (let used = (if int (length (inbound s)) < 2 ^ 32 then word_of_nat (length (inbound s)) else - 1)
      in sat_sub (cfg_receive_window (ms_config s)) used)"

definition ack_header :: "MuxSession \<Rightarrow> u32 \<Rightarrow> TcpHeader" where
  "ack_header s sequence =
     \<lparr>th_source_port = cfg_local_port (ms_config s),
      th_destination_port = cfg_remote_port (ms_config s),
      th_sequence = sequence, th_acknowledgement = rcv_nxt s, th_flags = ACK,
      th_window = advertised_window s\<rparr>"

definition on_syn_ack :: "MuxSession \<Rightarrow> TcpHeader \<Rightarrow> MuxSession \<times> (SessionError + SessionEvent)" where
  "on_syn_ack s header =
     (if \<not> is_syn_ack header then (s, Inl (BadHandshake (th_flags header)))
      else
        let expected = cfg_initial_sequence (ms_config s) + 1 in
        if th_acknowledgement header \<noteq> expected
        then (s, Inl (BadAcknowledgement expected (th_acknowledgement header)))
        else
          (s\<lparr>snd_nxt := expected, snd_una := expected, snd_wnd_edge := window_edge header,
             peer_window := th_window header,
             max_peer_window := max (max_peer_window s) (th_window header),
             rcv_nxt := th_sequence header + 1, ms_state := Established, owe_ack := True\<rparr>,
           Inr EvEstablished))"

text \<open>
  \<^verbatim>\<open>on_established\<close> in the order of the source: the flags, the acknowledgement, the window, and
  only then the payload. The three parts that update the state are the three helpers.
\<close>

definition apply_ack :: "MuxSession \<Rightarrow> TcpHeader \<Rightarrow> SessionError + MuxSession" where
  "apply_ack s header =
     (if th_flags header AND ACK \<noteq> 0 \<and> seq_gt (th_acknowledgement header) (snd_una s) then
        if seq_gt (th_acknowledgement header) (snd_nxt s)
        then Inl (BadAcknowledgement (snd_nxt s) (th_acknowledgement header))
        else
          let acknowledged = unat (th_acknowledgement header - snd_una s)
          in Inr (s\<lparr>unacknowledged := drop (min acknowledged (length (unacknowledged s))) (unacknowledged s),
                    snd_una := th_acknowledgement header,
                    send_epoch := send_epoch s + 1\<rparr>)
      else Inr s)"

definition apply_window :: "MuxSession \<Rightarrow> TcpHeader \<Rightarrow> MuxSession" where
  "apply_window s header =
     (if th_flags header AND ACK \<noteq> 0 then
        s\<lparr>snd_wnd_edge := window_edge header, peer_window := th_window header,
          max_peer_window := max (max_peer_window s) (th_window header)\<rparr>
      else s)"

definition accept_payload :: "MuxSession \<Rightarrow> TcpHeader \<Rightarrow> bytes \<Rightarrow> MuxSession \<times> SessionEvent" where
  "accept_payload s header payload =
     (if payload = [] \<and> \<not> is_fin header then (s, EvAcknowledged)
      else if th_sequence header \<noteq> rcv_nxt s \<or> peer_fin s \<noteq> None then
        (s\<lparr>owe_ack := True\<rparr>, EvOutOfOrder (rcv_nxt s) (th_sequence header))
      else
        let s = s\<lparr>inbound := inbound s @ payload,
                  rcv_nxt := rcv_nxt s + word_of_nat (length payload)\<rparr>;
            s = (if is_fin header then s\<lparr>peer_fin := Some (rcv_nxt s), rcv_nxt := rcv_nxt s + 1\<rparr> else s)
        in (s\<lparr>owe_ack := True\<rparr>, EvData (length payload)))"

definition on_established ::
    "MuxSession \<Rightarrow> TcpHeader \<Rightarrow> bytes \<Rightarrow> MuxSession \<times> (SessionError + SessionEvent)" where
  "on_established s header payload =
     (if \<not> is_bare_ack header \<and> \<not> is_fin header
      then (s\<lparr>ms_state := Closed\<rparr>, Inr (EvClosedByFlags (th_flags header)))
      else case apply_ack s header of
             Inl e \<Rightarrow> (s, Inl e)
           | Inr s1 \<Rightarrow>
               (case accept_payload (apply_window s1 header) header payload of
                  (s2, event) \<Rightarrow> (s2, Inr event)))"

definition on_segment ::
    "MuxSession \<Rightarrow> TcpHeader \<Rightarrow> bytes \<Rightarrow> MuxSession \<times> (SessionError + SessionEvent)" where
  "on_segment s header payload =
     (let s = s\<lparr>segments_in := sat_add (segments_in s) 1\<rparr> in
      if is_reset header then (s\<lparr>ms_state := Closed\<rparr>, Inr EvReset)
      else case ms_state s of
             Closed \<Rightarrow> (s, Inl SessClosed)
           | SynSent \<Rightarrow> on_syn_ack s header
           | Established \<Rightarrow> on_established s header payload)"

definition may_send_now :: "MuxSession \<Rightarrow> nat \<Rightarrow> bool" where
  "may_send_now s n \<longleftrightarrow>
     n \<ge> cfg_mss (ms_config s)
     \<or> n \<ge> unat (max_peer_window s div 2)
     \<or> n \<ge> unat (peer_window s)
     \<or> n = length (outbound s)
     \<or> in_flight s = 0"

text \<open>
  \<^verbatim>\<open>next_segment\<close>: fresh data when the window and the silly-window rule allow it, else the FIN
  once everything is out, else an owed acknowledgement, else nothing.
\<close>

definition data_segment :: "MuxSession \<Rightarrow> nat \<Rightarrow> MuxSession \<times> Segment" where
  "data_segment s n =
     (let starts_flight = (unacknowledged s = []);
          (s1, payload) = take_outbound s n;
          s1 = s1\<lparr>unacknowledged := unacknowledged s1 @ payload\<rparr>;
          s1 = (if starts_flight then s1\<lparr>send_epoch := send_epoch s1 + 1\<rparr> else s1);
          header = ack_header s1 (snd_nxt s1)
      in (s1\<lparr>snd_nxt := snd_nxt s1 + word_of_nat n, owe_ack := False\<rparr>,
          \<lparr>seg_header = header, seg_payload = payload\<rparr>))"

definition fin_segment :: "MuxSession \<Rightarrow> MuxSession \<times> Segment" where
  "fin_segment s =
     (let header = ack_header s (snd_nxt s);
          header = header\<lparr>th_flags := th_flags header OR FIN\<rparr>
      in (s\<lparr>sent_fin := Some (snd_nxt s), snd_nxt := snd_nxt s + 1,
            send_epoch := send_epoch s + 1, owe_ack := False\<rparr>,
          \<lparr>seg_header = header, seg_payload = []\<rparr>))"

definition next_take :: "MuxSession \<Rightarrow> nat" where
  "next_take s = min (min (length (outbound s)) (cfg_mss (ms_config s))) (usable_window s)"

definition next_segment :: "MuxSession \<Rightarrow> MuxSession \<times> Segment option" where
  "next_segment s =
     (if ms_state s \<noteq> Established then (s, None)
      else
        let usable = usable_window s in
        if usable > 0 \<and> outbound s \<noteq> [] \<and> may_send_now s (next_take s) then
          (case data_segment s (next_take s) of (s', g) \<Rightarrow> (s', Some g))
        else if usable > 0 \<and> outbound s = [] \<and> write_shutdown s \<and> sent_fin s = None then
          (case fin_segment s of (s', g) \<Rightarrow> (s', Some g))
        else if owe_ack s then
          let s = s\<lparr>owe_ack := False\<rparr>
          in (s, Some \<lparr>seg_header = ack_header s (snd_nxt s), seg_payload = []\<rparr>)
        else (s, None))"

definition retransmit_unacknowledged :: "MuxSession \<Rightarrow> Segment option" where
  "retransmit_unacknowledged s =
     (if ms_state s \<noteq> Established then None
      else if unacknowledged s = [] then
        (case sent_fin s of
           None \<Rightarrow> None
         | Some sequence \<Rightarrow>
             if snd_una s \<noteq> sequence then None
             else let header = ack_header s sequence
                  in Some \<lparr>seg_header = header\<lparr>th_flags := th_flags header OR FIN\<rparr>, seg_payload = []\<rparr>)
      else
        let room = snd_wnd_edge s - snd_una s in
        if sint room \<le> 0 then None
        else
          let n = min (min (length (unacknowledged s)) (cfg_mss (ms_config s))) (unat room)
          in Some \<lparr>seg_header = ack_header s (snd_una s), seg_payload = take n (unacknowledged s)\<rparr>)"

definition request_ack :: "MuxSession \<Rightarrow> MuxSession" where
  "request_ack s = (if ms_state s = Established then s\<lparr>owe_ack := True\<rparr> else s)"

definition MuxSession_probe_window :: "MuxSession \<Rightarrow> MuxSession \<times> bool" where
  "MuxSession_probe_window s =
     (if ms_state s \<noteq> Established \<or> owe_ack s then (s, False)
      else if usable_window s > 0 \<and> outbound s \<noteq> [] then (s, False)
      else (s\<lparr>owe_ack := True\<rparr>, True))"

definition MuxSession_shutdown_write :: "MuxSession \<Rightarrow> SessionError + MuxSession" where
  "MuxSession_shutdown_write s =
     (if ms_state s \<noteq> Established then Inl SessClosed else Inr (s\<lparr>write_shutdown := True\<rparr>))"

definition can_write :: "MuxSession \<Rightarrow> bool" where
  "can_write s \<longleftrightarrow> ms_state s = Established \<and> \<not> write_shutdown s"

definition MuxSession_received_eof :: "MuxSession \<Rightarrow> bool" where
  "MuxSession_received_eof s \<longleftrightarrow> peer_fin s \<noteq> None \<and> inbound s = []"

definition orderly_closed :: "MuxSession \<Rightarrow> bool" where
  "orderly_closed s \<longleftrightarrow>
     ms_state s = Established \<and> MuxSession_received_eof s \<and> sent_fin s \<noteq> None \<and> snd_una s = snd_nxt s"

definition pending_sequences :: "MuxSession \<Rightarrow> nat" where
  "pending_sequences s =
     length (outbound s) + (if write_shutdown s \<and> sent_fin s = None then 1 else 0)"

definition MuxSession_close :: "MuxSession \<Rightarrow> MuxSession \<times> Segment" where
  "MuxSession_close s =
     (s\<lparr>ms_state := Closed\<rparr>,
      \<lparr>seg_header =
         \<lparr>th_source_port = cfg_local_port (ms_config s),
          th_destination_port = cfg_remote_port (ms_config s),
          th_sequence = snd_nxt s, th_acknowledgement = rcv_nxt s, th_flags = RST, th_window = 0\<rparr>,
       seg_payload = []\<rparr>)"

section \<open>Runs of a session\<close>

text \<open>
  A label says what one call did to the outside: bytes written by the application, a segment
  that came in with its result, a segment handed to the link, bytes read by the application, or
  nothing. Writes are guarded as the link guards them (\<open>can_write\<close>); the bound on what a session
  holds in memory is the condition under which thirty-two-bit sequence numbers can tell a new
  acknowledgement from an old one, and the code relies on it without checking it.
\<close>

datatype session_label =
    L_write bytes
  | L_input TcpHeader bytes "SessionError + SessionEvent"
  | L_emit Segment
  | L_read bytes
  | L_quiet

definition BUFFER_LIMIT :: nat where "BUFFER_LIMIT = 2 ^ 31 - 1"

definition buffered :: "MuxSession \<Rightarrow> nat" where
  "buffered s = length (unacknowledged s) + length (outbound s)"

inductive session_step :: "MuxSession \<Rightarrow> session_label \<Rightarrow> MuxSession \<Rightarrow> bool" where
  step_queue: "can_write s \<Longrightarrow> buffered s + length data < BUFFER_LIMIT \<Longrightarrow>
     session_step s (L_write data) (MuxSession_queue s data)"
| step_segment: "on_segment s header payload = (s', r) \<Longrightarrow>
     session_step s (L_input header payload r) s'"
| step_emit: "next_segment s = (s', Some g) \<Longrightarrow> session_step s (L_emit g) s'"
| step_idle: "next_segment s = (s', None) \<Longrightarrow> session_step s L_quiet s'"
| step_retransmit: "retransmit_unacknowledged s = Some g \<Longrightarrow> session_step s (L_emit g) s"
| step_take: "MuxSession_take_received s out = (s', out', n) \<Longrightarrow>
     session_step s (L_read (take n out')) s'"
| step_request_ack: "session_step s L_quiet (request_ack s)"
| step_probe: "MuxSession_probe_window s = (s', b) \<Longrightarrow> session_step s L_quiet s'"
| step_shutdown: "MuxSession_shutdown_write s = Inr s' \<Longrightarrow> session_step s L_quiet s'"
| step_close: "MuxSession_close s = (s', g) \<Longrightarrow> session_step s (L_emit g) s'"

inductive session_run :: "SessionConfig \<Rightarrow> session_label list \<Rightarrow> MuxSession \<Rightarrow> bool"
  for config where
  run_open: "MuxSession_open config = (s, syn) \<Longrightarrow> session_run config [L_emit syn] s"
| run_step: "session_run config ls s \<Longrightarrow> session_step s l s' \<Longrightarrow> session_run config (ls @ [l]) s'"

fun written1 :: "session_label \<Rightarrow> bytes" where
  "written1 (L_write data) = data"
| "written1 _ = []"

fun accepted1 :: "session_label \<Rightarrow> bytes" where
  "accepted1 (L_input header payload (Inr (EvData n))) = payload"
| "accepted1 _ = []"

fun read1 :: "session_label \<Rightarrow> bytes" where
  "read1 (L_read data) = data"
| "read1 _ = []"

definition written :: "session_label list \<Rightarrow> bytes" where
  "written ls = concat (map written1 ls)"

definition accepted :: "session_label list \<Rightarrow> bytes" where
  "accepted ls = concat (map accepted1 ls)"

definition read_out :: "session_label list \<Rightarrow> bytes" where
  "read_out ls = concat (map read1 ls)"

section \<open>Invariants\<close>

text \<open>
  The send half against the written stream \<open>w\<close>: \<open>a\<close> bytes are acknowledged and gone, the rest is
  exactly the retransmission queue followed by the bytes not yet sent, and both sequence numbers
  are the positions of those boundaries. A FIN stands behind the last byte and is the only thing
  that may separate \<open>snd_nxt\<close> from the end of the stream.
\<close>

definition first_sequence :: "MuxSession \<Rightarrow> u32" where
  "first_sequence s = cfg_initial_sequence (ms_config s) + 1"

definition fin_len :: "MuxSession \<Rightarrow> nat" where
  "fin_len s = (if sent_fin s = None then 0 else 1)"

definition send_at :: "bytes \<Rightarrow> nat \<Rightarrow> MuxSession \<Rightarrow> bool" where
  "send_at w a s \<longleftrightarrow>
     a \<le> length w \<and> unacknowledged s @ outbound s = drop a w \<and>
     buffered s < BUFFER_LIMIT \<and>
     snd_nxt s = first_sequence s + word_of_nat (a + length (unacknowledged s) + fin_len s) \<and>
     (snd_una s = first_sequence s + word_of_nat a \<or>
      sent_fin s \<noteq> None \<and> unacknowledged s = [] \<and> snd_una s = snd_nxt s) \<and>
     (\<forall>f. sent_fin s = Some f \<longrightarrow>
        outbound s = [] \<and> write_shutdown s \<and> f = first_sequence s + word_of_nat (length w))"

definition fresh :: "MuxSession \<Rightarrow> bool" where
  "fresh s \<longleftrightarrow> outbound s = [] \<and> unacknowledged s = [] \<and> inbound s = [] \<and> sent_fin s = None
     \<and> \<not> write_shutdown s \<and> peer_fin s = None"

definition send_inv :: "bytes \<Rightarrow> MuxSession \<Rightarrow> bool" where
  "send_inv w s \<longleftrightarrow>
     (case ms_state s of
        SynSent \<Rightarrow> fresh s \<and> w = []
      | Established \<Rightarrow> (\<exists>a. send_at w a s)
      | Closed \<Rightarrow> True)"

text \<open>The fields the send half reads; operations that leave them alone leave the invariant alone.\<close>

definition send_fields where
  "send_fields s = (ms_config s, ms_state s, outbound s, unacknowledged s, snd_nxt s, snd_una s,
     sent_fin s, write_shutdown s)"

text \<open>What a segment on the wire may carry: nothing, or a piece of the written stream at the place
  its sequence number names.\<close>

definition carries :: "u32 \<Rightarrow> bytes \<Rightarrow> Segment \<Rightarrow> bool" where
  "carries base w g \<longleftrightarrow>
     seg_payload g = [] \<or>
     (\<exists>k. th_sequence (seg_header g) = base + word_of_nat k
        \<and> k + length (seg_payload g) \<le> length w
        \<and> seg_payload g = take (length (seg_payload g)) (drop k w))"

text \<open>The two conditions under which \<^verbatim>\<open>next_segment\<close> spends sequence space.\<close>

definition may_data :: "MuxSession \<Rightarrow> bool" where
  "may_data s \<longleftrightarrow> usable_window s > 0 \<and> outbound s \<noteq> [] \<and> may_send_now s (next_take s)"

definition may_fin :: "MuxSession \<Rightarrow> bool" where
  "may_fin s \<longleftrightarrow> usable_window s > 0 \<and> outbound s = [] \<and> write_shutdown s \<and> sent_fin s = None"

text \<open>
  The receive half against the labels: the device's initial sequence number is the one of the
  SYN-ACK that established the session, the bytes accepted since then account for \<open>rcv_nxt\<close>, and a
  FIN is accepted at most once, behind the last byte.
\<close>

fun isn1 :: "session_label \<Rightarrow> u32 list" where
  "isn1 (L_input header payload (Inr EvEstablished)) = [th_sequence header]"
| "isn1 _ = []"

definition device_isns :: "session_label list \<Rightarrow> u32 list" where
  "device_isns ls = concat (map isn1 ls)"

fun accepts_fin :: "session_label \<Rightarrow> bool" where
  "accepts_fin (L_input header payload (Inr (EvData n))) = is_fin header"
| "accepts_fin _ = False"

definition peer_finished :: "session_label list \<Rightarrow> bool" where
  "peer_finished ls \<longleftrightarrow> list_ex accepts_fin ls"

definition fin_bit :: "bool \<Rightarrow> u32" where
  "fin_bit b = (if b then 1 else 0)"

definition recv_fields where
  "recv_fields s = (inbound s, rcv_nxt s, peer_fin s)"

definition recv_effect :: "MuxSession \<Rightarrow> TcpHeader \<Rightarrow> bytes \<Rightarrow> MuxSession \<Rightarrow> SessionEvent \<Rightarrow> bool" where
  "recv_effect s header payload s' event \<longleftrightarrow>
     (case event of
        EvData n \<Rightarrow>
          th_sequence header = rcv_nxt s \<and> peer_fin s = None \<and> n = length payload
          \<and> inbound s' = inbound s @ payload
          \<and> rcv_nxt s' = rcv_nxt s + word_of_nat (length payload) + fin_bit (is_fin header)
          \<and> (peer_fin s' \<noteq> None \<longleftrightarrow> is_fin header)
      | _ \<Rightarrow> recv_fields s' = recv_fields s)"

definition recv_inv :: "session_label list \<Rightarrow> MuxSession \<Rightarrow> bool" where
  "recv_inv ls s \<longleftrightarrow>
     accepted ls = read_out ls @ inbound s \<and>
     (case ms_state s of
        SynSent \<Rightarrow> device_isns ls = [] \<and> accepted ls = [] \<and> \<not> peer_finished ls \<and> peer_fin s = None
      | Established \<Rightarrow>
          (\<exists>irs. device_isns ls = [irs] \<and>
             rcv_nxt s = irs + 1 + word_of_nat (length (accepted ls)) + fin_bit (peer_finished ls) \<and>
             (peer_fin s \<noteq> None \<longleftrightarrow> peer_finished ls))
      | Closed \<Rightarrow> True)"

text \<open>Labels that tell the receive half nothing.\<close>

definition recv_quiet :: "session_label \<Rightarrow> bool" where
  "recv_quiet l \<longleftrightarrow> accepted1 l = [] \<and> read1 l = [] \<and> isn1 l = [] \<and> \<not> accepts_fin l"

section \<open>Lemmas: sequence arithmetic\<close>

lemma sint_of_small: "- (2 ^ 31) \<le> i \<Longrightarrow> i < 2 ^ 31 \<Longrightarrow> sint (word_of_int i :: u32) = i"
  by (simp add: int_word_sint)

lemma sint_positive:
  assumes "sint (d :: u32) > 0"
  obtains n where "d = word_of_nat n" "unat d = n" "sint d = int n" "0 < n" "n < 2 ^ 31"
proof -
  obtain n where un: "unat d = n" by simp
  have d: "d = word_of_nat n" and n: "n < 2 ^ 32"
    using unsigned_less [of d] by (simp_all add: un [symmetric])
  have s: "sint d = (int n + 2 ^ 31) mod 2 ^ 32 - 2 ^ 31"
    using int_word_sint [of "int n", where 'a = 32] unfolding d by simp
  have "n < 2 ^ 31"
  proof (rule ccontr)
    assume "\<not> n < 2 ^ 31"
    with n have "(int n + 2 ^ 31) mod 2 ^ 32 = int n + 2 ^ 31 - 2 ^ 32"
      by (subst mod_pos_geq) simp_all
    with s n assms show False by simp
  qed
  then have "sint d = int n" using s by simp
  with assms \<open>n < 2 ^ 31\<close> show thesis
    by (intro that [OF d un]) simp_all
qed

lemma seq_ack_bound:
  assumes "k < 2 ^ 31" "nxt = una + word_of_nat k" "seq_gt ack una" "\<not> seq_gt ack nxt"
  shows "0 < unat (ack - una) \<and> unat (ack - una) \<le> k"
proof -
  from assms(3) obtain n where n: "ack - una = word_of_nat n" "unat (ack - una) = n" "0 < n" "n < 2 ^ 31"
    using sint_positive [of "ack - una"] by (auto simp: seq_gt_def)
  have "ack - nxt = word_of_int (int n - int k)"
    using assms(2) n(1) by (simp add: algebra_simps)
  moreover have "sint (word_of_int (int n - int k) :: u32) = int n - int k"
    using n assms(1) by (intro sint_of_small) simp_all
  ultimately show ?thesis
    using n assms(4) by (simp add: seq_gt_def)
qed

end
