(* ===== verification/Roundtrip.thy ===== *)
theory Roundtrip imports Prelude begin

text \<open>
  The round-trip meter of the mux link (\<^verbatim>\<open>usbmux/roundtrip.rs\<close>): counters per port, the ring of segments
  that wait for their acknowledgement, and the summary lines, which share a budget. Instants and durations
  are counts of nanoseconds. A line is the figures it is formatted from; the budget, which all meters of
  the process share, is part of the state.
\<close>

section \<open>Data\<close>

definition WAITS_PER_SUMMARY :: u32 where "WAITS_PER_SUMMARY = 128"
definition SUMMARY_MIN_INTERVAL :: int where "SUMMARY_MIN_INTERVAL = 30 * 1000000000"
definition PROCESS_LINE_BUDGET :: u32 where "PROCESS_LINE_BUDGET = 1024"
definition UNACKED_RING :: nat where "UNACKED_RING = 64"

datatype LineGrant = Granted | Last | Exhausted

definition budget_take :: "u32 \<Rightarrow> u32 \<times> LineGrant" where
  "budget_take left = (if left = 0 then (0, Exhausted) else (left - 1, if left = 1 then Last else Granted))"

datatype SummaryReason = Periodic | OnClose

record Tally =
  ta_count :: u64
  ta_total_us :: u64
  ta_max_us :: u64

definition Tally_default :: Tally where
  "Tally_default = \<lparr>ta_count = 0, ta_total_us = 0, ta_max_us = 0\<rparr>"

definition Tally_record :: "Tally \<Rightarrow> u64 \<Rightarrow> Tally" where
  "Tally_record t micros =
     \<lparr>ta_count = ta_count t + 1, ta_total_us = sat_add (ta_total_us t) micros,
      ta_max_us = (if micros > ta_max_us t then micros else ta_max_us t)\<rparr>"

definition mean_us :: "Tally \<Rightarrow> u64" where
  "mean_us t = (if ta_count t = 0 then 0 else ta_total_us t div ta_count t)"

record SentSegment =
  ss_seq_end :: u32
  ss_bytes :: u32
  ss_sent_at :: nat

record PortStats =
  ps_local_port :: u16
  ps_bytes_queued :: u64
  ps_segments_sent :: u64
  ps_bytes_sent :: u64
  ps_bytes_acked :: u64
  ps_send :: Tally
  ps_blocked :: Tally
  ps_waited_window_open :: Tally
  ps_lock_wait :: Tally
  ps_inbound_wait_shut :: Tally
  ps_inbound_wait_open :: Tally
  ps_ack :: Tally
  ps_peer_window :: u32
  ps_usable_at_block :: u32
  ps_in_flight_at_block :: u32
  ps_in_flight_total_at_block :: u64
  ps_unacked_now :: u32
  ps_unacked_dropped :: u64
  ps_span :: nat

definition PortStats_default :: "u16 \<Rightarrow> PortStats" where
  "PortStats_default local_port =
     \<lparr>ps_local_port = local_port, ps_bytes_queued = 0, ps_segments_sent = 0, ps_bytes_sent = 0, ps_bytes_acked = 0,
      ps_send = Tally_default, ps_blocked = Tally_default, ps_waited_window_open = Tally_default,
      ps_lock_wait = Tally_default, ps_inbound_wait_shut = Tally_default, ps_inbound_wait_open = Tally_default,
      ps_ack = Tally_default, ps_peer_window = 0, ps_usable_at_block = 0, ps_in_flight_at_block = 0,
      ps_in_flight_total_at_block = 0, ps_unacked_now = 0, ps_unacked_dropped = 0, ps_span = 0\<rparr>"

definition in_flight_mean_at_block :: "PortStats \<Rightarrow> u64" where
  "in_flight_mean_at_block s =
     (if ta_count (ps_blocked s) = 0 then 0 else ps_in_flight_total_at_block s div ta_count (ps_blocked s))"

definition micros :: "nat \<Rightarrow> u64" where
  "micros duration = (if int duration div 1000 \<ge> 2 ^ 64 then - 1 else word_of_int (int duration div 1000))"

definition bytes_per_second :: "PortStats \<Rightarrow> u64" where
  "bytes_per_second s =
     (let us = int (ps_span s) div 1000
      in if us = 0 then 0
         else let rate = uint (ps_bytes_sent s) * 1000000 div us in if rate \<ge> 2 ^ 64 then - 1 else word_of_int rate)"

record PortMeter =
  pm_stats :: PortStats
  pm_unacked :: "SentSegment list"
  pm_first_send :: "nat option"
  pm_last_activity :: "nat option"
  pm_waits_since_summary :: u32
  pm_last_summary :: "nat option"

definition PortMeter_new :: "u16 \<Rightarrow> PortMeter" where
  "PortMeter_new local_port =
     \<lparr>pm_stats = PortStats_default local_port, pm_unacked = [], pm_first_send = None, pm_last_activity = None,
      pm_waits_since_summary = 0, pm_last_summary = None\<rparr>"

definition touch :: "nat \<Rightarrow> PortMeter \<Rightarrow> PortMeter" where
  "touch at p =
     (let first = (case pm_first_send p of None \<Rightarrow> at | Some first \<Rightarrow> first)
      in p\<lparr>pm_first_send := Some first, pm_last_activity := Some at,
           pm_stats := (pm_stats p)\<lparr>ps_span := at - first\<rparr>\<rparr>)"

type_synonym summary_line = "LineGrant \<times> SummaryReason \<times> PortStats"

record RoundtripMeter =
  rm_ports :: "u16 \<rightharpoonup> PortMeter"
  rm_budget :: u32
  rm_lines :: "summary_line list"

section \<open>Operations\<close>

definition with_sink :: "u32 \<Rightarrow> RoundtripMeter" where
  "with_sink budget = \<lparr>rm_ports = Map.empty, rm_budget = budget, rm_lines = []\<rparr>"

definition meter_port :: "RoundtripMeter \<Rightarrow> u16 \<Rightarrow> PortMeter" where
  "meter_port m local_port = (case rm_ports m local_port of None \<Rightarrow> PortMeter_new local_port | Some p \<Rightarrow> p)"

definition set_port :: "RoundtripMeter \<Rightarrow> u16 \<Rightarrow> PortMeter \<Rightarrow> RoundtripMeter" where
  "set_port m local_port p = m\<lparr>rm_ports := (rm_ports m)(local_port \<mapsto> p)\<rparr>"

definition meter_stats :: "RoundtripMeter \<Rightarrow> u16 \<Rightarrow> PortStats option" where
  "meter_stats m local_port = map_option pm_stats (rm_ports m local_port)"

definition on_queue :: "u16 \<Rightarrow> nat \<Rightarrow> RoundtripMeter \<Rightarrow> RoundtripMeter" where
  "on_queue local_port n m =
     (let p = meter_port m local_port; s = pm_stats p
      in set_port m local_port (p\<lparr>pm_stats := s\<lparr>ps_bytes_queued := ps_bytes_queued s + word_of_nat n\<rparr>\<rparr>))"

definition ring_push :: "SentSegment \<Rightarrow> PortMeter \<Rightarrow> PortMeter" where
  "ring_push seg p =
     (let p = (if length (pm_unacked p) = UNACKED_RING
               then p\<lparr>pm_unacked := tl (pm_unacked p),
                      pm_stats := (pm_stats p)\<lparr>ps_unacked_dropped := ps_unacked_dropped (pm_stats p) + 1\<rparr>\<rparr>
               else p)
      in p\<lparr>pm_unacked := pm_unacked p @ [seg]\<rparr>)"

definition on_segment_sent :: "u16 \<Rightarrow> u32 \<Rightarrow> nat \<Rightarrow> nat \<Rightarrow> nat \<Rightarrow> RoundtripMeter \<Rightarrow> RoundtripMeter" where
  "on_segment_sent local_port sequence n send at m =
     (if n = 0 then m
      else
        let p = meter_port m local_port; s = pm_stats p;
            p = p\<lparr>pm_stats := s\<lparr>ps_segments_sent := ps_segments_sent s + 1,
                   ps_bytes_sent := ps_bytes_sent s + word_of_nat n,
                   ps_send := Tally_record (ps_send s) (micros send)\<rparr>\<rparr>;
            p = ring_push \<lparr>ss_seq_end = sequence + word_of_nat n, ss_bytes = word_of_nat n, ss_sent_at = at\<rparr> p;
            p = p\<lparr>pm_stats := (pm_stats p)\<lparr>ps_unacked_now := word_of_nat (length (pm_unacked p))\<rparr>\<rparr>
        in set_port m local_port (touch at p))"

definition seq_reached :: "u32 \<Rightarrow> u32 \<Rightarrow> bool" where
  "seq_reached acknowledgement seq_end \<longleftrightarrow> sint (acknowledgement - seq_end) \<ge> 0"

fun ack_ring :: "u32 \<Rightarrow> nat \<Rightarrow> SentSegment list \<Rightarrow> PortStats \<Rightarrow> SentSegment list \<times> PortStats" where
  "ack_ring after at [] s = ([], s)"
| "ack_ring after at (front # ring) s =
     (if \<not> seq_reached after (ss_seq_end front) then (front # ring, s)
      else ack_ring after at ring
        (s\<lparr>ps_bytes_acked := ps_bytes_acked s + ucast (ss_bytes front),
           ps_ack := Tally_record (ps_ack s) (micros (at - ss_sent_at front))\<rparr>))"

definition on_ack :: "u16 \<Rightarrow> u32 \<Rightarrow> u32 \<Rightarrow> u32 \<Rightarrow> nat \<Rightarrow> RoundtripMeter \<Rightarrow> RoundtripMeter" where
  "on_ack local_port before after peer_window at m =
     (let p = meter_port m local_port; s = (pm_stats p)\<lparr>ps_peer_window := peer_window\<rparr>
      in if before = after then set_port m local_port (p\<lparr>pm_stats := s\<rparr>)
         else
           let (ring, s) = ack_ring after at (pm_unacked p) s;
               s = s\<lparr>ps_unacked_now := word_of_nat (length ring)\<rparr>
           in set_port m local_port (touch at (p\<lparr>pm_unacked := ring, pm_stats := s\<rparr>)))"

definition emit_line :: "u16 \<Rightarrow> SummaryReason \<Rightarrow> RoundtripMeter \<Rightarrow> RoundtripMeter" where
  "emit_line local_port reason m =
     (case rm_ports m local_port of
        None \<Rightarrow> m
      | Some p \<Rightarrow>
          let (left, grant) = budget_take (rm_budget m); m = m\<lparr>rm_budget := left\<rparr>
          in (case grant of Exhausted \<Rightarrow> m | _ \<Rightarrow> m\<lparr>rm_lines := rm_lines m @ [(grant, reason, pm_stats p)]\<rparr>))"

definition tick_summary :: "u16 \<Rightarrow> nat \<Rightarrow> RoundtripMeter \<Rightarrow> RoundtripMeter" where
  "tick_summary local_port at m =
     (let p = meter_port m local_port; waits = pm_waits_since_summary p;
          waits = min (if waits = - 1 then - 1 else waits + 1) WAITS_PER_SUMMARY;
          p = p\<lparr>pm_waits_since_summary := waits\<rparr>;
          rested = (case pm_last_summary p of None \<Rightarrow> True | Some earlier \<Rightarrow> int (at - earlier) \<ge> SUMMARY_MIN_INTERVAL);
          m = set_port m local_port p
      in if waits \<ge> WAITS_PER_SUMMARY \<and> rested
         then emit_line local_port Periodic
           (set_port m local_port (p\<lparr>pm_waits_since_summary := 0, pm_last_summary := Some at\<rparr>))
         else m)"

definition u32_of_usize :: "nat \<Rightarrow> u32" where
  "u32_of_usize n = (if int n \<ge> 2 ^ 32 then - 1 else word_of_nat n)"

definition on_write_wait :: "u16 \<Rightarrow> nat \<Rightarrow> nat \<Rightarrow> u32 \<Rightarrow> u32 \<Rightarrow> nat \<Rightarrow> RoundtripMeter \<Rightarrow> RoundtripMeter" where
  "on_write_wait local_port waited usable_window flight peer_window at m =
     (let usable = u32_of_usize usable_window; p = meter_port m local_port; s = (pm_stats p)\<lparr>ps_peer_window := peer_window\<rparr>;
          s = (if usable = 0
               then s\<lparr>ps_blocked := Tally_record (ps_blocked s) (micros waited), ps_usable_at_block := usable,
                      ps_in_flight_at_block := flight,
                      ps_in_flight_total_at_block := ps_in_flight_total_at_block s + ucast flight\<rparr>
               else s\<lparr>ps_waited_window_open := Tally_record (ps_waited_window_open s) (micros waited)\<rparr>);
          m = set_port m local_port (touch at (p\<lparr>pm_stats := s\<rparr>))
      in if usable = 0 then tick_summary local_port at m else m)"

definition on_lock_wait :: "u16 \<Rightarrow> nat \<Rightarrow> RoundtripMeter \<Rightarrow> RoundtripMeter" where
  "on_lock_wait local_port waited m =
     (if waited = 0 then m
      else
        let p = meter_port m local_port; s = pm_stats p
        in set_port m local_port (p\<lparr>pm_stats := s\<lparr>ps_lock_wait := Tally_record (ps_lock_wait s) (micros waited)\<rparr>\<rparr>))"

definition on_inbound_wait :: "u16 \<Rightarrow> nat \<Rightarrow> nat \<Rightarrow> u32 \<Rightarrow> u32 \<Rightarrow> nat \<Rightarrow> RoundtripMeter \<Rightarrow> RoundtripMeter" where
  "on_inbound_wait local_port waited usable_window flight peer_window at m =
     (if waited = 0 then m
      else
        let usable = u32_of_usize usable_window; p = meter_port m local_port; s = pm_stats p;
            s = (if peer_window > 0 then s\<lparr>ps_peer_window := peer_window\<rparr> else s);
            s = (if usable = 0
                 then s\<lparr>ps_inbound_wait_shut := Tally_record (ps_inbound_wait_shut s) (micros waited),
                        ps_usable_at_block := usable, ps_in_flight_at_block := flight\<rparr>
                 else s\<lparr>ps_inbound_wait_open := Tally_record (ps_inbound_wait_open s) (micros waited)\<rparr>);
            m = set_port m local_port (touch at (p\<lparr>pm_stats := s\<rparr>))
        in if usable = 0 then tick_summary local_port at m else m)"

definition on_close :: "u16 \<Rightarrow> RoundtripMeter \<Rightarrow> RoundtripMeter" where
  "on_close local_port m =
     (if rm_ports m local_port = None then m
      else let m = emit_line local_port OnClose m in m\<lparr>rm_ports := (rm_ports m)(local_port := None)\<rparr>)"

section \<open>The invariant\<close>

text \<open>
  What holds of a port between two calls: the ring is no longer than its bound, its length is the figure
  reported, and every segment sent has been acknowledged, waits in the ring or was dropped from it.
\<close>

definition port_ok :: "u16 \<Rightarrow> PortMeter \<Rightarrow> bool" where
  "port_ok local_port p \<longleftrightarrow> ps_local_port (pm_stats p) = local_port \<and> length (pm_unacked p) \<le> UNACKED_RING
     \<and> ps_unacked_now (pm_stats p) = word_of_nat (length (pm_unacked p))
     \<and> ps_segments_sent (pm_stats p)
       = ta_count (ps_ack (pm_stats p)) + word_of_nat (length (pm_unacked p)) + ps_unacked_dropped (pm_stats p)
     \<and> ta_count (ps_send (pm_stats p)) = ps_segments_sent (pm_stats p)
     \<and> pm_waits_since_summary p \<le> WAITS_PER_SUMMARY"

definition line_ok :: "summary_line \<Rightarrow> bool" where
  "line_ok line = (case line of (grant, reason, s) \<Rightarrow> ta_count (ps_send s) = ps_segments_sent s)"

text \<open>Of a budget of \<open>b\<close> lines, the ones written are the ones missing, and only the last is marked.\<close>

definition budget_ok :: "u32 \<Rightarrow> RoundtripMeter \<Rightarrow> bool" where
  "budget_ok b m \<longleftrightarrow> length (rm_lines m) + unat (rm_budget m) = unat b
     \<and> map fst (rm_lines m) = map (\<lambda>i. if Suc i = unat b then Last else Granted) [0..<length (rm_lines m)]"

definition meter_ok :: "u32 \<Rightarrow> RoundtripMeter \<Rightarrow> bool" where
  "meter_ok b m \<longleftrightarrow> (\<forall>local_port p. rm_ports m local_port = Some p \<longrightarrow> port_ok local_port p) \<and> budget_ok b m
     \<and> list_all line_ok (rm_lines m)"

lemma port_ok_new: "port_ok local_port (PortMeter_new local_port)"
  by (simp add: port_ok_def PortMeter_new_def PortStats_default_def Tally_default_def UNACKED_RING_def WAITS_PER_SUMMARY_def)

lemma port_ok_meter: "meter_ok b m \<Longrightarrow> port_ok local_port (meter_port m local_port)"
  by (simp add: meter_ok_def meter_port_def port_ok_new split: option.split)

lemma meter_ok_set: "meter_ok b m \<Longrightarrow> port_ok local_port p \<Longrightarrow> meter_ok b (set_port m local_port p)"
  by (simp add: meter_ok_def set_port_def budget_ok_def)

lemma port_ok_touch: "port_ok local_port (touch at p) \<longleftrightarrow> port_ok local_port p"
  by (simp add: port_ok_def touch_def Let_def)

lemma port_ok_stats:
  "port_ok local_port p \<Longrightarrow> ps_local_port s = ps_local_port (pm_stats p) \<Longrightarrow> ps_unacked_now s = ps_unacked_now (pm_stats p)
    \<Longrightarrow> ps_segments_sent s = ps_segments_sent (pm_stats p) \<Longrightarrow> ps_ack s = ps_ack (pm_stats p)
    \<Longrightarrow> ps_unacked_dropped s = ps_unacked_dropped (pm_stats p) \<Longrightarrow> ps_send s = ps_send (pm_stats p)
    \<Longrightarrow> port_ok local_port (p\<lparr>pm_stats := s\<rparr>)"
  by (simp add: port_ok_def)

lemma ack_ring_ok:
  assumes "ack_ring after at ring s = (ring', s')"
  shows "length ring' \<le> length ring
    \<and> ta_count (ps_ack s') + word_of_nat (length ring') = ta_count (ps_ack s) + word_of_nat (length ring)
    \<and> ps_segments_sent s' = ps_segments_sent s \<and> ps_unacked_dropped s' = ps_unacked_dropped s
    \<and> ps_send s' = ps_send s \<and> ps_local_port s' = ps_local_port s"
  using assms
proof (induction ring arbitrary: s)
  case (Cons front ring)
  show ?case
  proof (cases "seq_reached after (ss_seq_end front)")
    case True
    with Cons.prems Cons.IH show ?thesis by (fastforce simp: Tally_record_def)
  qed (use Cons.prems in auto)
qed simp

lemma on_queue_ok: "meter_ok b m \<Longrightarrow> meter_ok b (on_queue local_port n m)"
  unfolding on_queue_def Let_def by (intro meter_ok_set port_ok_stats port_ok_meter) simp_all

lemma on_lock_wait_ok: "meter_ok b m \<Longrightarrow> meter_ok b (on_lock_wait local_port w m)"
  unfolding on_lock_wait_def Let_def by (auto intro!: meter_ok_set port_ok_stats port_ok_meter)

lemma on_segment_sent_ok:
  assumes "meter_ok b m"
  shows "meter_ok b (on_segment_sent local_port sequence n send at m)"
proof (cases "n = 0")
  case False
  have "port_ok local_port (meter_port m local_port)" using assms by (rule port_ok_meter)
  then show ?thesis
    using assms False unfolding on_segment_sent_def ring_push_def Let_def
    by (auto intro!: meter_ok_set simp: port_ok_touch) (auto simp: port_ok_def Tally_record_def UNACKED_RING_def)
qed (simp add: on_segment_sent_def assms)

lemma on_ack_ok:
  assumes "meter_ok b m"
  shows "meter_ok b (on_ack local_port before after w at m)"
proof -
  let ?p = "meter_port m local_port" and ?s = "(pm_stats (meter_port m local_port))\<lparr>ps_peer_window := w\<rparr>"
  obtain ring s where r: "ack_ring after at (pm_unacked ?p) ?s = (ring, s)" by fastforce
  have p: "port_ok local_port ?p" using assms by (rule port_ok_meter)
  then have "port_ok local_port (?p\<lparr>pm_stats := ?s\<rparr>)" by (rule port_ok_stats) simp_all
  moreover have "port_ok local_port (?p\<lparr>pm_unacked := ring, pm_stats := s\<lparr>ps_unacked_now := word_of_nat (length ring)\<rparr>\<rparr>)"
    using p ack_ring_ok [OF r] by (simp add: port_ok_def)
  ultimately show ?thesis
    using assms unfolding on_ack_def Let_def r by (simp add: meter_ok_set port_ok_touch)
qed

lemma budget_take_ok:
  assumes "budget_ok b m" "budget_take (rm_budget m) = (left, grant)" "grant \<noteq> Exhausted"
  shows "budget_ok b (m\<lparr>rm_budget := left, rm_lines := rm_lines m @ [(grant, x)]\<rparr>)"
proof -
  have nz: "rm_budget m \<noteq> 0" and left: "left = rm_budget m - 1"
    and g: "grant = (if rm_budget m = 1 then Last else Granted)"
    using assms(2,3) by (auto simp: budget_take_def split: if_splits)
  have "unat (rm_budget m) = Suc (unat left)" using nz unfolding left by (simp add: unat_minus_one unat_gt_0)
  moreover have "rm_budget m = 1 \<longleftrightarrow> unat left = 0" using left by (auto simp: unsigned_eq_0_iff)
  ultimately show ?thesis using assms(1) g by (auto simp: budget_ok_def)
qed

lemma emit_line_ok:
  assumes "meter_ok b m"
  shows "meter_ok b (emit_line local_port reason m)"
proof (cases "rm_ports m local_port")
  case (Some p)
  obtain left grant where t: "budget_take (rm_budget m) = (left, grant)" by fastforce
  have "port_ok local_port p" using assms Some by (simp add: meter_ok_def)
  then have l: "line_ok (g, reason, pm_stats p)" for g by (simp add: line_ok_def port_ok_def)
  show ?thesis
  proof (cases "grant = Exhausted")
    case True
    then have "left = rm_budget m" using t by (auto simp: budget_take_def split: if_splits)
    then show ?thesis using assms Some t True by (simp add: emit_line_def)
  next
    case False
    with budget_take_ok [OF _ t, of b] assms have
      "budget_ok b (m\<lparr>rm_budget := left, rm_lines := rm_lines m @ [(grant, reason, pm_stats p)]\<rparr>)"
      by (simp add: meter_ok_def)
    then show ?thesis using assms Some t False l by (cases grant) (simp_all add: emit_line_def meter_ok_def)
  qed
qed (simp add: emit_line_def assms)

lemma tick_summary_ok:
  assumes "meter_ok b m"
  shows "meter_ok b (tick_summary local_port at m)"
proof -
  have p: "port_ok local_port (meter_port m local_port)" using assms by (rule port_ok_meter)
  then have "w \<le> WAITS_PER_SUMMARY \<Longrightarrow> port_ok local_port ((meter_port m local_port)\<lparr>pm_waits_since_summary := w\<rparr>)"
      "port_ok local_port ((meter_port m local_port)\<lparr>pm_waits_since_summary := 0, pm_last_summary := l\<rparr>)" for w l
    by (simp_all add: port_ok_def)
  then show ?thesis
    using assms unfolding tick_summary_def Let_def by (auto intro!: emit_line_ok meter_ok_set)
qed

lemma on_write_wait_ok:
  "meter_ok b m \<Longrightarrow> meter_ok b (on_write_wait local_port waited usable flight w at m)"
  unfolding on_write_wait_def Let_def
  by (auto intro!: tick_summary_ok meter_ok_set port_ok_stats port_ok_meter simp: port_ok_touch)

lemma on_inbound_wait_ok:
  "meter_ok b m \<Longrightarrow> meter_ok b (on_inbound_wait local_port waited usable flight w at m)"
  unfolding on_inbound_wait_def Let_def
  by (auto intro!: tick_summary_ok meter_ok_set port_ok_stats port_ok_meter simp: port_ok_touch)

lemma on_close_ok:
  assumes "meter_ok b m"
  shows "meter_ok b (on_close local_port m)"
  using assms emit_line_ok [OF assms, of local_port OnClose]
  by (simp add: on_close_def Let_def meter_ok_def budget_ok_def)

text \<open>The calls a link makes, in any order.\<close>

datatype meter_op =
    OpQueue u16 nat
  | OpSent u16 u32 nat nat nat
  | OpAck u16 u32 u32 u32 nat
  | OpWriteWait u16 nat nat u32 u32 nat
  | OpLockWait u16 nat
  | OpInboundWait u16 nat nat u32 u32 nat
  | OpClose u16

fun meter_do :: "meter_op \<Rightarrow> RoundtripMeter \<Rightarrow> RoundtripMeter" where
  "meter_do (OpQueue p n) = on_queue p n"
| "meter_do (OpSent p q n d t) = on_segment_sent p q n d t"
| "meter_do (OpAck p x y w t) = on_ack p x y w t"
| "meter_do (OpWriteWait p d u f w t) = on_write_wait p d u f w t"
| "meter_do (OpLockWait p d) = on_lock_wait p d"
| "meter_do (OpInboundWait p d u f w t) = on_inbound_wait p d u f w t"
| "meter_do (OpClose p) = on_close p"

lemmas meter_ops_ok = on_queue_ok on_segment_sent_ok on_ack_ok on_write_wait_ok on_lock_wait_ok on_inbound_wait_ok on_close_ok

lemma meter_run_ok: "meter_ok b m \<Longrightarrow> meter_ok b (fold meter_do ops m)"
proof (induction ops arbitrary: m)
  case (Cons op ops)
  then show ?case by (cases op) (simp_all add: meter_ops_ok)
qed simp

lemma with_sink_ok: "meter_ok b (with_sink b)"
  by (simp add: meter_ok_def with_sink_def budget_ok_def)


end
