(* ===== verification/Link.thy ===== *)
theory Link imports Frame Session Roundtrip begin

text \<open>
  The mux link (\<^verbatim>\<open>usbmux/link.rs\<close>): the version exchange, the sessions of a device, and the packets that
  carry their segments. The transport below it and the clock are parameters: a record of operations on
  a state of their own. Traces are left out; they observe and never answer. A call that does not return is
  \<open>None\<close>; the arithmetic and the \<^verbatim>\<open>expect\<close> that would panic are the extra error \<open>LinkPanic\<close>.
\<close>

section \<open>Data\<close>

definition FIRST_LOCAL_PORT :: u16 where "FIRST_LOCAL_PORT = 49152"
definition DEFAULT_RECEIVE_WINDOW :: u32 where "DEFAULT_RECEIVE_WINDOW = 256 * 1024"

record 'w bulk_transport =
  bt_send :: "'w \<Rightarrow> bytes \<Rightarrow> 'w \<times> (string + unit)"
  bt_recv :: "'w \<Rightarrow> nat \<Rightarrow> 'w \<times> (string + bytes option)"
  bt_max_packet :: "'w \<Rightarrow> nat"
  bt_send_capacity :: "'w \<Rightarrow> bool option"
  bt_device_accepted :: "'w \<Rightarrow> u64 option"
  bt_now :: "'w \<Rightarrow> 'w \<times> nat"

record LinkLiveness =
  ll_packets_received :: u64
  ll_packets_rejected :: u64
  ll_packets_accepted :: "u64 option"

datatype LinkEvent =
    LinkIdle
  | LinkSession u16 SessionEvent
  | Unmatched u16
  | Other Protocol
  | Rejected u32 nat

record SendState =
  st_snd_una :: u32
  st_snd_nxt :: u32
  st_snd_wnd_edge :: u32
  st_send_epoch :: u64
  st_peer_window :: u32
  st_usable :: nat
  st_pending :: nat
  st_segments_in :: u64

datatype MuxError =
    MuxIo string
  | MuxFrame FrameError
  | MuxTcp TcpError
  | MuxSessionError u16 SessionError
  | NotNegotiated
  | VersionTimedOut nat
  | SequenceGap u16 u16
  | TooLarge nat nat
  | NoSession u16
  | HandshakeTimedOut u16 nat
  | MuxClosed u16
  | NoPorts
  | LinkPanic

record 'w MuxLink =
  lk_transport :: 'w
  lk_version :: "MuxVersion option"
  lk_tx_seq :: u16
  lk_rx_expected :: u16
  lk_sessions :: "u16 \<rightharpoonup> MuxSession"
  lk_next_local_port :: u16
  lk_receive_window :: u32
  lk_sequence_seed :: u32
  lk_packets_received :: u64
  lk_packets_rejected :: u64
  lk_in_flush :: bool
  lk_roundtrip :: RoundtripMeter

text \<open>The result of a call that may not return, and the \<^verbatim>\<open>?\<close> of such calls.\<close>

type_synonym ('w, 'a) call = "('w MuxLink \<times> (MuxError + 'a)) option"

definition thenL :: "('w, 'a) call \<Rightarrow> ('w MuxLink \<Rightarrow> 'a \<Rightarrow> ('w, 'b) call) \<Rightarrow> ('w, 'b) call" where
  "thenL r f = Option.bind r (\<lambda>(l, x). case x of Inl e \<Rightarrow> Some (l, Inl e) | Inr y \<Rightarrow> f l y)"

text \<open>\<^verbatim>\<open>loop\<close>: a round ends in the locals of the next one, on the left, or in what the loop returns.\<close>

partial_function (option) loopL ::
    "('s \<Rightarrow> 'w MuxLink \<Rightarrow> ('w, 's + 'a) call) \<Rightarrow> 's \<Rightarrow> 'w MuxLink \<Rightarrow> ('w, 'a) call" where
  "loopL body s l = Option.bind (body s l) (\<lambda>(l, x).
     case x of Inl e \<Rightarrow> Some (l, Inl e) | Inr (Inl s) \<Rightarrow> loopL body s l | Inr (Inr y) \<Rightarrow> Some (l, Inr y))"

section \<open>Sending\<close>

definition MuxLink_new :: "'w \<Rightarrow> u32 \<Rightarrow> u32 \<Rightarrow> 'w MuxLink" where
  "MuxLink_new transport seed budget =
     \<lparr>lk_transport = transport, lk_version = None, lk_tx_seq = 0, lk_rx_expected = 0, lk_sessions = Map.empty,
      lk_next_local_port = FIRST_LOCAL_PORT, lk_receive_window = DEFAULT_RECEIVE_WINDOW, lk_sequence_seed = seed,
      lk_packets_received = 0, lk_packets_rejected = 0, lk_in_flush = False, lk_roundtrip = with_sink budget\<rparr>"

definition clock :: "'w bulk_transport \<Rightarrow> 'w MuxLink \<Rightarrow> 'w MuxLink \<times> nat" where
  "clock bt l = (case bt_now bt (lk_transport l) of (w, now) \<Rightarrow> (l\<lparr>lk_transport := w\<rparr>, now))"

definition transport_send :: "'w bulk_transport \<Rightarrow> bytes \<Rightarrow> 'w MuxLink \<Rightarrow> 'w MuxLink \<times> (MuxError + unit)" where
  "transport_send bt packet l =
     (case bt_send bt (lk_transport l) packet of (w, r) \<Rightarrow> (l\<lparr>lk_transport := w\<rparr>, map_err MuxIo r))"

definition set_session :: "u16 \<Rightarrow> MuxSession \<Rightarrow> 'w MuxLink \<Rightarrow> 'w MuxLink" where
  "set_session local_port s l = l\<lparr>lk_sessions := (lk_sessions l)(local_port \<mapsto> s)\<rparr>"

definition drop_session :: "u16 \<Rightarrow> 'w MuxLink \<Rightarrow> 'w MuxLink" where
  "drop_session local_port l = l\<lparr>lk_sessions := (lk_sessions l)(local_port := None)\<rparr>"

definition segment_size :: "'w bulk_transport \<Rightarrow> 'w MuxLink \<Rightarrow> MuxError + nat" where
  "segment_size bt l =
     bindE (ok_or NotNegotiated (lk_version l)) (\<lambda>version.
       let ceiling = min (bt_max_packet bt (lk_transport l)) MAX_TRANSFER
       in if ceiling < header_len version + TCP_HEADER_LEN then Inl LinkPanic
          else Inr (ceiling - header_len version - TCP_HEADER_LEN))"

definition send_packet :: "'w bulk_transport \<Rightarrow> Protocol \<Rightarrow> bytes \<Rightarrow> 'w MuxLink \<Rightarrow> 'w MuxLink \<times> (MuxError + unit)" where
  "send_packet bt protocol payload l =
     (case lk_version l of
        None \<Rightarrow> (l, Inl NotNegotiated)
      | Some version \<Rightarrow>
          let size = header_len version + length payload;
              limit = min (bt_max_packet bt (lk_transport l)) MAX_PACKET
          in if size > limit then (l, Inl (TooLarge size limit))
             else
               let header = \<lparr>mh_protocol = protocol, mh_length = word_of_nat size, mh_magic = HOST_MAGIC,
                             mh_tx_seq = lk_tx_seq l, mh_rx_ack = lk_rx_expected l - 1\<rparr>
               in bindS (l, map_err MuxFrame (MuxHeader_encode version header (replicate size 0))) (\<lambda>l (packet, _).
                  bindS (transport_send bt (put packet (header_len version) payload) l) (\<lambda>l _.
                    (if is_sequenced version then l\<lparr>lk_tx_seq := lk_tx_seq l + 1\<rparr> else l, Inr ()))))"

definition send_segment :: "'w bulk_transport \<Rightarrow> Segment \<Rightarrow> 'w MuxLink \<Rightarrow> 'w MuxLink \<times> (MuxError + unit)" where
  "send_segment bt segment l =
     (case Segment_to_bytes segment of None \<Rightarrow> (l, Inl LinkPanic) | Some bs \<Rightarrow> send_packet bt Tcp bs l)"

definition flush_body :: "'w bulk_transport \<Rightarrow> u16 \<Rightarrow> 'w MuxLink \<Rightarrow> 'w MuxLink \<times> (MuxError + unit + unit)" where
  "flush_body bt local_port l =
     (if bt_send_capacity bt (lk_transport l) = Some False then (l, Inr (Inr ()))
      else
        case lk_sessions l local_port of
          None \<Rightarrow> (l, Inr (Inr ()))
        | Some session \<Rightarrow>
            case next_segment session of
              (session, None) \<Rightarrow> (set_session local_port session l, Inr (Inr ()))
            | (session, Some segment) \<Rightarrow>
                let (l, started) = clock bt (set_session local_port session l)
                in bindS (send_segment bt segment l) (\<lambda>l _.
                     if seg_payload segment \<noteq> [] then
                       let (l, at) = clock bt l
                       in (l\<lparr>lk_roundtrip := on_segment_sent local_port (th_sequence (seg_header segment))
                              (length (seg_payload segment)) (at - started) at (lk_roundtrip l)\<rparr>, Inr (Inl ()))
                     else (l, Inr (Inl ()))))"

definition link_flush :: "'w bulk_transport \<Rightarrow> u16 \<Rightarrow> 'w MuxLink \<Rightarrow> ('w, unit) call" where
  "link_flush bt local_port = loopL (\<lambda>_ l. Some (flush_body bt local_port l)) ()"

section \<open>Receiving\<close>

definition be_word_at :: "bytes \<Rightarrow> nat \<Rightarrow> u32" where
  "be_word_at packet offset = (case get_range packet offset (offset + 4) of None \<Rightarrow> 0 | Some bs \<Rightarrow> from_be32 bs)"

definition reject_packet :: "FrameError \<Rightarrow> bytes \<Rightarrow> 'w MuxLink \<Rightarrow> 'w MuxLink \<times> LinkEvent" where
  "reject_packet error packet l =
     (let declared = (case error of LengthMismatch declared _ \<Rightarrow> declared | _ \<Rightarrow> be_word_at packet 4)
      in (l\<lparr>lk_packets_rejected := lk_packets_rejected l + 1\<rparr>, Rejected declared (length packet)))"

text \<open>
  \<^verbatim>\<open>pump\<close> up to its last \<^verbatim>\<open>flush\<close>. \<open>route_tcp\<close> is the part from \<^verbatim>\<open>TcpHeader::decode\<close> on. Both return the event
  with the port to flush, if one is due.
\<close>

definition ends_session :: "SessionEvent \<Rightarrow> bool" where
  "ends_session event = (case event of EvReset \<Rightarrow> True | EvClosedByFlags _ \<Rightarrow> True | _ \<Rightarrow> False)"

definition route_tcp ::
    "'w bulk_transport \<Rightarrow> bytes \<Rightarrow> 'w MuxLink \<Rightarrow> 'w MuxLink \<times> (MuxError + LinkEvent \<times> u16 option)" where
  "route_tcp bt payload l =
     (case TcpHeader_decode payload of
        Inl e \<Rightarrow> (l, Inl (MuxTcp e))
      | Inr tcp \<Rightarrow>
          let local_port = th_destination_port tcp
          in case lk_sessions l local_port of
               None \<Rightarrow> (l, Inr (Unmatched local_port, None))
             | Some session \<Rightarrow>
                 case on_segment session tcp (drop TCP_HEADER_LEN payload) of
                   (session', Inl error) \<Rightarrow> (set_session local_port session' l, Inl (MuxSessionError local_port error))
                 | (session', Inr event) \<Rightarrow>
                     let (l, at) = clock bt (set_session local_port session' l);
                         l = l\<lparr>lk_roundtrip := on_ack local_port (snd_una session) (snd_una session') (th_window tcp) at
                                (lk_roundtrip l)\<rparr>
                     in (l, Inr (LinkSession local_port event,
                          if ends_session event \<or> lk_in_flush l then None else Some local_port)))"

definition route_packet ::
    "'w bulk_transport \<Rightarrow> MuxVersion \<Rightarrow> bytes \<Rightarrow> 'w MuxLink \<Rightarrow> 'w MuxLink \<times> (MuxError + LinkEvent \<times> u16 option)" where
  "route_packet bt version packet l =
     (let l = l\<lparr>lk_packets_received := lk_packets_received l + 1\<rparr>
      in case bindE (MuxHeader_decode version packet) (\<lambda>header.
                bindE (MuxHeader_payload header version packet) (\<lambda>payload. Inr (header, payload))) of
           Inl e \<Rightarrow> (case reject_packet e packet l of (l, event) \<Rightarrow> (l, Inr (event, None)))
         | Inr (header, payload) \<Rightarrow>
             if mh_protocol header = Version then
               (case VersionPacket_decode packet of
                  Inl e \<Rightarrow> (l, Inl (MuxFrame e))
                | Inr reply \<Rightarrow>
                    (l\<lparr>lk_version := Some (VersionPacket_negotiated reply), lk_tx_seq := 0, lk_rx_expected := 0\<rparr>,
                     Inr (Other Version, None)))
             else if is_sequenced version \<and> mh_tx_seq header \<noteq> lk_rx_expected l
             then (l, Inl (SequenceGap (lk_rx_expected l) (mh_tx_seq header)))
             else
               let l = (if is_sequenced version then l\<lparr>lk_rx_expected := lk_rx_expected l + 1\<rparr> else l)
               in if mh_protocol header = Control then (l, Inr (Other Control, None))
                  else if mh_protocol header \<noteq> Tcp then (l, Inr (Other (mh_protocol header), None))
                  else route_tcp bt payload l)"

definition pump :: "'w bulk_transport \<Rightarrow> nat \<Rightarrow> 'w MuxLink \<Rightarrow> ('w, LinkEvent) call" where
  "pump bt timeout l =
     (case lk_version l of
        None \<Rightarrow> Some (l, Inl NotNegotiated)
      | Some version \<Rightarrow>
          case bt_recv bt (lk_transport l) timeout of
            (w, Inl e) \<Rightarrow> Some (l\<lparr>lk_transport := w\<rparr>, Inl (MuxIo e))
          | (w, Inr None) \<Rightarrow> Some (l\<lparr>lk_transport := w\<rparr>, Inr LinkIdle)
          | (w, Inr (Some packet)) \<Rightarrow>
              thenL (Some (route_packet bt version packet (l\<lparr>lk_transport := w\<rparr>))) (\<lambda>l (event, due).
                case due of
                  None \<Rightarrow> Some (l, Inr event)
                | Some local_port \<Rightarrow> thenL (link_flush bt local_port l) (\<lambda>l _. Some (l, Inr event))))"

definition drain_inbound :: "'w bulk_transport \<Rightarrow> 'w MuxLink \<Rightarrow> ('w, nat) call" where
  "drain_inbound bt = loopL (\<lambda>routed l.
     thenL (pump bt 0 l) (\<lambda>l event. Some (l, Inr (if event = LinkIdle then Inr routed else Inl (routed + 1))))) 0"

definition route_available :: "'w bulk_transport \<Rightarrow> 'w MuxLink \<Rightarrow> ('w, nat) call" where
  "route_available bt l =
     Option.bind (drain_inbound bt (l\<lparr>lk_in_flush := True\<rparr>)) (\<lambda>(l', r). Some (l'\<lparr>lk_in_flush := lk_in_flush l\<rparr>, r))"

section \<open>Opening and closing\<close>

definition VersionRequest_bytes :: "VersionRequest \<Rightarrow> bytes" where
  "VersionRequest_bytes request = VersionPacket_encode (VersionRequest_packet request)"

definition negotiate_body ::
    "'w bulk_transport \<Rightarrow> nat \<Rightarrow> nat \<Rightarrow> 'w MuxLink \<Rightarrow> 'w MuxLink \<times> (MuxError + unit + MuxVersion)" where
  "negotiate_body bt deadline timeout l =
     (let (l, now) = clock bt l; remaining = deadline - now
      in if remaining = 0 then (l, Inl (VersionTimedOut timeout))
         else
           case bt_recv bt (lk_transport l) remaining of
             (w, Inl e) \<Rightarrow> (l\<lparr>lk_transport := w\<rparr>, Inl (MuxIo e))
           | (w, Inr None) \<Rightarrow> (l\<lparr>lk_transport := w\<rparr>, Inr (Inl ()))
           | (w, Inr (Some bs)) \<Rightarrow>
               let l = l\<lparr>lk_transport := w\<rparr>
               in case VersionPacket_decode bs of
                    Inr reply \<Rightarrow>
                      let version = VersionPacket_negotiated reply
                      in (l\<lparr>lk_version := Some version, lk_tx_seq := 0, lk_rx_expected := 0\<rparr>, Inr (Inr version))
                  | Inl (NotVersion _) \<Rightarrow> (l, Inr (Inl ()))
                  | Inl e \<Rightarrow> (l, Inl (MuxFrame e)))"

definition negotiate :: "'w bulk_transport \<Rightarrow> VersionRequest \<Rightarrow> nat \<Rightarrow> 'w MuxLink \<Rightarrow> ('w, MuxVersion) call" where
  "negotiate bt request timeout l =
     thenL (Some (transport_send bt (VersionRequest_bytes request) l)) (\<lambda>l _.
       let (l, now) = clock bt l
       in loopL (\<lambda>_ l. Some (negotiate_body bt (now + timeout) timeout l)) () l)"

fun allocate_from :: "nat \<Rightarrow> 'w MuxLink \<Rightarrow> 'w MuxLink \<times> (MuxError + u16)" where
  "allocate_from 0 l = (l, Inl NoPorts)"
| "allocate_from (Suc n) l =
     (let port = lk_next_local_port l;
          l = l\<lparr>lk_next_local_port := (if port = - 1 then FIRST_LOCAL_PORT else port + 1)\<rparr>
      in if lk_sessions l port = None then (l, Inr port) else allocate_from n l)"

definition allocate_port :: "'w MuxLink \<Rightarrow> 'w MuxLink \<times> (MuxError + u16)" where
  "allocate_port l = allocate_from (unat (- 1 - FIRST_LOCAL_PORT) + 1) l"

definition next_initial_sequence :: "u16 \<Rightarrow> 'w MuxLink \<Rightarrow> 'w MuxLink \<times> u32" where
  "next_initial_sequence local_port l =
     (let seed = lk_sequence_seed l * 1664525 + 1013904223
      in (l\<lparr>lk_sequence_seed := seed\<rparr>, seed XOR push_bit 16 (ucast local_port)))"

definition begin_open :: "'w bulk_transport \<Rightarrow> u16 \<Rightarrow> 'w MuxLink \<Rightarrow> 'w MuxLink \<times> (MuxError + u16)" where
  "begin_open bt remote_port l =
     bindS (allocate_port l) (\<lambda>l local_port.
     bindS (l, segment_size bt l) (\<lambda>l mss.
       let (l, initial_sequence) = next_initial_sequence local_port l;
           config = \<lparr>cfg_local_port = local_port, cfg_remote_port = remote_port,
                     cfg_initial_sequence = initial_sequence, cfg_mss = mss, cfg_receive_window = lk_receive_window l\<rparr>;
           (session, syn) = MuxSession_open config;
           l = set_session local_port session l
       in bindS (send_segment bt syn l) (\<lambda>l _. (l, Inr local_port))))"

definition finish_open :: "'w bulk_transport \<Rightarrow> u16 \<Rightarrow> 'w MuxLink \<Rightarrow> ('w, unit) call" where
  "finish_open bt local_port l = link_flush bt local_port l"

definition link_session_state :: "'w MuxLink \<Rightarrow> u16 \<Rightarrow> SessionState option" where
  "link_session_state l local_port = map_option ms_state (lk_sessions l local_port)"

definition open_body ::
    "'w bulk_transport \<Rightarrow> u16 \<Rightarrow> nat \<Rightarrow> nat \<Rightarrow> 'w MuxLink \<Rightarrow> ('w, unit + u16) call" where
  "open_body bt local_port deadline timeout l =
     (case link_session_state l local_port of
        Some Established \<Rightarrow> thenL (finish_open bt local_port l) (\<lambda>l _. Some (l, Inr (Inr local_port)))
      | Some SynSent \<Rightarrow>
          let (l, now) = clock bt l; remaining = deadline - now
          in if remaining = 0 then Some (drop_session local_port l, Inl (HandshakeTimedOut local_port timeout))
             else thenL (pump bt remaining l) (\<lambda>l _. Some (l, Inr (Inl ())))
      | _ \<Rightarrow> Some (drop_session local_port l, Inl (MuxClosed local_port)))"

definition link_open :: "'w bulk_transport \<Rightarrow> u16 \<Rightarrow> nat \<Rightarrow> 'w MuxLink \<Rightarrow> ('w, u16) call" where
  "link_open bt remote_port timeout l =
     thenL (Some (begin_open bt remote_port l)) (\<lambda>l local_port.
       let (l, now) = clock bt l
       in loopL (\<lambda>_. open_body bt local_port (now + timeout) timeout) () l)"

definition link_close :: "'w bulk_transport \<Rightarrow> u16 \<Rightarrow> 'w MuxLink \<Rightarrow> 'w MuxLink \<times> (MuxError + unit)" where
  "link_close bt local_port l =
     (case lk_sessions l local_port of
        None \<Rightarrow> (l, Inr ())
      | Some session \<Rightarrow>
          let closed = (drop_session local_port l)\<lparr>lk_roundtrip := on_close local_port (lk_roundtrip l)\<rparr>
          in if orderly_closed session then (closed, Inr ())
             else send_segment bt (snd (MuxSession_close session)) closed)"

section \<open>Reading and writing\<close>

definition link_received_len :: "'w MuxLink \<Rightarrow> u16 \<Rightarrow> nat" where
  "link_received_len l local_port = (case lk_sessions l local_port of None \<Rightarrow> 0 | Some s \<Rightarrow> received_len s)"

definition received_eof :: "u16 \<Rightarrow> 'w MuxLink \<Rightarrow> MuxError + bool" where
  "received_eof local_port l =
     bindE (ok_or (NoSession local_port) (lk_sessions l local_port)) (\<lambda>session.
       if ms_state session = Closed then Inl (MuxIo ''mux peer reset or aborted port'')
       else Inr (MuxSession_received_eof session))"

definition shutdown_write :: "'w bulk_transport \<Rightarrow> u16 \<Rightarrow> 'w MuxLink \<Rightarrow> ('w, unit) call" where
  "shutdown_write bt local_port l =
     (case lk_sessions l local_port of
        None \<Rightarrow> Some (l, Inl (NoSession local_port))
      | Some session \<Rightarrow>
          case MuxSession_shutdown_write session of
            Inl error \<Rightarrow> Some (l, Inl (MuxSessionError local_port error))
          | Inr session \<Rightarrow> link_flush bt local_port (set_session local_port session l))"

text \<open>The part \<^verbatim>\<open>write\<close> and \<^verbatim>\<open>queue_write\<close> share.\<close>

definition enqueue :: "u16 \<Rightarrow> bytes \<Rightarrow> 'w MuxLink \<Rightarrow> 'w MuxLink \<times> (MuxError + unit)" where
  "enqueue local_port data l =
     (case lk_sessions l local_port of
        None \<Rightarrow> (l, Inl (NoSession local_port))
      | Some session \<Rightarrow>
          if \<not> can_write session then (l, Inl (MuxIo ''mux port write side is closed''))
          else ((set_session local_port (MuxSession_queue session data) l)
                  \<lparr>lk_roundtrip := on_queue local_port (length data) (lk_roundtrip l)\<rparr>, Inr ()))"

text \<open>The timed \<^verbatim>\<open>pump\<close> of \<^verbatim>\<open>write\<close>, with what the session showed before it.\<close>

definition wait_for_window :: "'w bulk_transport \<Rightarrow> u16 \<Rightarrow> MuxSession \<Rightarrow> nat \<Rightarrow> 'w MuxLink \<Rightarrow> ('w, LinkEvent) call" where
  "wait_for_window bt local_port session remaining l =
     (let (l, started) = clock bt l
      in Option.bind (pump bt remaining l) (\<lambda>(l, pumped).
           let (l, ended) = clock bt l; (l, at) = clock bt l
           in Some (l\<lparr>lk_roundtrip := on_write_wait local_port (ended - started) (usable_window session)
                       (in_flight session) (peer_window session) at (lk_roundtrip l)\<rparr>, pumped)))"

definition write_body ::
    "'w bulk_transport \<Rightarrow> u16 \<Rightarrow> nat \<Rightarrow> nat \<Rightarrow> 'w MuxLink \<Rightarrow> ('w, unit + nat) call" where
  "write_body bt local_port wanted deadline l =
     (case lk_sessions l local_port of
        None \<Rightarrow> Some (l, Inl (NoSession local_port))
      | Some earlier \<Rightarrow>
          thenL (link_flush bt local_port l) (\<lambda>l _.
            case lk_sessions l local_port of
              None \<Rightarrow> Some (l, Inl (NoSession local_port))
            | Some session \<Rightarrow>
                if ms_state session \<noteq> Established then Some (l, Inl (MuxClosed local_port))
                else
                  let outstanding = pending_len session in
                  if outstanding = 0 then Some (l, Inr (Inr wanted))
                  else
                    let usable = usable_window session; (l, now) = clock bt l; remaining = deadline - now in
                    if remaining = 0 then Some (l, Inr (Inr (wanted - min outstanding wanted)))
                    else if outstanding < pending_len earlier \<and> usable > 0
                    then thenL (drain_inbound bt l) (\<lambda>l _. Some (l, Inr (Inl ())))
                    else thenL (wait_for_window bt local_port session remaining l) (\<lambda>l _. Some (l, Inr (Inl ())))))"

definition link_write :: "'w bulk_transport \<Rightarrow> u16 \<Rightarrow> bytes \<Rightarrow> nat \<Rightarrow> 'w MuxLink \<Rightarrow> ('w, nat) call" where
  "link_write bt local_port data timeout l =
     thenL (Some (enqueue local_port data l)) (\<lambda>l _.
       let (l, now) = clock bt l
       in loopL (\<lambda>_. write_body bt local_port (length data) (now + timeout)) () l)"

definition pending_write :: "'w bulk_transport \<Rightarrow> u16 \<Rightarrow> 'w MuxLink \<Rightarrow> ('w, nat) call" where
  "pending_write bt local_port l =
     thenL (link_flush bt local_port l) (\<lambda>l _.
       case lk_sessions l local_port of
         None \<Rightarrow> Some (l, Inl (NoSession local_port))
       | Some session \<Rightarrow>
           if ms_state session \<noteq> Established then Some (l, Inl (MuxClosed local_port))
           else Some (l, Inr (pending_len session)))"

definition queue_write :: "'w bulk_transport \<Rightarrow> u16 \<Rightarrow> bytes \<Rightarrow> 'w MuxLink \<Rightarrow> ('w, nat) call" where
  "queue_write bt local_port data l =
     thenL (Some (enqueue local_port data l)) (\<lambda>l _. pending_write bt local_port l)"

definition link_take_received :: "'w bulk_transport \<Rightarrow> u16 \<Rightarrow> bytes \<Rightarrow> 'w MuxLink \<Rightarrow> ('w, bytes \<times> nat) call" where
  "link_take_received bt local_port out l =
     (if out = [] then Some (l, Inr (out, 0))
      else
        case lk_sessions l local_port of
          None \<Rightarrow> Some (l, Inl (NoSession local_port))
        | Some session \<Rightarrow>
            case MuxSession_take_received session out of
              (session, out, taken) \<Rightarrow>
                if taken > 0
                then thenL (link_flush bt local_port (set_session local_port (request_ack session) l))
                       (\<lambda>l _. Some (l, Inr (out, taken)))
                else Some (set_session local_port session l, Inr (out, taken)))"

definition read_body ::
    "'w bulk_transport \<Rightarrow> u16 \<Rightarrow> nat \<Rightarrow> bytes \<Rightarrow> 'w MuxLink \<Rightarrow> ('w, bytes + bytes \<times> nat) call" where
  "read_body bt local_port deadline out l =
     thenL (link_take_received bt local_port out l) (\<lambda>l (out, taken).
       if taken > 0 then Some (l, Inr (Inr (out, taken)))
       else
         thenL (Some (l, received_eof local_port l)) (\<lambda>l eof.
           if eof then Some (l, Inr (Inr (out, 0)))
           else
             let (l, now) = clock bt l; remaining = deadline - now
             in if remaining = 0 then Some (l, Inr (Inr (out, 0)))
                else thenL (pump bt remaining l) (\<lambda>l _. Some (l, Inr (Inl out)))))"

definition link_read :: "'w bulk_transport \<Rightarrow> u16 \<Rightarrow> bytes \<Rightarrow> nat \<Rightarrow> 'w MuxLink \<Rightarrow> ('w, bytes \<times> nat) call" where
  "link_read bt local_port out timeout l =
     (if out = [] then Some (l, Inr (out, 0))
      else let (l, now) = clock bt l in loopL (read_body bt local_port (now + timeout)) out l)"

definition send_state :: "'w MuxLink \<Rightarrow> u16 \<Rightarrow> SendState option" where
  "send_state l local_port = map_option (\<lambda>s.
     \<lparr>st_snd_una = snd_una s, st_snd_nxt = snd_nxt s, st_snd_wnd_edge = snd_wnd_edge s, st_send_epoch = send_epoch s,
      st_peer_window = peer_window s, st_usable = usable_window s, st_pending = pending_sequences s,
      st_segments_in = segments_in s\<rparr>) (lk_sessions l local_port)"

definition probe_window :: "'w bulk_transport \<Rightarrow> u16 \<Rightarrow> 'w MuxLink \<Rightarrow> ('w, bool) call" where
  "probe_window bt local_port l =
     (case lk_sessions l local_port of
        None \<Rightarrow> Some (l, Inl (NoSession local_port))
      | Some session \<Rightarrow>
          case MuxSession_probe_window session of
            (session, False) \<Rightarrow> Some (set_session local_port session l, Inr False)
          | (session, True) \<Rightarrow>
              thenL (link_flush bt local_port (set_session local_port session l)) (\<lambda>l _. Some (l, Inr True)))"

definition link_retransmit :: "'w bulk_transport \<Rightarrow> u16 \<Rightarrow> 'w MuxLink \<Rightarrow> ('w, bool) call" where
  "link_retransmit bt local_port l =
     (if bt_send_capacity bt (lk_transport l) = Some False then Some (l, Inr False)
      else
        case lk_sessions l local_port of
          None \<Rightarrow> Some (l, Inl (NoSession local_port))
        | Some session \<Rightarrow>
            case retransmit_unacknowledged session of
              None \<Rightarrow> probe_window bt local_port l
            | Some segment \<Rightarrow> thenL (Some (send_segment bt segment l)) (\<lambda>l _. Some (l, Inr True)))"

definition record_wait :: "'w bulk_transport \<Rightarrow> u16 \<Rightarrow> nat \<Rightarrow> nat \<Rightarrow> 'w MuxLink \<Rightarrow> 'w MuxLink" where
  "record_wait bt local_port for_link for_inbound l =
     (let (usable, flight, window) =
            (case lk_sessions l local_port of
               None \<Rightarrow> (0, 0, 0)
             | Some s \<Rightarrow> (usable_window s, in_flight s, peer_window s));
          l = l\<lparr>lk_roundtrip := on_lock_wait local_port for_link (lk_roundtrip l)\<rparr>;
          (l, at) = clock bt l
      in l\<lparr>lk_roundtrip := on_inbound_wait local_port for_inbound usable flight window at (lk_roundtrip l)\<rparr>)"

definition liveness :: "'w bulk_transport \<Rightarrow> 'w MuxLink \<Rightarrow> LinkLiveness" where
  "liveness bt l =
     \<lparr>ll_packets_received = lk_packets_received l, ll_packets_rejected = lk_packets_rejected l,
      ll_packets_accepted = bt_device_accepted bt (lk_transport l)\<rparr>"

end
