(* ===== verification/Session_Safety.thy ===== *)
theory Session_Safety imports Session begin

text \<open>
  The send half of a usbmux session (\<^verbatim>\<open>usbmux/session.rs\<close>): every operation keeps the invariant
  \<open>send_inv\<close> that ties the retransmission queue, the outbound queue and the sequence numbers
  to the stream the caller wrote, and every segment that leaves carries a piece of that stream.
\<close>

section \<open>Rules for the send invariant\<close>

lemmas session_op_defs = MuxSession_open_def MuxSession_queue_def MuxSession_take_received_def
  on_segment_def on_syn_ack_def next_segment_def data_segment_def take_outbound_def fin_segment_def
  retransmit_unacknowledged_def request_ack_def MuxSession_probe_window_def
  MuxSession_shutdown_write_def MuxSession_close_def

lemma send_at_cong:
  "ms_config s' = ms_config s \<Longrightarrow> outbound s' = outbound s \<Longrightarrow> unacknowledged s' = unacknowledged s \<Longrightarrow>
   snd_nxt s' = snd_nxt s \<Longrightarrow> snd_una s' = snd_una s \<Longrightarrow> sent_fin s' = sent_fin s \<Longrightarrow>
   (write_shutdown s \<longrightarrow> write_shutdown s') \<Longrightarrow> send_at w a s \<Longrightarrow> send_at w a s'"
  by (auto simp: send_at_def buffered_def first_sequence_def fin_len_def)

lemma send_atI:
  assumes "a \<le> length w" "unacknowledged s @ outbound s = drop a w" "buffered s < BUFFER_LIMIT"
    and "snd_nxt s = first_sequence s + word_of_nat (a + length (unacknowledged s) + fin_len s)"
    and "snd_una s = first_sequence s + word_of_nat a \<or>
      sent_fin s \<noteq> None \<and> unacknowledged s = [] \<and> snd_una s = snd_nxt s"
    and "\<And>f. sent_fin s = Some f \<Longrightarrow>
        outbound s = [] \<and> write_shutdown s \<and> f = first_sequence s + word_of_nat (length w)"
  shows "send_at w a s"
  using assms by (simp add: send_at_def)

lemma send_atD:
  assumes "send_at w a s"
  shows "a \<le> length w" "unacknowledged s @ outbound s = drop a w" "buffered s < BUFFER_LIMIT"
    and "snd_nxt s = first_sequence s + word_of_nat (a + length (unacknowledged s) + fin_len s)"
    and "snd_una s = first_sequence s + word_of_nat a \<or>
      sent_fin s \<noteq> None \<and> unacknowledged s = [] \<and> snd_una s = snd_nxt s"
    and "sent_fin s = Some f \<Longrightarrow>
        outbound s = [] \<and> write_shutdown s \<and> f = first_sequence s + word_of_nat (length w)"
    and "length (unacknowledged s) + length (outbound s) = length w - a"
proof -
  note inv = assms [unfolded send_at_def]
  from inv show "a \<le> length w" "unacknowledged s @ outbound s = drop a w" "buffered s < BUFFER_LIMIT"
    and "snd_nxt s = first_sequence s + word_of_nat (a + length (unacknowledged s) + fin_len s)"
    and "snd_una s = first_sequence s + word_of_nat a \<or>
      sent_fin s \<noteq> None \<and> unacknowledged s = [] \<and> snd_una s = snd_nxt s"
    and "sent_fin s = Some f \<Longrightarrow>
        outbound s = [] \<and> write_shutdown s \<and> f = first_sequence s + word_of_nat (length w)"
    by blast+
  from inv show "length (unacknowledged s) + length (outbound s) = length w - a"
    by (metis length_append length_drop)
qed

lemma apply_ack_keeps:
  "apply_ack s h = Inr s' \<Longrightarrow>
     ms_config s' = ms_config s \<and> ms_state s' = ms_state s \<and> outbound s' = outbound s
     \<and> sent_fin s' = sent_fin s \<and> write_shutdown s' = write_shutdown s \<and> snd_nxt s' = snd_nxt s
     \<and> inbound s' = inbound s \<and> rcv_nxt s' = rcv_nxt s \<and> peer_fin s' = peer_fin s"
  by (auto simp: apply_ack_def Let_def split: if_splits)

lemma apply_ack_send_at:
  assumes inv: "send_at w a s" and res: "apply_ack s h = Inr s'"
  shows "\<exists>a'. a \<le> a' \<and> send_at w a' s'"
proof (cases "th_flags h AND ACK \<noteq> 0 \<and> seq_gt (th_acknowledgement h) (snd_una s)")
  case False
  with res have "s' = s" by (auto simp: apply_ack_def split: if_splits)
  with inv show ?thesis by blast
next
  case True
  let ?ack = "th_acknowledgement h" and ?u = "unacknowledged s"
  let ?k = "length ?u + fin_len s"
  obtain n where n: "unat (?ack - snd_una s) = n" by simp
  from True res n have ngt: "\<not> seq_gt ?ack (snd_nxt s)"
    and s': "s' = s\<lparr>unacknowledged := drop (min n (length ?u)) ?u, snd_una := ?ack,
                   send_epoch := send_epoch s + 1\<rparr>"
    by (auto simp: apply_ack_def Let_def split: if_splits)
  from True ngt have "snd_una s \<noteq> snd_nxt s" by auto
  with inv have una: "snd_una s = first_sequence s + word_of_nat a"
    and str: "?u @ outbound s = drop a w" and aw: "a \<le> length w"
    by (auto simp: send_at_def)
  with inv have nxt: "snd_nxt s = snd_una s + word_of_nat ?k"
    by (simp add: send_at_def)
  have "?k < 2 ^ 31"
    using inv by (simp add: send_at_def buffered_def BUFFER_LIMIT_def fin_len_def)
  with nxt True ngt n have n_le: "0 < n" "n \<le> ?k"
    using seq_ack_bound by blast+
  have ack: "?ack = snd_una s + word_of_nat n" unfolding n [symmetric] by simp
  have len: "length ?u + length (outbound s) = length w - a"
    using str by (metis length_append length_drop)
  show ?thesis
  proof (cases "n \<le> length ?u")
    case True
    have "drop n (?u @ outbound s) = drop (a + n) w"
      by (simp only: str drop_drop add.commute)
    with True have "drop n ?u @ outbound s = drop (a + n) w" by simp
    moreover have "first_sequence s' = first_sequence s" "fin_len s' = fin_len s"
      by (simp_all add: s' first_sequence_def fin_len_def)
    ultimately have "send_at w (a + n) s'"
      using True send_atD(3,6) [OF inv] una nxt len aw ack
      by (intro send_atI) (simp_all add: s' buffered_def)
    then show ?thesis by (intro exI [of _ "a + n"]) simp
  next
    case False
    with n_le have fin: "sent_fin s \<noteq> None" "n = ?k"
      by (auto simp: fin_len_def split: if_splits)
    then have "?ack = snd_nxt s" "outbound s = []"
      using ack nxt inv by (auto simp: send_at_def)
    moreover from this str have "drop (a + length ?u) w = []" "a + length ?u \<le> length w"
      using len aw by auto
    moreover have "first_sequence s' = first_sequence s" "fin_len s' = fin_len s"
      by (simp_all add: s' first_sequence_def fin_len_def)
    ultimately have "send_at w (a + length ?u) s'"
      using False send_atD(3,4,6) [OF inv] fin len aw
      by (intro send_atI) (simp_all add: s' buffered_def)
    then show ?thesis by (intro exI [of _ "a + length ?u"]) simp
  qed
qed

lemma apply_window_keeps:
  "send_at w a (apply_window s h) = send_at w a s"
  "ms_config (apply_window s h) = ms_config s"
  "ms_state (apply_window s h) = ms_state s"
  "inbound (apply_window s h) = inbound s"
  "rcv_nxt (apply_window s h) = rcv_nxt s"
  "peer_fin (apply_window s h) = peer_fin s"
  by (simp_all add: apply_window_def send_at_def buffered_def first_sequence_def fin_len_def)

lemma send_at_fields: "send_fields s' = send_fields s \<Longrightarrow> send_at w a s' = send_at w a s"
  by (simp add: send_fields_def send_at_def buffered_def first_sequence_def fin_len_def)

lemma accept_payload_fields: "send_fields (fst (accept_payload s h p)) = send_fields s"
  by (simp add: accept_payload_def Let_def send_fields_def)

lemma accept_payload_keeps:
  assumes "accept_payload s h p = (s', ev)"
  shows "ms_config s' = ms_config s" "ms_state s' = ms_state s" "send_at w a s' = send_at w a s"
proof -
  have eq: "send_fields s' = send_fields s"
    using accept_payload_fields [of s h p] by (simp add: assms)
  then show "ms_config s' = ms_config s" "ms_state s' = ms_state s"
    by (simp_all add: send_fields_def)
  from eq show "send_at w a s' = send_at w a s" by (rule send_at_fields)
qed

lemma on_established_config:
  assumes "on_established s h p = (s', r)"
  shows "ms_config s' = ms_config s" "ms_state s = Established \<Longrightarrow> ms_state s' \<noteq> SynSent"
proof -
  have "ms_config s' = ms_config s \<and> (ms_state s' = ms_state s \<or> ms_state s' = Closed)"
  proof (cases "apply_ack s h")
    case (Inl e)
    with assms show ?thesis by (simp add: on_established_def split: if_splits) auto
  next
    case (Inr s1)
    obtain s2 ev where acc: "accept_payload (apply_window s1 h) h p = (s2, ev)" by fastforce
    with assms Inr have "s' = s2 \<or> s' = s\<lparr>ms_state := Closed\<rparr>"
      by (simp add: on_established_def split: if_splits)
    with accept_payload_keeps(1,2) [OF acc] apply_ack_keeps [OF Inr] show ?thesis
      by (auto simp: apply_window_keeps)
  qed
  then show "ms_config s' = ms_config s" "ms_state s = Established \<Longrightarrow> ms_state s' \<noteq> SynSent"
    by auto
qed

lemma on_segment_config: "on_segment s h p = (s', r) \<Longrightarrow> ms_config s' = ms_config s"
  by (cases "ms_state s")
    (auto simp: on_segment_def on_syn_ack_def Let_def split: if_splits dest: on_established_config(1))

lemma on_established_send:
  assumes inv: "send_at w a s" and res: "on_established s h p = (s', r)"
  shows "ms_state s' = Closed \<or> (\<exists>a'. a \<le> a' \<and> send_at w a' s')"
proof (cases "apply_ack s h")
  case (Inl e)
  with res inv show ?thesis by (auto simp: on_established_def split: if_splits)
next
  case (Inr s1)
  show ?thesis
  proof (cases "\<not> is_bare_ack h \<and> \<not> is_fin h")
    case True
    with res show ?thesis by (auto simp: on_established_def)
  next
    case False
    with res Inr obtain ev where "accept_payload (apply_window s1 h) h p = (s', ev)"
      by (auto simp: on_established_def split: prod.splits)
    then show ?thesis
      using apply_ack_send_at [OF inv Inr] by (auto simp: accept_payload_keeps(3) apply_window_keeps)
  qed
qed

lemma on_segment_send:
  assumes inv: "send_inv w s" and res: "on_segment s h p = (s', r)"
  shows "send_inv w s'"
proof -
  let ?t = "s\<lparr>segments_in := sat_add (segments_in s) 1\<rparr>"
  consider (reset) "is_reset h" | (closed) "\<not> is_reset h" "ms_state s = Closed"
    | (syn) "\<not> is_reset h" "ms_state s = SynSent" | (est) "\<not> is_reset h" "ms_state s = Established"
    by (cases "ms_state s") auto
  then show ?thesis
  proof cases
    case reset
    with res show ?thesis by (auto simp: on_segment_def Let_def send_inv_def)
  next
    case closed
    with res show ?thesis by (auto simp: on_segment_def Let_def send_inv_def)
  next
    case syn
    with inv have "fresh s" "w = []" by (simp_all add: send_inv_def)
    with syn res show ?thesis
      by (auto simp: on_segment_def on_syn_ack_def Let_def send_inv_def fresh_def send_at_def
          buffered_def first_sequence_def fin_len_def BUFFER_LIMIT_def split: if_splits)
  next
    case est
    then obtain a where "send_at w a s" using inv by (auto simp: send_inv_def)
    then have "send_at w a ?t" by (rule send_at_cong [rotated -1]) simp_all
    moreover from est res have "on_established ?t h p = (s', r)"
      by (simp add: on_segment_def Let_def)
    ultimately have "ms_state s' = Closed \<or> (\<exists>a'. a \<le> a' \<and> send_at w a' s')"
      by (rule on_established_send)
    moreover have "ms_state s' \<noteq> SynSent"
      using on_established_config(2) [OF \<open>on_established ?t h p = (s', r)\<close>] est by simp
    ultimately show ?thesis by (cases "ms_state s'") (auto simp: send_inv_def)
  qed
qed

lemma data_segment_send:
  assumes inv: "send_at w a s" and out: "n \<le> length (outbound s)" "outbound s \<noteq> []"
    and res: "data_segment s n = (s', g)"
  shows "send_at w a s'" "ms_state s' = ms_state s" "ms_config s' = ms_config s"
    and "seg_payload g = take n (drop (a + length (unacknowledged s)) w)"
    and "th_sequence (seg_header g) = first_sequence s + word_of_nat (a + length (unacknowledged s))"
proof -
  let ?u = "unacknowledged s"
  have none: "sent_fin s = None" using send_atD(6) [OF inv] out by (cases "sent_fin s") auto
  have pay: "take n (outbound s) = take n (drop (a + length ?u) w)"
    using send_atD(2) [OF inv] by (metis add.commute append_eq_conv_conj drop_drop)
  from res have s': "outbound s' = drop n (outbound s)" "unacknowledged s' = ?u @ take n (outbound s)"
    "snd_nxt s' = snd_nxt s + word_of_nat n" "snd_una s' = snd_una s" "sent_fin s' = sent_fin s"
    "ms_config s' = ms_config s" "ms_state s' = ms_state s"
    and g: "seg_payload g = take n (outbound s)" "th_sequence (seg_header g) = snd_nxt s"
    by (auto simp: data_segment_def take_outbound_def ack_header_def Let_def)
  then have "first_sequence s' = first_sequence s" "fin_len s' = 0" "fin_len s = 0"
    using none by (simp_all add: first_sequence_def fin_len_def)
  then show "send_at w a s'"
    using send_atD(1-5) [OF inv] none out
    by (intro send_atI) (auto simp: s' buffered_def)
  show "ms_state s' = ms_state s" "ms_config s' = ms_config s" by (fact s')+
  show "seg_payload g = take n (drop (a + length ?u) w)" using g pay by simp
  show "th_sequence (seg_header g) = first_sequence s + word_of_nat (a + length ?u)"
    using g send_atD(4) [OF inv] \<open>fin_len s = 0\<close> by simp
qed

lemma fin_segment_send:
  assumes inv: "send_at w a s" and out: "outbound s = []" "write_shutdown s" "sent_fin s = None"
    and res: "fin_segment s = (s', g)"
  shows "send_at w a s'" "ms_state s' = ms_state s" "ms_config s' = ms_config s" "seg_payload g = []"
proof -
  from res have s': "outbound s' = []" "unacknowledged s' = unacknowledged s"
    "snd_nxt s' = snd_nxt s + 1" "snd_una s' = snd_una s" "sent_fin s' = Some (snd_nxt s)"
    "ms_config s' = ms_config s" "ms_state s' = ms_state s" "write_shutdown s'" "seg_payload g = []"
    using out by (auto simp: fin_segment_def Let_def)
  then have fs: "first_sequence s' = first_sequence s" "fin_len s' = 1" "fin_len s = 0"
    using out by (simp_all add: first_sequence_def fin_len_def)
  have "a + length (unacknowledged s) = length w"
    using send_atD(1,7) [OF inv] out by simp
  then show "send_at w a s'"
    using send_atD(1-5) [OF inv] out fs
    by (intro send_atI) (auto simp: s' buffered_def)
qed (use res in \<open>auto simp: fin_segment_def Let_def\<close>)

section \<open>Every step keeps the send half\<close>

lemma next_segment_eq:
  assumes "ms_state s = Established"
  shows "next_segment s =
    (if may_data s then (case data_segment s (next_take s) of (s', g) \<Rightarrow> (s', Some g))
     else if may_fin s then (case fin_segment s of (s', g) \<Rightarrow> (s', Some g))
     else if owe_ack s then (s\<lparr>owe_ack := False\<rparr>,
        Some \<lparr>seg_header = ack_header (s\<lparr>owe_ack := False\<rparr>) (snd_nxt s), seg_payload = []\<rparr>)
     else (s, None))"
  using assms unfolding next_segment_def Let_def may_data_def may_fin_def by simp

lemma next_segment_cases:
  assumes "next_segment s = (s', r)"
  obtains (off) "ms_state s \<noteq> Established" "s' = s" "r = None"
  | (data) g where "ms_state s = Established" "may_data s"
     "data_segment s (next_take s) = (s', g)" "r = Some g"
  | (fin) g where "ms_state s = Established" "may_fin s" "fin_segment s = (s', g)" "r = Some g"
  | (ack) "ms_state s = Established" "owe_ack s" "s' = s\<lparr>owe_ack := False\<rparr>"
      "r = Some \<lparr>seg_header = ack_header s' (snd_nxt s'), seg_payload = []\<rparr>"
  | (idle) "ms_state s = Established" "\<not> owe_ack s" "s' = s" "r = None"
proof (cases "ms_state s = Established")
  case False
  with assms have "s' = s" "r = None" by (simp_all add: next_segment_def)
  with False show thesis by (rule off)
next
  case est: True
  note eq = assms [unfolded next_segment_eq [OF est]]
  consider "may_data s" | "\<not> may_data s" "may_fin s" | "\<not> may_data s" "\<not> may_fin s" "owe_ack s"
    | "\<not> may_data s" "\<not> may_fin s" "\<not> owe_ack s" by blast
  then show thesis
  proof cases
    case 1
    with eq show thesis by (auto split: prod.splits intro: data [OF est 1])
  next
    case 2
    with eq show thesis by (auto split: prod.splits intro: fin [OF est 2(2)])
  next
    case 3
    with eq have "s' = s\<lparr>owe_ack := False\<rparr>"
        "r = Some \<lparr>seg_header = ack_header s' (snd_nxt s'), seg_payload = []\<rparr>" by auto
    with est 3 show thesis by (intro ack)
  next
    case 4
    with eq have "s' = s" "r = None" by simp_all
    with est 4 show thesis by (intro idle)
  qed
qed
lemma may_dataD: "may_data s \<Longrightarrow> usable_window s > 0" "may_data s \<Longrightarrow> outbound s \<noteq> []"
    "may_data s \<Longrightarrow> may_send_now s (next_take s)"
  by (simp_all add: may_data_def)

lemma may_finD: "may_fin s \<Longrightarrow> usable_window s > 0" "may_fin s \<Longrightarrow> outbound s = []"
    "may_fin s \<Longrightarrow> write_shutdown s" "may_fin s \<Longrightarrow> sent_fin s = None"
  by (simp_all add: may_fin_def)

lemma next_take_le: "next_take s \<le> length (outbound s)" "next_take s \<le> cfg_mss (ms_config s)"
    "next_take s \<le> usable_window s"
  by (simp_all add: next_take_def)

lemma send_at_owe_ack [simp]: "send_at w a (s\<lparr>owe_ack := b\<rparr>) = send_at w a s"
  by (rule send_at_fields) (simp add: send_fields_def)

lemma next_segment_send:
  assumes inv: "send_inv w s" and res: "next_segment s = (s', r)"
  shows "send_inv w s'" "ms_config s' = ms_config s"
proof -
  have est: "ms_state s = Established \<Longrightarrow> \<exists>a. send_at w a s"
    using inv by (simp add: send_inv_def)
  from res have "send_inv w s' \<and> ms_config s' = ms_config s"
  proof (cases rule: next_segment_cases)
    case off
    with inv show ?thesis by simp
  next
    case (data g)
    with est obtain a where "send_at w a s" by blast
    from data_segment_send [OF this next_take_le(1) may_dataD(2) [OF data(2)] data(3)] data(1) show ?thesis
      by (auto simp: send_inv_def)
  next
    case (fin g)
    with est obtain a where "send_at w a s" by blast
    from fin_segment_send [OF this may_finD(2-4) [OF fin(2)] fin(3)] fin(1) show ?thesis
      by (auto simp: send_inv_def)
  next
    case ack
    with inv show ?thesis by (simp add: send_inv_def)
  next
    case idle
    with inv show ?thesis by simp
  qed
  then show "send_inv w s'" "ms_config s' = ms_config s" by blast+
qed

lemma carriesI:
  assumes "th_sequence (seg_header g) = base + word_of_nat k" "seg_payload g = take n (drop k w)"
  shows "carries base w g"
proof (cases "k < length w")
  case True
  with assms have "k + length (seg_payload g) \<le> length w"
    "seg_payload g = take (length (seg_payload g)) (drop k w)"
    by (auto simp: min_def)
  with assms(1) show ?thesis unfolding carries_def by blast
next
  case False
  with assms(2) show ?thesis by (simp add: carries_def)
qed

lemma carries_mono: "carries base w g \<Longrightarrow> carries base (w @ v) g"
  by (auto simp: carries_def)

lemma session_step_carries:
  assumes inv: "send_inv w s" and step: "session_step s (L_emit g) s'"
  shows "carries (first_sequence s) w g"
  using step
proof cases
  case step_emit
  then show ?thesis
  proof (cases rule: next_segment_cases)
    case (data g')
    with inv obtain a where "send_at w a s" by (auto simp: send_inv_def)
    from data_segment_send(4,5) [OF this next_take_le(1) may_dataD(2) [OF data(2)] data(3)] data(4) show ?thesis
      by (simp only: option.inject) (rule carriesI)
  qed (auto simp: carries_def fin_segment_def Let_def)
next
  case step_retransmit
  show ?thesis
  proof (cases "seg_payload g = []")
    case True
    then show ?thesis by (simp add: carries_def)
  next
    case False
    with step_retransmit obtain n where est: "ms_state s = Established"
      and u: "unacknowledged s \<noteq> []"
      and g: "seg_payload g = take n (unacknowledged s)" "th_sequence (seg_header g) = snd_una s"
      by (auto simp: retransmit_unacknowledged_def Let_def ack_header_def split: if_splits option.splits)
    from inv est obtain a where "send_at w a s" by (auto simp: send_inv_def)
    note D = send_atD [OF this]
    have "take n (unacknowledged s) = take (min n (length (unacknowledged s))) (drop a w)"
      unfolding D(2) [symmetric] by (simp add: min_def)
    with g D(5) u show ?thesis by (auto intro: carriesI)
  qed
next
  case step_close
  then show ?thesis by (auto simp: MuxSession_close_def carries_def)
qed

lemma send_inv_fields:
  assumes eq: "send_fields s' = send_fields s" and "fresh s \<Longrightarrow> fresh s'" and "send_inv w s"
  shows "send_inv w s' \<and> ms_config s' = ms_config s"
proof -
  from eq have st: "ms_state s' = ms_state s" and cfg: "ms_config s' = ms_config s"
    by (simp_all add: send_fields_def)
  from assms(2,3) have "send_inv w s'"
    unfolding send_inv_def st send_at_fields [OF eq] by (auto split: SessionState.splits)
  with cfg show ?thesis by simp
qed

lemma queue_send:
  assumes inv: "send_inv w s" and can: "can_write s" and room: "buffered s + length data < BUFFER_LIMIT"
  shows "send_inv (w @ data) (MuxSession_queue s data)"
proof -
  let ?s = "MuxSession_queue s data"
  from inv can obtain a where "send_at w a s" by (auto simp: send_inv_def can_write_def)
  note D = send_atD [OF this]
  have nf: "sent_fin s = None" using D(6) can by (cases "sent_fin s") (auto simp: can_write_def)
  have "unacknowledged s @ outbound s @ data = drop a (w @ data)"
    using D(1,2) by (simp flip: append_assoc)
  moreover have "first_sequence ?s = first_sequence s" "fin_len ?s = fin_len s"
    by (simp_all add: MuxSession_queue_def first_sequence_def fin_len_def)
  ultimately have "send_at (w @ data) a ?s"
    using D(1,3,4,5) nf room by (intro send_atI) (simp_all add: MuxSession_queue_def buffered_def)
  moreover have "ms_state ?s = Established" using can by (simp add: MuxSession_queue_def can_write_def)
  ultimately show ?thesis by (auto simp: send_inv_def)
qed

lemma take_received_fields:
  "send_fields (fst (MuxSession_take_received s out)) = send_fields s"
  "fresh s \<Longrightarrow> fresh (fst (MuxSession_take_received s out))"
  by (simp_all add: MuxSession_take_received_def Let_def send_fields_def fresh_def)

lemma probe_window_fields:
  "send_fields (fst (MuxSession_probe_window s)) = send_fields s"
  "fresh s \<Longrightarrow> fresh (fst (MuxSession_probe_window s))"
  by (simp_all add: MuxSession_probe_window_def send_fields_def fresh_def)

lemma request_ack_fields: "send_fields (request_ack s) = send_fields s" "fresh s \<Longrightarrow> fresh (request_ack s)"
  by (simp_all add: request_ack_def send_fields_def fresh_def)

lemma shutdown_write_send:
  assumes "send_inv w s" "MuxSession_shutdown_write s = Inr s'"
  shows "send_inv w s' \<and> ms_config s' = ms_config s"
proof -
  from assms(2) have est: "ms_state s = Established" and s': "s' = s\<lparr>write_shutdown := True\<rparr>"
    by (simp_all add: MuxSession_shutdown_write_def split: if_splits)
  with assms(1) obtain a where "send_at w a s" by (auto simp: send_inv_def)
  then have "send_at w a s'" by (rule send_at_cong [rotated -1]) (simp_all add: s')
  with est s' show ?thesis by (auto simp: send_inv_def)
qed

lemma session_step_send:
  assumes inv: "send_inv w s" and step: "session_step s l s'"
  shows "send_inv (w @ written1 l) s' \<and> ms_config s' = ms_config s"
  using step
proof cases
  case (step_queue data)
  with queue_send [OF inv] show ?thesis by (simp add: MuxSession_queue_def)
next
  case (step_segment h p r)
  with on_segment_send [OF inv step_segment(2)] on_segment_config [OF step_segment(2)] show ?thesis by simp
next
  case (step_emit g)
  with next_segment_send [OF inv step_emit(2)] show ?thesis by simp
next
  case step_idle
  with next_segment_send [OF inv step_idle(2)] show ?thesis by simp
next
  case (step_retransmit g)
  with inv show ?thesis by simp
next
  case (step_take out out' n)
  with send_inv_fields [OF take_received_fields inv, of out] show ?thesis by simp
next
  case step_request_ack
  with send_inv_fields [OF request_ack_fields inv] show ?thesis by simp
next
  case (step_probe b)
  with send_inv_fields [OF probe_window_fields inv] show ?thesis by simp
next
  case step_shutdown
  with shutdown_write_send [OF inv] show ?thesis by simp
next
  case (step_close g)
  then show ?thesis by (auto simp: MuxSession_close_def send_inv_def)
qed

end
