(* ===== verification/Session_Run.thy ===== *)
theory Session_Run imports Session_Safety begin

text \<open>
  The receive half of a usbmux session, the run invariant, and the properties of
  \<^verbatim>\<open>usbmux/session.rs\<close> stated over whole runs: whatever the interleaving of writes, arriving
  segments, emissions and reads, the stream that leaves is the one that was written and the
  stream that is read is the one that was accepted, in order.
\<close>

section \<open>An example session\<close>

text \<open>
  A whole conversation whose initial sequence number wraps at once: the handshake, six bytes
  written and sent in two segments of at most four, two bytes received and read, and an
  orderly close from both ends.
\<close>

definition ex_config :: SessionConfig where
  "ex_config = \<lparr>cfg_local_port = 49152, cfg_remote_port = 62078, cfg_initial_sequence = - 2,
     cfg_mss = 4, cfg_receive_window = 1000\<rparr>"

definition ex_header :: "u32 \<Rightarrow> u32 \<Rightarrow> u8 \<Rightarrow> TcpHeader" where
  "ex_header sequence acknowledgement flags =
     \<lparr>th_source_port = 62078, th_destination_port = 49152, th_sequence = sequence,
      th_acknowledgement = acknowledgement, th_flags = flags, th_window = 256\<rparr>"

definition "ex_s0 = fst (MuxSession_open ex_config)"
definition "ex_syn = snd (MuxSession_open ex_config)"
definition "ex_s1 = fst (on_segment ex_s0 (ex_header 1000 (- 1) (SYN OR ACK)) [])"
definition "ex_s2 = MuxSession_queue ex_s1 [1, 2, 3, 4, 5, 6]"
definition "ex_s3 = fst (next_segment ex_s2)"
definition "ex_g3 = the (snd (next_segment ex_s2))"
definition "ex_s4 = fst (on_segment ex_s3 (ex_header 1001 3 ACK) [9, 8])"
definition "ex_s5 = fst (MuxSession_take_received ex_s4 [0, 0, 0])"
definition "ex_s6 = fst (next_segment ex_s5)"
definition "ex_g6 = the (snd (next_segment ex_s5))"
definition "ex_s7 = (case MuxSession_shutdown_write ex_s6 of Inr s \<Rightarrow> s)"
definition "ex_s8 = fst (next_segment ex_s7)"
definition "ex_g8 = the (snd (next_segment ex_s7))"
definition "ex_s9 = fst (on_segment ex_s8 (ex_header 1003 6 (FIN OR ACK)) [])"

definition ex_labels :: "session_label list" where
  "ex_labels = [L_emit ex_syn, L_input (ex_header 1000 (- 1) (SYN OR ACK)) [] (Inr EvEstablished),
     L_write [1, 2, 3, 4, 5, 6], L_emit ex_g3, L_input (ex_header 1001 3 ACK) [9, 8] (Inr (EvData 2)),
     L_read [9, 8], L_emit ex_g6, L_quiet, L_emit ex_g8,
     L_input (ex_header 1003 6 (FIN OR ACK)) [] (Inr (EvData 0))]"

section \<open>The receive half\<close>

lemma accept_payload_recv:
  assumes "accept_payload s h p = (s', ev)"
  shows "recv_effect s h p s' ev" "ev \<noteq> EvEstablished"
  using assms
  by (auto simp: accept_payload_def recv_effect_def recv_fields_def fin_bit_def Let_def split: if_splits)

lemma recv_effect_fields:
  assumes "recv_effect t h p s' ev" "recv_fields t = recv_fields s"
  shows "recv_effect s h p s' ev"
  using assms by (simp add: recv_effect_def recv_fields_def split: SessionEvent.splits)

lemma on_established_recv:
  assumes res: "on_established s h p = (s', r)"
  shows "case r of Inl e \<Rightarrow> s' = s | Inr ev \<Rightarrow> recv_effect s h p s' ev"
    and "r \<noteq> Inr EvEstablished" and "r = Inr (EvData n) \<Longrightarrow> ms_state s' = ms_state s"
proof -
  have "(case r of Inl e \<Rightarrow> s' = s | Inr ev \<Rightarrow> recv_effect s h p s' ev) \<and> r \<noteq> Inr EvEstablished
    \<and> (r = Inr (EvData n) \<longrightarrow> ms_state s' = ms_state s)"
  proof (cases "\<not> is_bare_ack h \<and> \<not> is_fin h")
    case True
    with res show ?thesis by (auto simp: on_established_def recv_effect_def recv_fields_def)
  next
    case ok: False
    show ?thesis
    proof (cases "apply_ack s h")
      case (Inl e)
      with res ok show ?thesis by (auto simp: on_established_def)
    next
      case (Inr s1)
      with res ok obtain ev where acc: "accept_payload (apply_window s1 h) h p = (s', ev)" and r: "r = Inr ev"
        by (auto simp: on_established_def split: prod.splits)
      have "recv_fields (apply_window s1 h) = recv_fields s"
        using apply_ack_keeps [OF Inr] by (simp add: recv_fields_def apply_window_keeps)
      with accept_payload_recv [OF acc] accept_payload_keeps(2) [OF acc] apply_ack_keeps [OF Inr] r
      show ?thesis by (auto simp: apply_window_keeps intro: recv_effect_fields)
    qed
  qed
  then show "case r of Inl e \<Rightarrow> s' = s | Inr ev \<Rightarrow> recv_effect s h p s' ev" "r \<noteq> Inr EvEstablished"
    "r = Inr (EvData n) \<Longrightarrow> ms_state s' = ms_state s" by blast+
qed

lemma on_segment_cases:
  assumes "on_segment s h p = (s', r)"
  obtains (data) n where "r = Inr (EvData n)" "ms_state s = Established" "ms_state s' = Established"
      "recv_effect s h p s' (EvData n)"
  | (established) "r = Inr EvEstablished" "ms_state s = SynSent" "ms_state s' = Established"
      "rcv_nxt s' = th_sequence h + 1" "inbound s' = inbound s" "peer_fin s' = peer_fin s"
  | (other) "\<And>n. r \<noteq> Inr (EvData n)" "r \<noteq> Inr EvEstablished"
      "ms_state s' = ms_state s \<or> ms_state s' = Closed" "recv_fields s' = recv_fields s"
proof -
  let ?t = "s\<lparr>segments_in := sat_add (segments_in s) 1\<rparr>"
  consider (reset) "is_reset h" | (closed) "\<not> is_reset h" "ms_state s = Closed"
    | (syn) "\<not> is_reset h" "ms_state s = SynSent" | (est) "\<not> is_reset h" "ms_state s = Established"
    by (cases "ms_state s") auto
  then show thesis
  proof cases
    case reset
    with assms show thesis by (intro other) (auto simp: on_segment_def Let_def recv_fields_def)
  next
    case closed
    with assms show thesis by (intro other) (auto simp: on_segment_def Let_def recv_fields_def)
  next
    case syn
    with assms have ack: "on_syn_ack ?t h = (s', r)" by (simp add: on_segment_def)
    show thesis
    proof (cases "r = Inr EvEstablished")
      case True
      with ack syn show thesis
        by (intro established) (auto simp: on_syn_ack_def Let_def split: if_splits)
    next
      case False
      with ack syn show thesis
        by (intro other) (auto simp: on_syn_ack_def Let_def recv_fields_def split: if_splits)
    qed
  next
    case est
    with assms have on: "on_established ?t h p = (s', r)" by (simp add: on_segment_def)
    have t: "recv_fields ?t = recv_fields s" by (simp add: recv_fields_def)
    show thesis
    proof (cases "\<exists>n. r = Inr (EvData n)")
      case True
      then obtain n where n: "r = Inr (EvData n)" by blast
      with on_established_recv [OF on] est t show thesis
        by (intro data [OF n]) (auto intro: recv_effect_fields)
    next
      case False
      have "recv_fields s' = recv_fields s"
        using on_established_recv(1) [OF on] False t
        by (auto simp: recv_effect_def split: sum.splits SessionEvent.splits)
      moreover have "ms_state s' = Established \<or> ms_state s' = Closed"
        using on_established_config(2) [OF on] est by (cases "ms_state s'") auto
      ultimately show thesis
        using False on_established_recv(2) [OF on] est by (intro other) auto
    qed
  qed
qed

section \<open>Histories and runs\<close>

lemma history_snoc [simp]:
  "written (ls @ [l]) = written ls @ written1 l"
  "accepted (ls @ [l]) = accepted ls @ accepted1 l"
  "read_out (ls @ [l]) = read_out ls @ read1 l"
  "device_isns (ls @ [l]) = device_isns ls @ isn1 l"
  "peer_finished (ls @ [l]) \<longleftrightarrow> peer_finished ls \<or> accepts_fin l"
  by (simp_all add: written_def accepted_def read_out_def device_isns_def peer_finished_def)

lemma recv_quiet_labels [simp]:
  "recv_quiet (L_write d)" "recv_quiet (L_emit g)" "recv_quiet L_quiet"
  by (simp_all add: recv_quiet_def)

lemma recv_quiet_input:
  "(\<And>n. r \<noteq> Inr (EvData n)) \<Longrightarrow> r \<noteq> Inr EvEstablished \<Longrightarrow> recv_quiet (L_input h p r)"
  by (cases "L_input h p r" rule: accepted1.cases; cases "L_input h p r" rule: isn1.cases)
    (auto simp: recv_quiet_def)

lemma recv_inv_quiet:
  assumes "recv_inv ls s" "recv_quiet l" "recv_fields s' = recv_fields s"
    and "ms_state s' = ms_state s \<or> ms_state s' = Closed"
  shows "recv_inv (ls @ [l]) s'"
  using assms by (cases "ms_state s") (auto simp: recv_inv_def recv_quiet_def recv_fields_def)

lemma next_segment_recv: "recv_fields (fst (next_segment s)) = recv_fields s"
    "ms_state (fst (next_segment s)) = ms_state s"
  by (simp_all add: next_segment_def data_segment_def fin_segment_def take_outbound_def recv_fields_def
      Let_def)

lemma quiet_ops_recv:
  "recv_fields (MuxSession_queue s d) = recv_fields s" "ms_state (MuxSession_queue s d) = ms_state s"
  "recv_fields (request_ack s) = recv_fields s" "ms_state (request_ack s) = ms_state s"
  "recv_fields (fst (MuxSession_probe_window s)) = recv_fields s"
  "ms_state (fst (MuxSession_probe_window s)) = ms_state s"
  by (simp_all add: MuxSession_queue_def request_ack_def MuxSession_probe_window_def recv_fields_def)

lemma on_segment_recv_inv:
  assumes inv: "recv_inv ls s" and res: "on_segment s h p = (s', r)"
  shows "recv_inv (ls @ [L_input h p r]) s'"
  using res
proof (cases rule: on_segment_cases)
  case (data n)
  with inv show ?thesis
    by (auto simp: recv_inv_def recv_effect_def fin_bit_def add.assoc add.commute add.left_commute)
next
  case established
  with inv show ?thesis by (auto simp: recv_inv_def fin_bit_def)
next
  case other
  with inv show ?thesis by (intro recv_inv_quiet [OF inv recv_quiet_input]) auto
qed

lemma take_received_recv_inv:
  assumes inv: "recv_inv ls s" and res: "MuxSession_take_received s out = (s', out', n)"
  shows "recv_inv (ls @ [L_read (take n out')]) s'"
proof -
  from res have s': "s' = s\<lparr>inbound := drop n (inbound s)\<rparr>" and n: "n \<le> length (inbound s)" "n \<le> length out"
    and out': "out' = put out 0 (take n (inbound s))"
    by (auto simp: MuxSession_take_received_def Let_def)
  from n out' have "take n out' = take n (inbound s)" by (simp add: put_def)
  with inv s' show ?thesis
    by (cases "ms_state s") (auto simp: recv_inv_def)
qed

lemma session_step_recv:
  assumes inv: "recv_inv ls s" and step: "session_step s l s'"
  shows "recv_inv (ls @ [l]) s'"
  using step
proof cases
  case (step_queue data)
  then show ?thesis by (auto intro: recv_inv_quiet [OF inv] simp: quiet_ops_recv)
next
  case (step_segment h p r)
  then show ?thesis using on_segment_recv_inv [OF inv] by simp
next
  case (step_emit g)
  then show ?thesis using next_segment_recv [of s] by (auto intro: recv_inv_quiet [OF inv])
next
  case step_idle
  then show ?thesis using next_segment_recv [of s] by (auto intro: recv_inv_quiet [OF inv])
next
  case (step_retransmit g)
  then show ?thesis by (auto intro: recv_inv_quiet [OF inv])
next
  case (step_take out out' n)
  then show ?thesis using take_received_recv_inv [OF inv] by simp
next
  case step_request_ack
  then show ?thesis by (auto intro: recv_inv_quiet [OF inv] simp: quiet_ops_recv)
next
  case (step_probe b)
  then show ?thesis using quiet_ops_recv(5,6) [of s] by (auto intro: recv_inv_quiet [OF inv])
next
  case step_shutdown
  then show ?thesis
    by (auto intro!: recv_inv_quiet [OF inv] simp: MuxSession_shutdown_write_def recv_fields_def
        split: if_splits)
next
  case (step_close g)
  then show ?thesis
    by (auto intro!: recv_inv_quiet [OF inv] simp: MuxSession_close_def recv_fields_def)
qed

lemma session_run_inv:
  assumes "session_run config ls s"
  shows "send_inv (written ls) s \<and> recv_inv ls s \<and> ms_config s = config"
  using assms
proof induction
  case (run_open s syn)
  then show ?case
    by (auto simp: MuxSession_open_def send_inv_def recv_inv_def fresh_def written_def accepted_def
        read_out_def device_isns_def peer_finished_def)
next
  case (run_step ls s l s')
  then show ?case using session_step_send session_step_recv by auto
qed

inductive_cases session_run_snocE: "session_run config (ls @ [l]) s"

lemma session_run_snoc_step:
  assumes "session_run config (ls @ [l]) s"
  obtains (first) "ls = []" "MuxSession_open config = (s, snd (MuxSession_open config))"
      "l = L_emit (snd (MuxSession_open config))"
  | (step) s0 where "session_run config ls s0" "session_step s0 l s"
  using assms by (rule session_run_snocE) auto

lemma word_of_nat_small_0: "(word_of_nat k :: u32) = 0 \<Longrightarrow> k < 2 ^ 32 \<Longrightarrow> k = 0"
  by (auto simp: word_of_nat_eq_0_iff dest: dvd_imp_le)

lemma small_word: "k < 2 ^ 31 \<Longrightarrow> sint (word_of_nat k :: u32) = int k"
  "k < 2 ^ 31 \<Longrightarrow> unat (word_of_nat k :: u32) = k"
proof -
  assume k: "k < 2 ^ 31"
  then show "sint (word_of_nat k :: u32) = int k"
    using sint_of_small [of "int k"] by simp
  from k show "unat (word_of_nat k :: u32) = k"
    by (simp add: unsigned_of_nat take_bit_nat_eq_self)
qed

lemma snd_nxt_past_una:
  assumes "send_at w a s" "snd_una s = snd_nxt s" "sent_fin s \<noteq> None"
  shows "unacknowledged s = []"
proof (rule ccontr)
  assume ne: "unacknowledged s \<noteq> []"
  obtain k where k: "length (unacknowledged s) + 1 = k" by simp
  note D = send_atD [OF assms(1)]
  have "first_sequence s + word_of_nat a + word_of_nat k = first_sequence s + word_of_nat a"
    using D(4,5) assms(2,3) ne unfolding k [symmetric] by (auto simp: fin_len_def ac_simps)
  then have "(word_of_nat k :: u32) = 0" by simp
  moreover have "k < 2 ^ 32" using D(3) k by (simp add: buffered_def BUFFER_LIMIT_def)
  ultimately have "k = 0" by (rule word_of_nat_small_0)
  with k show False by simp
qed

lemma usable_window_after:
  assumes "n \<le> usable_window s" "snd_nxt s' = snd_nxt s + word_of_nat n" "snd_wnd_edge s' = snd_wnd_edge s"
  shows "usable_window s' = usable_window s - n"
proof (cases "n = 0")
  case False
  let ?room = "snd_wnd_edge s - snd_nxt s"
  from assms(1) False have pos: "sint ?room > 0" by (auto simp: usable_window_def Let_def split: if_splits)
  from sint_positive [OF pos] obtain m where m: "?room = word_of_nat m" "unat ?room = m" "m < 2 ^ 31" by blast
  from assms(1) pos m have nm: "n \<le> m" "usable_window s = m" by (simp_all add: usable_window_def)
  have "snd_wnd_edge s' - snd_nxt s' = ?room - word_of_nat n"
    unfolding assms(2,3) by simp
  also have "\<dots> = word_of_nat (m - n)" unfolding m(1) using nm by simp
  finally have room: "snd_wnd_edge s' - snd_nxt s' = word_of_nat (m - n)" .
  have "m - n < 2 ^ 31" using m(3) by simp
  note sm = small_word [OF this]
  have "usable_window s' = m - n" unfolding usable_window_def room Let_def sm by simp
  with nm(2) show ?thesis by simp
qed (use assms in \<open>simp add: usable_window_def\<close>)

lemma session_run_carries:
  assumes "session_run config (ls @ [L_emit g]) s"
  shows "carries (cfg_initial_sequence config + 1) (written ls) g"
  using assms
proof (cases rule: session_run_snoc_step)
  case first
  then show ?thesis by (simp add: MuxSession_open_def carries_def)
next
  case (step s0)
  with session_step_carries [OF _ step(2)] session_run_inv [OF step(1)] show ?thesis
    by (simp add: first_sequence_def)
qed

lemma closed_ops:
  assumes "ms_state s = Closed"
  shows "next_segment s = (s, None)" "retransmit_unacknowledged s = None" "request_ack s = s"
    "MuxSession_probe_window s = (s, False)" "MuxSession_shutdown_write s = Inl SessClosed"
    "\<not> can_write s"
  using assms by (simp_all add: next_segment_def retransmit_unacknowledged_def request_ack_def
      MuxSession_probe_window_def MuxSession_shutdown_write_def can_write_def)

section \<open>The example session runs\<close>

lemma ex_steps:
  "MuxSession_open ex_config = (ex_s0, ex_syn)"
  "on_segment ex_s0 (ex_header 1000 (- 1) (SYN OR ACK)) [] = (ex_s1, Inr EvEstablished)"
  "can_write ex_s1" "buffered ex_s1 = 0"
  "next_segment ex_s2 = (ex_s3, Some ex_g3)"
  "on_segment ex_s3 (ex_header 1001 3 ACK) [9, 8] = (ex_s4, Inr (EvData 2))"
  "MuxSession_take_received ex_s4 [0, 0, 0] = (ex_s5, [9, 8, 0], 2)"
  "next_segment ex_s5 = (ex_s6, Some ex_g6)"
  "MuxSession_shutdown_write ex_s6 = Inr ex_s7"
  "next_segment ex_s7 = (ex_s8, Some ex_g8)"
  "on_segment ex_s8 (ex_header 1003 6 (FIN OR ACK)) [] = (ex_s9, Inr (EvData 0))"
  by code_simp+

lemma ex_facts:
  "seg_payload ex_g3 = [1, 2, 3, 4]" "seg_payload ex_g6 = [5, 6]" "ms_state ex_s6 = Established"
  "orderly_closed ex_s9" "ms_state ex_s1 = Established" "owe_ack ex_s1"
  by code_simp+

lemma ex_runs:
  "session_run ex_config (take 4 ex_labels) ex_s3"
  "session_run ex_config (take 5 ex_labels) ex_s4"
  "session_run ex_config (take 7 ex_labels) ex_s6"
  "session_run ex_config ex_labels ex_s9"
proof -
  note mono = run_step [where config = ex_config]
  have "session_run ex_config [L_emit ex_syn] ex_s0"
    by (rule run_open) (rule ex_steps)
  note mono [OF this step_segment [OF ex_steps(2)]]
  note mono [OF this step_queue [OF ex_steps(3)], of "[1, 2, 3, 4, 5, 6]"]
  then have "session_run ex_config (take 3 ex_labels) ex_s2"
    by (simp add: ex_steps(4) BUFFER_LIMIT_def ex_labels_def flip: ex_s2_def)
  note mono [OF this step_emit [OF ex_steps(5)]]
  then show 3: "session_run ex_config (take 4 ex_labels) ex_s3" by (simp add: ex_labels_def)
  note mono [OF 3 step_segment [OF ex_steps(6)]]
  then show 4: "session_run ex_config (take 5 ex_labels) ex_s4" by (simp add: ex_labels_def)
  note mono [OF 4 step_take [OF ex_steps(7)]]
  note mono [OF this step_emit [OF ex_steps(8)]]
  then show 6: "session_run ex_config (take 7 ex_labels) ex_s6" by (simp add: ex_labels_def)
  note mono [OF 6 step_shutdown [OF ex_steps(9)]]
  note mono [OF this step_emit [OF ex_steps(10)]]
  note mono [OF this step_segment [OF ex_steps(11)]]
  then show "session_run ex_config ex_labels ex_s9" by (simp add: ex_labels_def)
qed
section \<open>Properties\<close>

text \<open>
  Claim C1. Whatever the interleaving of writes, arriving segments, reads, retransmissions and
  emissions, a segment that leaves with a payload (first transmission or retransmission) carries
  bytes of the written stream, and its sequence number is the place those bytes have in it,
  counted from the initial sequence number and modulo the 32-bit wrap.
\<close>

theorem session_sends_written_stream:
  assumes "session_run config (ls @ [L_emit g]) s" "seg_payload g \<noteq> []"
  shows "\<exists>k. th_sequence (seg_header g) = cfg_initial_sequence config + 1 + word_of_nat k
    \<and> k + length (seg_payload g) \<le> length (written ls)
    \<and> seg_payload g = take (length (seg_payload g)) (drop k (written ls))"
  using session_run_carries [OF assms(1)] assms(2) by (simp add: carries_def)

theorem session_sends_written_stream_witness:
  "\<exists>k. th_sequence (seg_header ex_g3) = cfg_initial_sequence ex_config + 1 + word_of_nat k
     \<and> k + length (seg_payload ex_g3) \<le> length (written (take 3 ex_labels))
     \<and> seg_payload ex_g3 = take (length (seg_payload ex_g3)) (drop k (written (take 3 ex_labels)))"
proof (rule session_sends_written_stream)
  show "session_run ex_config (take 3 ex_labels @ [L_emit ex_g3]) ex_s3"
    using ex_runs(1) by (simp add: ex_labels_def)
qed (simp add: ex_facts)

text \<open>
  Claim C2. No byte written to an established session is lost or duplicated: the written stream is
  an acknowledged prefix, then the retransmission queue, then the bytes not yet sent, and
  \<open>snd_una\<close> and \<open>snd_nxt\<close> are the sequence numbers of those two boundaries (with one number for a
  FIN that has been sent).
\<close>

theorem session_nothing_lost:
  assumes "session_run config ls s" "ms_state s = Established"
  shows "\<exists>acked. written ls = acked @ unacknowledged s @ outbound s
    \<and> snd_nxt s = cfg_initial_sequence config + 1
        + word_of_nat (length acked + length (unacknowledged s) + fin_len s)
    \<and> (snd_una s = cfg_initial_sequence config + 1 + word_of_nat (length acked) \<or>
        sent_fin s \<noteq> None \<and> unacknowledged s @ outbound s = [] \<and> snd_una s = snd_nxt s)"
proof -
  from session_run_inv [OF assms(1)] assms(2) obtain a where inv: "send_at (written ls) a s"
    and cfg: "ms_config s = config" by (auto simp: send_inv_def)
  note D = send_atD [OF inv]
  have "outbound s = []" if "sent_fin s \<noteq> None" using D(6) that by auto
  with D(1,2,4,5) cfg show ?thesis
    by (intro exI [of _ "take a (written ls)"]) (auto simp: first_sequence_def)
qed

theorem session_nothing_lost_witness:
  "\<exists>acked. written (take 7 ex_labels) = acked @ unacknowledged ex_s6 @ outbound ex_s6
    \<and> snd_nxt ex_s6 = cfg_initial_sequence ex_config + 1
        + word_of_nat (length acked + length (unacknowledged ex_s6) + fin_len ex_s6)
    \<and> (snd_una ex_s6 = cfg_initial_sequence ex_config + 1 + word_of_nat (length acked) \<or>
        sent_fin ex_s6 \<noteq> None \<and> unacknowledged ex_s6 @ outbound ex_s6 = [] \<and> snd_una ex_s6 = snd_nxt ex_s6)"
  using session_nothing_lost [OF ex_runs(3) ex_facts(3)] .

text \<open>
  Claim C3. A payload is accepted only in order: the accepted segment starts exactly behind the
  bytes accepted before it, counted from the device's initial sequence number, the reported
  length is the payload's, and nothing is accepted behind the device's FIN. So no duplicate and no
  segment past a gap ever enters the receive buffer.
\<close>

theorem session_receives_in_order:
  assumes "session_run config (ls @ [L_input h p (Inr (EvData n))]) s"
  shows "n = length p \<and> \<not> peer_finished ls \<and>
    (\<exists>irs. device_isns ls = [irs] \<and> th_sequence h = irs + 1 + word_of_nat (length (accepted ls)))"
  using assms
proof (cases rule: session_run_snoc_step)
  case (step s0)
  from step(2) have "on_segment s0 h p = (s, Inr (EvData n))" by cases
  then show ?thesis
  proof (cases rule: on_segment_cases)
    case (data m)
    with session_run_inv [OF step(1)] show ?thesis
      by (auto simp: recv_inv_def recv_effect_def fin_bit_def)
  qed auto
qed simp

theorem session_receives_in_order_witness:
  "2 = length [9, 8 :: u8] \<and> \<not> peer_finished (take 4 ex_labels) \<and>
    (\<exists>irs. device_isns (take 4 ex_labels) = [irs]
       \<and> th_sequence (ex_header 1001 3 ACK) = irs + 1 + word_of_nat (length (accepted (take 4 ex_labels))))"
proof (rule session_receives_in_order)
  show "session_run ex_config (take 4 ex_labels @ [L_input (ex_header 1001 3 ACK) [9, 8] (Inr (EvData 2))]) ex_s4"
    using ex_runs(2) by (simp add: ex_labels_def)
qed

text \<open>
  Claim C6. What the caller has read so far, followed by what still sits in the receive buffer, is
  exactly the accepted stream.
\<close>

theorem session_reads_accepted_stream:
  assumes "session_run config ls s"
  shows "accepted ls = read_out ls @ inbound s"
  using session_run_inv [OF assms] by (simp add: recv_inv_def)

theorem session_reads_accepted_stream_witness:
  "accepted (take 7 ex_labels) = read_out (take 7 ex_labels) @ inbound ex_s6"
  by (rule session_reads_accepted_stream [OF ex_runs(3)])

text \<open>
  Claim C5. A fresh data segment respects the device: it is the front of the outbound queue, at
  most one maximum segment and at most the usable window, it is kept for retransmission, and
  the usable window shrinks by exactly its length, so a burst of emissions can never overrun the
  advertised edge.
\<close>

theorem session_fresh_data_fits_window:
  assumes "next_segment s = (s', Some g)" "seg_payload g \<noteq> []"
  shows "seg_payload g = take (length (seg_payload g)) (outbound s)
    \<and> outbound s' = drop (length (seg_payload g)) (outbound s)
    \<and> unacknowledged s' = unacknowledged s @ seg_payload g
    \<and> length (seg_payload g) \<le> cfg_mss (ms_config s)
    \<and> length (seg_payload g) \<le> usable_window s
    \<and> usable_window s' = usable_window s - length (seg_payload g)
    \<and> th_sequence (seg_header g) = snd_nxt s
    \<and> snd_nxt s' = snd_nxt s + word_of_nat (length (seg_payload g))"
  using assms(1)
proof (cases rule: next_segment_cases)
  case (data g')
  have len: "length (take (next_take s) (outbound s)) = next_take s" using next_take_le(1) [of s] by simp
  from data have "seg_payload g = take (next_take s) (outbound s)" "th_sequence (seg_header g) = snd_nxt s"
    "outbound s' = drop (next_take s) (outbound s)" 
    "unacknowledged s' = unacknowledged s @ take (next_take s) (outbound s)"
    "snd_nxt s' = snd_nxt s + word_of_nat (next_take s)" "snd_wnd_edge s' = snd_wnd_edge s"
    by (auto simp: data_segment_def take_outbound_def ack_header_def Let_def)
  with next_take_le [of s] len show ?thesis
    using usable_window_after [of "next_take s" s s'] by simp
qed (use assms(2) in \<open>auto simp: fin_segment_def Let_def\<close>)

theorem session_fresh_data_fits_window_witness:
  "seg_payload ex_g3 = take (length (seg_payload ex_g3)) (outbound ex_s2)
    \<and> outbound ex_s3 = drop (length (seg_payload ex_g3)) (outbound ex_s2)
    \<and> unacknowledged ex_s3 = unacknowledged ex_s2 @ seg_payload ex_g3
    \<and> length (seg_payload ex_g3) \<le> cfg_mss (ms_config ex_s2)
    \<and> length (seg_payload ex_g3) \<le> usable_window ex_s2
    \<and> usable_window ex_s3 = usable_window ex_s2 - length (seg_payload ex_g3)
    \<and> th_sequence (seg_header ex_g3) = snd_nxt ex_s2
    \<and> snd_nxt ex_s3 = snd_nxt ex_s2 + word_of_nat (length (seg_payload ex_g3))"
  by (rule session_fresh_data_fits_window [OF ex_steps(5)]) (simp add: ex_facts)

text \<open>
  Claim C4. An orderly close is complete: when the session reports it, nothing written is still
  queued or unacknowledged, the device has acknowledged the whole stream and the FIN behind it,
  the device's own FIN has been accepted and everything it sent has been read.
\<close>

theorem session_orderly_close_complete:
  assumes "session_run config ls s" "orderly_closed s"
  shows "unacknowledged s = [] \<and> outbound s = [] \<and> read_out ls = accepted ls \<and> peer_finished ls
    \<and> snd_una s = cfg_initial_sequence config + 1 + word_of_nat (length (written ls)) + 1"
proof -
  from assms(2) have est: "ms_state s = Established" and eof: "inbound s = []" "peer_fin s \<noteq> None"
    and fin: "sent_fin s \<noteq> None" "snd_una s = snd_nxt s"
    by (auto simp: orderly_closed_def MuxSession_received_eof_def)
  from session_run_inv [OF assms(1)] est obtain a where inv: "send_at (written ls) a s"
    and cfg: "ms_config s = config" and recv: "recv_inv ls s" by (auto simp: send_inv_def)
  note D = send_atD [OF inv]
  from snd_nxt_past_una [OF inv fin(2,1)] have u: "unacknowledged s = []" .
  moreover have out: "outbound s = []" using D(6) fin by auto
  moreover have "a = length (written ls)" using D(1,7) u out by simp
  ultimately show ?thesis
    using recv est eof fin D(4) cfg by (auto simp: recv_inv_def first_sequence_def fin_len_def)
qed

theorem session_orderly_close_complete_witness:
  "unacknowledged ex_s9 = [] \<and> outbound ex_s9 = [] \<and> read_out ex_labels = accepted ex_labels
    \<and> peer_finished ex_labels
    \<and> snd_una ex_s9 = cfg_initial_sequence ex_config + 1 + word_of_nat (length (written ex_labels)) + 1"
  by (rule session_orderly_close_complete [OF ex_runs(4) ex_facts(4)])

text \<open>
  Claim C7. An owed acknowledgement always leaves with the next segment, alone or on data or a FIN:
  it names the next byte expected and the current receive window, and clears the debt.
\<close>

theorem session_owed_ack_leaves:
  assumes "ms_state s = Established" "owe_ack s"
  shows "\<exists>s' g. next_segment s = (s', Some g) \<and> \<not> owe_ack s'
     \<and> th_flags (seg_header g) AND ACK \<noteq> 0 \<and> th_acknowledgement (seg_header g) = rcv_nxt s
     \<and> th_window (seg_header g) = advertised_window s"
proof -
  obtain s' r where res: "next_segment s = (s', r)" by fastforce
  then have "\<exists>g. r = Some g \<and> \<not> owe_ack s'
     \<and> th_flags (seg_header g) AND ACK \<noteq> 0 \<and> th_acknowledgement (seg_header g) = rcv_nxt s
     \<and> th_window (seg_header g) = advertised_window s"
  proof (cases rule: next_segment_cases)
    case (data g)
    then show ?thesis
      by (auto simp: data_segment_def take_outbound_def ack_header_def advertised_window_def ACK_def Let_def)
  next
    case (fin g)
    then show ?thesis by (auto simp: fin_segment_def ack_header_def ACK_def FIN_def Let_def)
  qed (use assms in \<open>auto simp: ack_header_def advertised_window_def ACK_def Let_def\<close>)
  with res show ?thesis by blast
qed

theorem session_owed_ack_leaves_witness:
  "\<exists>s' g. next_segment ex_s1 = (s', Some g) \<and> \<not> owe_ack s'
     \<and> th_flags (seg_header g) AND ACK \<noteq> 0 \<and> th_acknowledgement (seg_header g) = rcv_nxt ex_s1
     \<and> th_window (seg_header g) = advertised_window ex_s1"
  by (rule session_owed_ack_leaves [OF ex_facts(5,6)])

text \<open>
  Claim C8. A closed session stays closed whatever is done to it: it takes no more writes, accepts
  no payload and sends nothing but resets without payload.
\<close>

theorem session_closed_absorbing:
  assumes "session_step s l s'" "ms_state s = Closed"
  shows "ms_state s' = Closed \<and> written1 l = [] \<and> accepted1 l = []
    \<and> (case l of L_emit g \<Rightarrow> seg_payload g = [] \<and> th_flags (seg_header g) = RST | _ \<Rightarrow> True)"
  using assms
proof cases
  case (step_segment h p r)
  from step_segment(2) show ?thesis
  proof (cases rule: on_segment_cases)
    case other
    with step_segment assms(2) recv_quiet_input [OF other(1,2)] show ?thesis
      by (auto simp: recv_quiet_def)
  qed (use assms in auto)
next
  case (step_take out out' n)
  with assms(2) have "ms_state (fst (MuxSession_take_received s out)) = Closed"
    by (simp add: MuxSession_take_received_def Let_def)
  with step_take show ?thesis by simp
next
  case (step_close g)
  then show ?thesis by (auto simp: MuxSession_close_def)
qed (simp_all add: closed_ops)

theorem session_closed_absorbing_witness:
  "ms_state (fst (MuxSession_close ex_s3)) = Closed \<and> written1 (L_emit (snd (MuxSession_close ex_s3))) = []
    \<and> accepted1 (L_emit (snd (MuxSession_close ex_s3))) = []
    \<and> (case L_emit (snd (MuxSession_close ex_s3)) of
          L_emit g \<Rightarrow> seg_payload g = [] \<and> th_flags (seg_header g) = RST | _ \<Rightarrow> True)"
proof (rule session_closed_absorbing)
  let ?s = "fst (MuxSession_close ex_s3)"
  show closed: "ms_state ?s = Closed" by (simp add: MuxSession_close_def)
  then have "MuxSession_close ?s = (?s, snd (MuxSession_close ex_s3))"
    by (simp add: MuxSession_close_def)
  then show "session_step ?s (L_emit (snd (MuxSession_close ex_s3))) ?s"
    by (rule step_close)
qed

end
