(* ===== verification/Link_Run.thy ===== *)
theory Link_Run imports Link Session_Run begin

text \<open>
  What the mux link guarantees (\<^verbatim>\<open>usbmux/link.rs\<close>): flushing a session ends, packets carry the segments
  of the session they are flushed from, a packet is delivered only in sequence and to one session, and
  every session of a link is at all times a run of the session machine, so that what is proved of
  session runs holds of the sessions of a link.
\<close>

section \<open>Calls and loops\<close>

lemma thenL_simps [simp]:
  "thenL None f = None"
  "thenL (Some (l, Inl e)) f = Some (l, Inl e)"
  "thenL (Some (l, Inr x)) f = f l x"
  by (simp_all add: thenL_def)

lemma thenL_eq_Some:
  "thenL r f = Some (l', z) \<longleftrightarrow> (\<exists>l e. r = Some (l, Inl e) \<and> l' = l \<and> z = Inl e) \<or> (\<exists>l x. r = Some (l, Inr x) \<and> f l x = Some (l', z))"
proof (cases r)
  case (Some p)
  then show ?thesis by (cases p; cases "snd p") auto
qed simp

text \<open>A relation every round respects holds between the ends of a loop that returns.\<close>

lemma loopL_rel:
  assumes refl: "\<And>l. R l l" and trans: "\<And>l1 l2 l3. R l1 l2 \<Longrightarrow> R l2 l3 \<Longrightarrow> R l1 l3"
    and body: "\<And>s l l' x. body s l = Some (l', x) \<Longrightarrow> R l l'"
    and run: "loopL body s l = Some (l', x)"
  shows "R l l'"
proof -
  have "(\<forall>s l l' x. body s l = Some (l', x) \<longrightarrow> R l l') \<longrightarrow> R l (fst (l', x))"
  proof (rule loopL.raw_induct [where P = "\<lambda>body s l y. (\<forall>s l l' x. body s l = Some (l', x) \<longrightarrow> R l l') \<longrightarrow> R l (fst y)",
        OF _ run])
    fix loop body s l y
    assume IH: "\<And>body s l y. loop body s l = Some y \<Longrightarrow> (\<forall>s l l' x. body s l = Some (l', x) \<longrightarrow> R l l') \<longrightarrow> R l (fst y)"
      and step: "Option.bind (body s l) (\<lambda>(l, x). case x of Inl e \<Rightarrow> Some (l, Inl e)
        | Inr (Inl s) \<Rightarrow> loop body s l | Inr (Inr y) \<Rightarrow> Some (l, Inr y)) = Some y"
    show "(\<forall>s l l' x. body s l = Some (l', x) \<longrightarrow> R l l') \<longrightarrow> R l (fst y)"
    proof
      assume b: "\<forall>s l l' x. body s l = Some (l', x) \<longrightarrow> R l l'"
      from step obtain l1 x1 where x: "body s l = Some (l1, x1)"
        and y: "(case x1 of Inl e \<Rightarrow> Some (l1, Inl e) | Inr (Inl s) \<Rightarrow> loop body s l1 | Inr (Inr y) \<Rightarrow> Some (l1, Inr y)) = Some y"
        by (auto simp: bind_eq_Some_conv)
      from x b have "R l l1" by blast
      moreover have "R l1 (fst y)" using y IH [of body _ l1 y] b refl by (cases y) (fastforce split: sum.splits)
      ultimately show "R l (fst y)" by (rule trans)
    qed
  qed
  with body show ?thesis by auto
qed

lemma loopL_unfold:
  "body s l = Some (l', Inl e) \<Longrightarrow> loopL body s l = Some (l', Inl e)"
  "body s l = Some (l', Inr (Inl s')) \<Longrightarrow> loopL body s l = loopL body s' l'"
  "body s l = Some (l', Inr (Inr y)) \<Longrightarrow> loopL body s l = Some (l', Inr y)"
  by (simp_all add: loopL.simps [of body s l])

section \<open>Flushing ends\<close>

text \<open>What a session still has to say: bytes, a FIN, an acknowledgement.\<close>

definition unsaid :: "MuxSession \<Rightarrow> nat" where
  "unsaid s = pending_sequences s + (if owe_ack s then 1 else 0)"

lemma data_segment_fields:
  assumes "data_segment s n = (s', g)"
  shows "outbound s' = drop n (outbound s)" "write_shutdown s' = write_shutdown s" "sent_fin s' = sent_fin s"
    "owe_ack s' = False" "ms_config s' = ms_config s"
  using assms by (auto simp: data_segment_def take_outbound_def Let_def split: if_splits)

lemma fin_segment_fields:
  assumes "fin_segment s = (s', g)"
  shows "outbound s' = outbound s" "write_shutdown s' = write_shutdown s" "sent_fin s' \<noteq> None"
    "owe_ack s' = False" "ms_config s' = ms_config s"
  using assms by (auto simp: fin_segment_def Let_def)

lemma next_segment_says:
  assumes "next_segment s = (s', Some g)" "0 < cfg_mss (ms_config s)"
  shows "unsaid s' < unsaid s" "ms_config s' = ms_config s"
proof -
  have "unsaid s' < unsaid s \<and> ms_config s' = ms_config s"
    using assms(1)
  proof (cases rule: next_segment_cases)
    case (data g)
    then have "0 < usable_window s" "outbound s \<noteq> []" by (simp_all add: may_data_def)
    then have "0 < next_take s" using assms(2) by (simp add: next_take_def)
    with data_segment_fields [OF data(3)] \<open>outbound s \<noteq> []\<close> show ?thesis
      by (auto simp: unsaid_def pending_sequences_def)
  next
    case (fin g)
    then show ?thesis
      using fin_segment_fields [OF fin(3)] may_finD [OF fin(2)] by (simp add: unsaid_def pending_sequences_def)
  next
    case ack
    then show ?thesis by (simp add: unsaid_def pending_sequences_def)
  qed simp_all
  then show "unsaid s' < unsaid s" "ms_config s' = ms_config s" by blast+
qed

section \<open>What an operation leaves alone\<close>

definition same_sessions :: "'w MuxLink \<Rightarrow> 'w MuxLink \<Rightarrow> bool" where
  "same_sessions l l' \<longleftrightarrow> lk_sessions l' = lk_sessions l \<and> lk_version l' = lk_version l \<and> lk_rx_expected l' = lk_rx_expected l
     \<and> lk_in_flush l' = lk_in_flush l"

lemma clock_same: "clock bt l = (l', t) \<Longrightarrow> same_sessions l l' \<and> lk_tx_seq l' = lk_tx_seq l"
  by (auto simp: clock_def same_sessions_def split: prod.splits)

lemma transport_send_same: "transport_send bt packet l = (l', r) \<Longrightarrow> same_sessions l l' \<and> lk_tx_seq l' = lk_tx_seq l"
  by (auto simp: transport_send_def same_sessions_def split: prod.splits)

lemma same_sessions_trans: "same_sessions l l' \<Longrightarrow> same_sessions l' l'' \<Longrightarrow> same_sessions l l''"
  by (simp add: same_sessions_def)

lemma send_packet_same: "send_packet bt protocol payload l = (l', r) \<Longrightarrow> same_sessions l l'"
  using transport_send_same [where bt = bt]
  by (auto simp: send_packet_def bindS_def same_sessions_def Let_def split: option.splits prod.splits sum.splits if_splits)

lemma send_segment_same: "send_segment bt g l = (l', r) \<Longrightarrow> same_sessions l l'"
  by (auto simp: send_segment_def send_packet_same split: option.splits) (simp add: same_sessions_def)

text \<open>The ways a round of a flush ends.\<close>

lemma flush_body_cases:
  assumes "flush_body bt p l = (l', r)"
  obtains (stop) "l' = l" "r = Inr (Inr ())"
  | (idle) s s' where "lk_sessions l p = Some s" "next_segment s = (s', None)" "l' = set_session p s' l" "r = Inr (Inr ())"
  | (failed) s s' g l1 t e where "lk_sessions l p = Some s" "next_segment s = (s', Some g)"
      "clock bt (set_session p s' l) = (l1, t)" "send_segment bt g l1 = (l', Inl e)" "r = Inl e"
  | (sent) s s' g l1 t l2 l3 t' where "lk_sessions l p = Some s" "next_segment s = (s', Some g)"
      "clock bt (set_session p s' l) = (l1, t)" "send_segment bt g l1 = (l2, Inr ())" "r = Inr (Inl ())"
      "clock bt l2 = (l3, t')" "(seg_payload g = [] \<and> l' = l2) \<or> (\<exists>m. l' = l3\<lparr>lk_roundtrip := m\<rparr>)"
proof (cases "bt_send_capacity bt (lk_transport l) = Some False \<or> lk_sessions l p = None")
  case True
  then show ?thesis using assms by (intro stop) (auto simp: flush_body_def split: if_splits)
next
  case False
  then obtain s where s: "lk_sessions l p = Some s" by blast
  obtain s' r' where n: "next_segment s = (s', r')" by fastforce
  show ?thesis
  proof (cases r')
    case None
    then show ?thesis using assms False s n by (intro idle) (auto simp: flush_body_def)
  next
    case (Some g)
    obtain l1 t where c: "clock bt (set_session p s' l) = (l1, t)" by fastforce
    obtain l2 r2 where d: "send_segment bt g l1 = (l2, r2)" by fastforce
    obtain l3 t' where c2: "clock bt l2 = (l3, t')" by fastforce
    show ?thesis
    proof (cases r2)
      case (Inl e)
      then show ?thesis using assms False s n Some c d by (intro failed) (auto simp: flush_body_def)
    next
      case (Inr u)
      then show ?thesis using assms False s n Some c d c2
        by (intro sent [OF s _ c _ _ c2]) (auto simp: flush_body_def split: if_splits)
    qed
  qed
qed

text \<open>One round of a flush: the sessions change only at the port, and there as \<open>next_segment\<close> says.\<close>

definition after_emit :: "u16 \<Rightarrow> 'w MuxLink \<Rightarrow> 'w MuxLink \<Rightarrow> bool" where
  "after_emit p l l' \<longleftrightarrow> (\<exists>s. lk_sessions l p = Some s \<and> lk_sessions l' = (lk_sessions l)(p \<mapsto> fst (next_segment s)))
     \<and> lk_version l' = lk_version l \<and> lk_rx_expected l' = lk_rx_expected l \<and> lk_in_flush l' = lk_in_flush l"

lemma after_emitI:
  "lk_sessions l p = Some s \<Longrightarrow> next_segment s = (s', r) \<Longrightarrow> same_sessions (set_session p s' l) l' \<Longrightarrow> after_emit p l l'"
  by (auto simp: after_emit_def same_sessions_def set_session_def)

lemma flush_body_session:
  assumes "flush_body bt p l = (l', r)"
  shows "l' = l \<or> after_emit p l l'"
  using assms
proof (cases rule: flush_body_cases)
  case (idle s s')
  then show ?thesis by (auto intro!: disjI2 after_emitI simp: same_sessions_def)
next
  case (failed s s' g l1 t e)
  then show ?thesis
    using clock_same [OF failed(3)] send_segment_same [OF failed(4)] by (blast intro: after_emitI same_sessions_trans)
next
  case (sent s s' g l1 t l2 l3 t')
  have "same_sessions l2 l'" using sent(7) clock_same [OF sent(6)] by (auto simp: same_sessions_def)
  then show ?thesis
    using clock_same [OF sent(3)] send_segment_same [OF sent(4)] sent(1,2) by (blast intro: after_emitI same_sessions_trans)
qed simp

lemma flush_body_again:
  assumes "flush_body bt p l = (l', Inr (Inl ()))"
  obtains s g where "lk_sessions l p = Some s" "snd (next_segment s) = Some g" "after_emit p l l'"
  using assms
proof (cases rule: flush_body_cases)
  case (sent s s' g l1 t l2 l3 t')
  have "same_sessions l2 l'" using sent(7) clock_same [OF sent(6)] by (auto simp: same_sessions_def)
  then have "after_emit p l l'"
    using clock_same [OF sent(3)] send_segment_same [OF sent(4)] sent(1,2) by (blast intro: after_emitI same_sessions_trans)
  with sent that show ?thesis by simp
qed simp_all

definition drained :: "'w bulk_transport \<Rightarrow> u16 \<Rightarrow> 'w MuxLink \<Rightarrow> bool" where
  "drained bt p l \<longleftrightarrow> bt_send_capacity bt (lk_transport l) = Some False
     \<or> (case lk_sessions l p of None \<Rightarrow> True | Some s \<Rightarrow> snd (next_segment s) = None)"

definition flushed :: "'w bulk_transport \<Rightarrow> u16 \<Rightarrow> 'w MuxLink \<Rightarrow> 'w MuxLink \<times> (MuxError + unit) \<Rightarrow> bool" where
  "flushed bt p l x \<longleftrightarrow> (\<forall>q. q \<noteq> p \<longrightarrow> lk_sessions (fst x) q = lk_sessions l q) \<and> lk_version (fst x) = lk_version l
     \<and> (snd x = Inr () \<longrightarrow> drained bt p (fst x))"

lemma flush_body_done:
  assumes "flush_body bt p l = (l', Inr (Inr ()))"
  shows "drained bt p l'"
  using assms
proof (cases rule: flush_body_cases)
  case stop
  then show ?thesis using assms by (auto simp: flush_body_def drained_def bindS_def split: if_splits option.splits prod.splits sum.splits)
next
  case (idle s s')
  from idle(2) have "s' = s" by (cases rule: next_segment_cases) auto
  with idle show ?thesis by (simp add: drained_def set_session_def)
qed simp_all

lemma flushed_step: "after_emit p l l1 \<Longrightarrow> flushed bt p l1 x \<Longrightarrow> flushed bt p l x"
  by (auto simp: after_emit_def flushed_def)

lemma flushed_stop: "flush_body bt p l = (l', r) \<Longrightarrow> (x = Inr () \<longrightarrow> r = Inr (Inr ())) \<Longrightarrow> flushed bt p l (l', x)"
  using flush_body_session [of bt p l l' r] flush_body_done [of bt p l l'] by (auto simp: flushed_def after_emit_def)

lemma flush_returns_some:
  assumes "lk_sessions l p = Some s" "0 < cfg_mss (ms_config s)"
  shows "\<exists>x. link_flush bt p l = Some x \<and> flushed bt p l x"
  using assms
proof (induction "unsaid s" arbitrary: s l rule: less_induct)
  case less
  obtain l1 r where b: "flush_body bt p l = (l1, r)" by fastforce
  consider e where "r = Inl e" | "r = Inr (Inr ())" | "r = Inr (Inl ())" by (metis old.sum.exhaust unit.exhaust)
  then show ?case
  proof cases
    case 1
    then show ?thesis using b flushed_stop [OF b, of "Inl e"] by (simp add: link_flush_def loopL_unfold(1))
  next
    case 2
    then show ?thesis using b flushed_stop [OF b, of "Inr ()"] by (simp add: link_flush_def loopL_unfold(3))
  next
    case 3
    with b obtain g where g: "snd (next_segment s) = Some g" "after_emit p l l1"
      using less.prems(1) by (auto elim: flush_body_again)
    obtain s1 where n: "next_segment s = (s1, Some g)" using g(1) by (cases "next_segment s") auto
    have "lk_sessions l1 p = Some s1" using g(2) less.prems(1) n by (auto simp: after_emit_def)
    with next_segment_says [OF n less.prems(2)] less.hyps [of s1 l1] less.prems(2)
    obtain x where "link_flush bt p l1 = Some x" "flushed bt p l1 x" by auto
    then show ?thesis using b 3 flushed_step [OF g(2)] by (auto simp: link_flush_def loopL_unfold(2))
  qed
qed

lemma flush_returns:
  assumes "\<And>s. lk_sessions l p = Some s \<Longrightarrow> 0 < cfg_mss (ms_config s)"
  shows "\<exists>l' r. link_flush bt p l = Some (l', r) \<and> (\<forall>q. q \<noteq> p \<longrightarrow> lk_sessions l' q = lk_sessions l q)
    \<and> lk_version l' = lk_version l \<and> (r = Inr () \<longrightarrow> drained bt p l')"
proof (cases "lk_sessions l p")
  case None
  then have "flush_body bt p l = (l, Inr (Inr ()))" by (simp add: flush_body_def)
  then have "link_flush bt p l = Some (l, Inr ())" by (simp add: link_flush_def loopL_unfold(3))
  then show ?thesis using None by (simp add: drained_def)
next
  case (Some s)
  then obtain x where "link_flush bt p l = Some x" "flushed bt p l x" using flush_returns_some assms by blast
  then show ?thesis by (cases x) (auto simp: flushed_def)
qed

section \<open>Sessions of a link are session runs\<close>

definition link_ok :: "'w MuxLink \<Rightarrow> bool" where
  "link_ok l \<longleftrightarrow> (\<forall>p s. lk_sessions l p = Some s \<longrightarrow> (\<exists>config ls. session_run config ls s \<and> cfg_local_port config = p))"

definition keeps :: "'w MuxLink \<Rightarrow> 'w MuxLink \<Rightarrow> bool" where
  "keeps l l' \<longleftrightarrow> (link_ok l \<longrightarrow> link_ok l')"

lemma keeps_refl: "keeps l l" and keeps_trans: "keeps l l' \<Longrightarrow> keeps l' l'' \<Longrightarrow> keeps l l''"
  by (simp_all add: keeps_def)

lemma keeps_same: "lk_sessions l' = lk_sessions l \<Longrightarrow> keeps l l'"
  by (simp add: keeps_def link_ok_def)

lemma keeps_same_sessions: "same_sessions l l' \<Longrightarrow> keeps l l'"
  by (simp add: keeps_same same_sessions_def)

lemma keeps_drop: "lk_sessions l' = (lk_sessions l)(p := None) \<Longrightarrow> keeps l l'"
  by (simp add: keeps_def link_ok_def)

lemma keeps_step:
  assumes "lk_sessions l p = Some s" "session_step s lab s'" "lk_sessions l' = (lk_sessions l)(p \<mapsto> s')"
  shows "keeps l l'"
proof -
  have "(\<exists>config ls. session_run config ls s \<and> cfg_local_port config = p)
      \<longrightarrow> (\<exists>config ls. session_run config ls s' \<and> cfg_local_port config = p)"
    using run_step [OF _ assms(2)] by blast
  moreover have "lk_sessions l' q = (if q = p then Some s' else lk_sessions l q)" for q using assms(3) by simp
  ultimately show ?thesis using assms(1) unfolding keeps_def link_ok_def by simp
qed

lemma keeps_emit: "after_emit p l l' \<Longrightarrow> keeps l l'"
proof -
  assume "after_emit p l l'"
  then obtain s s' r where s: "lk_sessions l p = Some s" "next_segment s = (s', r)" "lk_sessions l' = (lk_sessions l)(p \<mapsto> s')"
    by (cases "next_segment (the (lk_sessions l p))") (auto simp: after_emit_def)
  have "\<exists>lab. session_step s lab s'" using s(2) by (cases r) (auto intro: step_idle step_emit)
  with s show ?thesis by (blast intro: keeps_step)
qed

lemma keeps_thenL:
  assumes "thenL r f = Some (l', z)" "\<And>l1 x. r = Some (l1, x) \<Longrightarrow> keeps l l1"
    and "\<And>l1 x l2 y. r = Some (l1, Inr x) \<Longrightarrow> f l1 x = Some (l2, y) \<Longrightarrow> keeps l1 l2"
  shows "keeps l l'"
proof -
  from assms(1) consider l1 e where "r = Some (l1, Inl e)" "l' = l1" | l1 x where "r = Some (l1, Inr x)" "f l1 x = Some (l', z)"
    unfolding thenL_eq_Some by blast
  then show ?thesis
  proof cases
    case 1
    then show ?thesis using assms(2) by simp
  next
    case 2
    show ?thesis by (rule keeps_trans [OF assms(2) [OF 2(1)] assms(3) [OF 2]])
  qed
qed

lemma keeps_loopL:
  "loopL body s l = Some (l', x) \<Longrightarrow> (\<And>s l l' x. body s l = Some (l', x) \<Longrightarrow> keeps l l') \<Longrightarrow> keeps l l'"
  by (rule loopL_rel [where R = keeps and body = body, OF keeps_refl keeps_trans])

lemma clock_keeps: "clock bt l = (l', t) \<Longrightarrow> keeps l l'"
  using clock_same keeps_same_sessions by blast

lemma send_segment_keeps: "send_segment bt g l = (l', r) \<Longrightarrow> keeps l l'"
  by (rule keeps_same_sessions [OF send_segment_same])

lemma link_flush_keeps: "link_flush bt p l = Some (l', r) \<Longrightarrow> keeps l l'"
  unfolding link_flush_def
  by (erule keeps_loopL) (auto dest: flush_body_session intro: keeps_refl keeps_emit)

lemma route_tcp_effect:
  assumes "route_tcp bt payload l = (l', r)"
  shows "lk_rx_expected l' = lk_rx_expected l \<and> (lk_sessions l' = lk_sessions l
    \<or> (\<exists>tcp s. TcpHeader_decode payload = Inr tcp \<and> lk_sessions l (th_destination_port tcp) = Some s
        \<and> lk_sessions l' = (lk_sessions l)(th_destination_port tcp \<mapsto> fst (on_segment s tcp (drop TCP_HEADER_LEN payload)))))"
proof (cases "\<exists>tcp s. TcpHeader_decode payload = Inr tcp \<and> lk_sessions l (th_destination_port tcp) = Some s")
  case False
  then show ?thesis using assms by (auto simp: route_tcp_def Let_def split: sum.splits option.splits)
next
  case True
  then obtain tcp s where t: "TcpHeader_decode payload = Inr tcp" "lk_sessions l (th_destination_port tcp) = Some s" by blast
  let ?p = "th_destination_port tcp"
  obtain s' e where o: "on_segment s tcp (drop TCP_HEADER_LEN payload) = (s', e)" by fastforce
  obtain l1 now where c: "clock bt (set_session ?p s' l) = (l1, now)" by fastforce
  have "lk_sessions l' = (lk_sessions l)(?p \<mapsto> s') \<and> lk_rx_expected l' = lk_rx_expected l"
    using assms t o c clock_same [OF c]
    by (auto simp: route_tcp_def set_session_def same_sessions_def Let_def split: sum.splits)
  with t o show ?thesis by auto
qed

lemma route_tcp_keeps:
  assumes "route_tcp bt payload l = (l', r)"
  shows "keeps l l'"
  using route_tcp_effect [OF assms]
proof (elim conjE disjE exE)
  fix tcp s
  assume s: "lk_sessions l (th_destination_port tcp) = Some s"
    and l': "lk_sessions l' = (lk_sessions l)(th_destination_port tcp \<mapsto> fst (on_segment s tcp (drop TCP_HEADER_LEN payload)))"
  show ?thesis by (rule keeps_step [OF s step_segment l']) (rule prod.collapse [symmetric])
qed (rule keeps_same)

lemma route_tcp_from: "route_tcp bt payload l1 = (l', r) \<Longrightarrow> lk_sessions l1 = lk_sessions l \<Longrightarrow> keeps l l'"
  by (rule keeps_trans [OF keeps_same route_tcp_keeps])

lemma route_packet_keeps: "route_packet bt v packet l = (l', r) \<Longrightarrow> keeps l l'"
  by (auto simp: route_packet_def Let_def reject_packet_def keeps_same split: sum.splits if_splits prod.splits
      elim!: route_tcp_from)

lemma pump_keeps:
  assumes "pump bt timeout l = Some (l', r)"
  shows "keeps l l'"
proof (cases "lk_version l")
  case None
  then show ?thesis using assms by (simp add: pump_def keeps_refl)
next
  case (Some v)
  obtain w x where x: "bt_recv bt (lk_transport l) timeout = (w, x)" by fastforce
  have k: "keeps l (l\<lparr>lk_transport := w\<rparr>)" by (simp add: keeps_same)
  show ?thesis
  proof (cases "\<exists>packet. x = Inr (Some packet)")
    case False
    then show ?thesis using assms Some x k by (auto simp: pump_def split: sum.splits option.splits)
  next
    case True
    then obtain packet where "x = Inr (Some packet)" by blast
    with assms Some x have t: "thenL (Some (route_packet bt v packet (l\<lparr>lk_transport := w\<rparr>))) (\<lambda>l (event, due).
        case due of None \<Rightarrow> Some (l, Inr event)
        | Some local_port \<Rightarrow> thenL (link_flush bt local_port l) (\<lambda>l _. Some (l, Inr event))) = Some (l', r)"
      by (simp add: pump_def)
    have "keeps (l\<lparr>lk_transport := w\<rparr>) l'"
      by (rule keeps_thenL [OF t])
        (auto simp: route_packet_keeps keeps_refl split: option.splits prod.splits elim!: keeps_thenL intro: link_flush_keeps)
    with k show ?thesis by (rule keeps_trans)
  qed
qed

lemma set_session_step: "lk_sessions l p = Some s \<Longrightarrow> session_step s lab s' \<Longrightarrow> keeps l (set_session p s' l)"
  by (erule keeps_step) (simp_all add: set_session_def)

lemma drain_inbound_keeps: "drain_inbound bt l = Some (l', r) \<Longrightarrow> keeps l l'"
  unfolding drain_inbound_def
  by (erule keeps_loopL) (auto simp: thenL_eq_Some intro: pump_keeps)

lemma route_available_keeps: "route_available bt l = Some (l', r) \<Longrightarrow> keeps l l'"
proof -
  assume "route_available bt l = Some (l', r)"
  then obtain l1 where d: "drain_inbound bt (l\<lparr>lk_in_flush := True\<rparr>) = Some (l1, r)" and l': "lk_sessions l' = lk_sessions l1"
    by (auto simp: route_available_def bind_eq_Some_conv)
  have "keeps l (l\<lparr>lk_in_flush := True\<rparr>)" by (simp add: keeps_same)
  then show ?thesis using drain_inbound_keeps [OF d] keeps_same [OF l'] by (blast intro: keeps_trans)
qed

lemma negotiate_body_keeps: "negotiate_body bt deadline timeout l = (l', r) \<Longrightarrow> keeps l l'"
proof -
  assume a: "negotiate_body bt deadline timeout l = (l', r)"
  obtain l1 t where c: "clock bt l = (l1, t)" by fastforce
  have "lk_sessions l' = lk_sessions l1"
    using a c by (auto simp: negotiate_body_def Let_def split: if_splits prod.splits sum.splits option.splits FrameError.splits)
  then show ?thesis using clock_keeps [OF c] keeps_same keeps_trans by blast
qed

lemma transport_send_keeps: "transport_send bt packet l = (l', r) \<Longrightarrow> keeps l l'"
  using transport_send_same keeps_same_sessions by blast

lemma negotiate_keeps:
  assumes "negotiate bt request timeout l = Some (l', r)"
  shows "keeps l l'"
  using assms unfolding negotiate_def
proof (rule keeps_thenL)
  fix l1 x l2 y
  assume "(let (l, now) = clock bt l1 in loopL (\<lambda>_ l. Some (negotiate_body bt (now + timeout) timeout l)) () l) = Some (l2, y)"
  then obtain l3 now where c: "clock bt l1 = (l3, now)"
      and r: "loopL (\<lambda>_ l. Some (negotiate_body bt (now + timeout) timeout l)) () l3 = Some (l2, y)"
    by (auto split: prod.splits)
  from r have "keeps l3 l2" by (rule keeps_loopL) (auto intro: negotiate_body_keeps)
  with clock_keeps [OF c] show "keeps l1 l2" by (rule keeps_trans)
qed (auto intro: transport_send_keeps)

lemma allocate_from_sessions: "allocate_from n l = (l', r) \<Longrightarrow> lk_sessions l' = lk_sessions l"
  by (induction n l rule: allocate_from.induct) (auto simp: Let_def split: if_splits)

lemma begin_open_keeps:
  assumes "begin_open bt remote l = (l', r)"
  shows "keeps l l'"
proof -
  obtain l1 p where a: "allocate_port l = (l1, p)" by fastforce
  then have s1: "lk_sessions l1 = lk_sessions l" unfolding allocate_port_def by (rule allocate_from_sessions)
  show ?thesis
  proof (cases "\<exists>q m. p = Inr q \<and> segment_size bt l1 = Inr m")
    case False
    then have "l' = l1" using assms a by (cases p; cases "segment_size bt l1") (auto simp: begin_open_def)
    then show ?thesis using s1 by (simp add: keeps_same)
  next
    case True
    then obtain q m where q: "p = Inr q" "segment_size bt l1 = Inr m" by blast
    obtain l2 i where i: "next_initial_sequence q l1 = (l2, i)" by fastforce
    then have s2: "lk_sessions l2 = lk_sessions l1" by (auto simp: next_initial_sequence_def Let_def)
    define config where "config = \<lparr>cfg_local_port = q, cfg_remote_port = remote, cfg_initial_sequence = i, cfg_mss = m,
      cfg_receive_window = lk_receive_window l2\<rparr>"
    obtain s syn where o: "MuxSession_open config = (s, syn)" by fastforce
    obtain l3 x where x: "send_segment bt syn (set_session q s l2) = (l3, x)" by fastforce
    have "l' = l3" using assms a q i o x by (cases x) (auto simp: begin_open_def config_def Let_def)
    then have "lk_sessions l' = (lk_sessions l)(q \<mapsto> s)"
      using send_segment_same [OF x] s1 s2 by (simp add: same_sessions_def set_session_def)
    moreover have "session_run config [L_emit syn] s" "cfg_local_port config = q"
      using run_open [OF o] by (simp_all add: config_def)
    ultimately show ?thesis unfolding keeps_def link_ok_def by auto
  qed
qed

lemma open_body_keeps:
  assumes "open_body bt p deadline timeout l = Some (l', r)"
  shows "keeps l l'"
proof -
  obtain l1 now where c: "clock bt l = (l1, now)" by fastforce
  have d: "keeps m (drop_session p m)" for m :: "'a MuxLink" by (rule keeps_drop) (simp add: drop_session_def)
  consider "link_session_state l p = Some Established" | "link_session_state l p = Some SynSent"
    | "link_session_state l p = None \<or> link_session_state l p = Some Closed"
    by (metis SessionState.exhaust option.exhaust)
  then show ?thesis
  proof cases
    case 1
    then show ?thesis using assms by (auto simp: open_body_def finish_open_def thenL_eq_Some intro: link_flush_keeps)
  next
    case 2
    then show ?thesis
      using assms c clock_keeps [OF c] d [of l1]
      by (auto simp: open_body_def Let_def thenL_eq_Some split: if_splits intro: keeps_trans pump_keeps)
  next
    case 3
    then show ?thesis using assms d by (auto simp: open_body_def)
  qed
qed

lemma link_open_keeps:
  assumes "link_open bt remote timeout l = Some (l', r)"
  shows "keeps l l'"
  using assms unfolding link_open_def
proof (rule keeps_thenL)
  fix l1 p l2 y
  assume "(let (l, now) = clock bt l1 in loopL (\<lambda>_. open_body bt p (now + timeout) timeout) () l) = Some (l2, y)"
  then obtain l3 now where c: "clock bt l1 = (l3, now)"
      and r: "loopL (\<lambda>_. open_body bt p (now + timeout) timeout) () l3 = Some (l2, y)"
    by (auto split: prod.splits)
  from r have "keeps l3 l2" by (rule keeps_loopL) (auto intro: open_body_keeps)
  with clock_keeps [OF c] show "keeps l1 l2" by (rule keeps_trans)
qed (auto intro: begin_open_keeps)

lemma link_close_keeps:
  assumes "link_close bt p l = (l', r)"
  shows "keeps l l'"
proof (cases "lk_sessions l p")
  case None
  then show ?thesis using assms by (simp add: link_close_def keeps_refl)
next
  case (Some s)
  let ?l = "(drop_session p l)\<lparr>lk_roundtrip := on_close p (lk_roundtrip l)\<rparr>"
  have "keeps l ?l" by (rule keeps_drop [of _ _ p]) (simp add: drop_session_def)
  moreover have "keeps ?l l'"
    using assms Some by (auto simp: link_close_def Let_def keeps_refl split: if_splits intro: send_segment_keeps)
  ultimately show ?thesis by (rule keeps_trans)
qed

text \<open>A write within the bound up to which sequence numbers can be told apart.\<close>

definition may_queue :: "u16 \<Rightarrow> bytes \<Rightarrow> 'w MuxLink \<Rightarrow> bool" where
  "may_queue p data l \<longleftrightarrow> (case lk_sessions l p of None \<Rightarrow> True | Some s \<Rightarrow> buffered s + length data < BUFFER_LIMIT)"

lemma enqueue_keeps:
  assumes "enqueue p data l = (l', r)" "may_queue p data l"
  shows "keeps l l'"
proof (cases "lk_sessions l p")
  case None
  then show ?thesis using assms(1) by (simp add: enqueue_def keeps_refl)
next
  case (Some s)
  show ?thesis
  proof (cases "can_write s")
    case False
    then show ?thesis using assms(1) Some by (simp add: enqueue_def keeps_refl)
  next
    case True
    then have "lk_sessions l' = (lk_sessions l)(p \<mapsto> MuxSession_queue s data)"
      using assms(1) Some by (auto simp: enqueue_def set_session_def)
    moreover have "session_step s (L_write data) (MuxSession_queue s data)"
      using True assms(2) Some by (intro step_queue) (simp_all add: may_queue_def)
    ultimately show ?thesis using Some by (blast intro: keeps_step)
  qed
qed

lemma wait_for_window_keeps:
  assumes "wait_for_window bt p s remaining l = Some (l', r)"
  shows "keeps l l'"
proof -
  obtain l1 t1 where c1: "clock bt l = (l1, t1)" by fastforce
  obtain l2 x where p: "pump bt remaining l1 = Some (l2, x)"
    using assms c1 by (auto simp: wait_for_window_def bind_eq_Some_conv)
  obtain l3 t3 where c3: "clock bt l2 = (l3, t3)" by fastforce
  obtain l4 t4 where c4: "clock bt l3 = (l4, t4)" by fastforce
  have "lk_sessions l' = lk_sessions l4" using assms c1 p c3 c4 by (auto simp: wait_for_window_def Let_def)
  then have "keeps l4 l'" by (rule keeps_same)
  with clock_keeps [OF c1] pump_keeps [OF p] clock_keeps [OF c3] clock_keeps [OF c4] show ?thesis
    by (simp add: keeps_def)
qed

text \<open>The part of a round of \<open>link_write\<close> behind its flush.\<close>

lemma write_body_keeps:
  assumes "write_body bt p wanted deadline l = Some (l', r)"
  shows "keeps l l'"
proof (cases "lk_sessions l p")
  case None
  then show ?thesis using assms by (simp add: write_body_def keeps_refl)
next
  case (Some e)
  have after: "keeps l1 l2"
    if b: "(case lk_sessions l1 p of None \<Rightarrow> Some (l1, Inl (NoSession p))
      | Some session \<Rightarrow>
          if ms_state session \<noteq> Established then Some (l1, Inl (MuxClosed p))
          else
            let outstanding = pending_len session in
            if outstanding = 0 then Some (l1, Inr (Inr wanted))
            else
              let usable = usable_window session; (l, now) = clock bt l1; remaining = deadline - now in
              if remaining = 0 then Some (l, Inr (Inr (wanted - min outstanding wanted)))
              else if outstanding < pending_len e \<and> usable > 0
              then thenL (drain_inbound bt l) (\<lambda>l _. Some (l, Inr (Inl ())))
              else thenL (wait_for_window bt p session remaining l) (\<lambda>l _. Some (l, Inr (Inl ())))) = Some (l2, y)"
    for l1 l2 y
  proof -
    obtain l3 now where c: "clock bt l1 = (l3, now)" by fastforce
    have "l2 = l1 \<or> keeps l3 l2"
      using b c by (auto simp: Let_def thenL_eq_Some keeps_refl split: option.splits if_splits
          intro: drain_inbound_keeps wait_for_window_keeps)
    then show ?thesis using clock_keeps [OF c] by (auto simp: keeps_def)
  qed
  show ?thesis
    by (rule keeps_thenL [OF assms [unfolded write_body_def Some option.case]]) (erule link_flush_keeps after)+
qed

lemma loop_after_clock:
  assumes "(let (l, now) = clock bt l in loopL (body now) s l) = Some (l', r)"
    and "\<And>now s l l' x. body now s l = Some (l', x) \<Longrightarrow> keeps l l'"
  shows "keeps l l'"
proof -
  obtain l1 now where c: "clock bt l = (l1, now)" by fastforce
  with assms(1) have "loopL (body now) s l1 = Some (l', r)" by simp
  then have "keeps l1 l'" by (rule keeps_loopL) (rule assms(2))
  with clock_keeps [OF c] show ?thesis by (rule keeps_trans)
qed

lemma link_write_keeps:
  assumes "link_write bt p data timeout l = Some (l', r)" "may_queue p data l"
  shows "keeps l l'"
  using assms(1) unfolding link_write_def
proof (rule keeps_thenL)
  fix l1 x l2 y
  assume "(let (l, now) = clock bt l1 in loopL (\<lambda>_. write_body bt p (length data) (now + timeout)) () l) = Some (l2, y)"
  then show "keeps l1 l2"
    by (rule loop_after_clock [where body = "\<lambda>now _. write_body bt p (length data) (now + timeout)"]) (rule write_body_keeps)
qed (use assms(2) in \<open>auto intro: enqueue_keeps\<close>)

lemma pending_write_keeps: "pending_write bt p l = Some (l', r) \<Longrightarrow> keeps l l'"
  unfolding pending_write_def
  by (erule keeps_thenL) (auto intro: link_flush_keeps keeps_refl split: option.splits if_splits)

lemma queue_write_keeps: "queue_write bt p data l = Some (l', r) \<Longrightarrow> may_queue p data l \<Longrightarrow> keeps l l'"
  unfolding queue_write_def by (erule keeps_thenL) (auto intro: enqueue_keeps pending_write_keeps)

lemma link_take_received_keeps:
  assumes "link_take_received bt p out l = Some (l', r)"
  shows "keeps l l'"
proof (cases "out = [] \<or> lk_sessions l p = None")
  case True
  then show ?thesis using assms by (auto simp: link_take_received_def keeps_refl split: if_splits)
next
  case False
  then obtain s where s: "lk_sessions l p = Some s" by blast
  obtain s1 out' n where t: "MuxSession_take_received s out = (s1, out', n)" by (metis prod_cases3)
  have k1: "keeps l (set_session p s1 l)" by (rule set_session_step [OF s step_take [OF t]])
  have "keeps (set_session p s1 l) (set_session p (request_ack s1) (set_session p s1 l))"
    by (rule set_session_step [OF _ step_request_ack]) (simp add: set_session_def)
  then have k2: "keeps l (set_session p (request_ack s1) l)"
    using k1 by (simp add: keeps_def set_session_def)
  show ?thesis
    using assms False s t k1 keeps_trans [OF k2 link_flush_keeps]
    by (auto simp: link_take_received_def thenL_eq_Some split: if_splits)
qed

lemma read_body_keeps:
  assumes "read_body bt p deadline out l = Some (l', r)"
  shows "keeps l l'"
  using assms unfolding read_body_def
proof (rule keeps_thenL)
  fix l1 :: "'a MuxLink" and x :: "bytes \<times> nat" and l2 y
  assume b: "(case x of (out, taken) \<Rightarrow> if taken > 0 then Some (l1, Inr (Inr (out, taken)))
       else thenL (Some (l1, received_eof p l1)) (\<lambda>l eof.
           if eof then Some (l, Inr (Inr (out, 0)))
           else let (l, now) = clock bt l; remaining = deadline - now
             in if remaining = 0 then Some (l, Inr (Inr (out, 0)))
                else thenL (pump bt remaining l) (\<lambda>l _. Some (l, Inr (Inl out))))) = Some (l2, y)"
  obtain l3 now where c: "clock bt l1 = (l3, now)" by fastforce
  have "l2 = l1 \<or> keeps l3 l2"
    using b c by (auto simp: Let_def thenL_eq_Some keeps_refl split: prod.splits if_splits intro: pump_keeps)
  then show "keeps l1 l2" using clock_keeps [OF c] by (auto simp: keeps_def)
qed (rule link_take_received_keeps)

lemma link_read_keeps:
  assumes "link_read bt p out timeout l = Some (l', r)"
  shows "keeps l l'"
proof (cases "out = []")
  case False
  with assms have "(let (l, now) = clock bt l in loopL (read_body bt p (now + timeout)) out l) = Some (l', r)"
    by (simp add: link_read_def)
  then show ?thesis
    by (rule loop_after_clock [where body = "\<lambda>now. read_body bt p (now + timeout)"]) (rule read_body_keeps)
qed (use assms in \<open>simp add: link_read_def keeps_refl\<close>)

lemma shutdown_write_keeps: "shutdown_write bt p l = Some (l', r) \<Longrightarrow> keeps l l'"
  unfolding shutdown_write_def
  by (auto simp: keeps_refl split: option.splits sum.splits
      intro: keeps_trans [OF set_session_step [OF _ step_shutdown] link_flush_keeps])

lemma probe_window_keeps:
  assumes "probe_window bt p l = Some (l', r)"
  shows "keeps l l'"
proof (cases "lk_sessions l p")
  case None
  then show ?thesis using assms by (simp add: probe_window_def keeps_refl)
next
  case (Some s)
  obtain s1 b where b: "MuxSession_probe_window s = (s1, b)" by fastforce
  note k = set_session_step [OF Some step_probe [OF b]]
  show ?thesis
    using assms Some b k keeps_trans [OF k link_flush_keeps] by (cases b) (auto simp: probe_window_def thenL_eq_Some)
qed

lemma link_retransmit_keeps: "link_retransmit bt p l = Some (l', r) \<Longrightarrow> keeps l l'"
  unfolding link_retransmit_def
  by (auto simp: keeps_refl thenL_eq_Some split: if_splits option.splits intro: probe_window_keeps send_segment_keeps)

lemma record_wait_keeps: "keeps l (record_wait bt p a b l)"
proof -
  obtain l1 t where c: "clock bt (l\<lparr>lk_roundtrip := on_lock_wait p a (lk_roundtrip l)\<rparr>) = (l1, t)" by fastforce
  have "lk_sessions (record_wait bt p a b l) = lk_sessions l"
    using clock_same [OF c] c by (auto simp: record_wait_def same_sessions_def Let_def split: prod.splits)
  then show ?thesis by (rule keeps_same)
qed

text \<open>The calls on a link, whatever they return.\<close>

inductive link_step :: "'w bulk_transport \<Rightarrow> 'w MuxLink \<Rightarrow> 'w MuxLink \<Rightarrow> bool" for bt where
  do_negotiate: "negotiate bt request timeout l = Some (l', v) \<Longrightarrow> link_step bt l l'"
| do_begin_open: "begin_open bt remote l = (l', port) \<Longrightarrow> link_step bt l l'"
| do_flush: "link_flush bt p l = Some (l', u) \<Longrightarrow> link_step bt l l'"
| do_forget: "link_step bt l (drop_session p l)"
| do_open: "link_open bt remote timeout l = Some (l', port) \<Longrightarrow> link_step bt l l'"
| do_shutdown: "shutdown_write bt p l = Some (l', u) \<Longrightarrow> link_step bt l l'"
| do_write: "may_queue p data l \<Longrightarrow> link_write bt p data timeout l = Some (l', n) \<Longrightarrow> link_step bt l l'"
| do_queue_write: "may_queue p data l \<Longrightarrow> queue_write bt p data l = Some (l', n) \<Longrightarrow> link_step bt l l'"
| do_pending_write: "pending_write bt p l = Some (l', n) \<Longrightarrow> link_step bt l l'"
| do_take_received: "link_take_received bt p out l = Some (l', taken) \<Longrightarrow> link_step bt l l'"
| do_read: "link_read bt p out timeout l = Some (l', taken) \<Longrightarrow> link_step bt l l'"
| do_probe: "probe_window bt p l = Some (l', b) \<Longrightarrow> link_step bt l l'"
| do_retransmit: "link_retransmit bt p l = Some (l', b) \<Longrightarrow> link_step bt l l'"
| do_record_wait: "link_step bt l (record_wait bt p d d' l)"
| do_close: "link_close bt p l = (l', u) \<Longrightarrow> link_step bt l l'"
| do_pump: "pump bt timeout l = Some (l', event) \<Longrightarrow> link_step bt l l'"
| do_drain: "drain_inbound bt l = Some (l', n) \<Longrightarrow> link_step bt l l'"
| do_route: "route_available bt l = Some (l', n) \<Longrightarrow> link_step bt l l'"

inductive link_reach :: "'w bulk_transport \<Rightarrow> 'w MuxLink \<Rightarrow> bool" for bt where
  reach_new: "link_reach bt (MuxLink_new w seed budget)"
| reach_step: "link_reach bt l \<Longrightarrow> link_step bt l l' \<Longrightarrow> link_reach bt l'"

lemmas link_keeps = negotiate_keeps begin_open_keeps link_flush_keeps link_open_keeps shutdown_write_keeps
  link_write_keeps queue_write_keeps pending_write_keeps link_take_received_keeps link_read_keeps probe_window_keeps
  link_retransmit_keeps record_wait_keeps link_close_keeps pump_keeps drain_inbound_keeps route_available_keeps

lemma link_step_keeps: "link_step bt l l' \<Longrightarrow> keeps l l'"
  by (induction rule: link_step.induct) (auto intro: link_keeps keeps_drop simp: drop_session_def)

lemma link_reach_ok: "link_reach bt l \<Longrightarrow> link_ok l"
proof (induction rule: link_reach.induct)
  case (reach_new w seed budget)
  then show ?case by (simp add: link_ok_def MuxLink_new_def)
next
  case (reach_step l l')
  then show ?case using link_step_keeps by (auto simp: keeps_def)
qed

section \<open>Packets\<close>

lemma Segment_to_bytes_eq: "Segment_to_bytes g = Some (tcp_header_bytes (seg_header g) @ seg_payload g)"
  by (simp add: Segment_to_bytes_def TcpHeader_encode_put put_def)

lemma send_packet_eq:
  assumes "lk_version l = Some v" "header_len v + length payload \<le> min (bt_max_packet bt (lk_transport l)) MAX_PACKET"
    and "bt_send bt (lk_transport l)
      (mux_header_bytes v \<lparr>mh_protocol = protocol, mh_length = word_of_nat (header_len v + length payload), mh_magic = HOST_MAGIC,
         mh_tx_seq = lk_tx_seq l, mh_rx_ack = lk_rx_expected l - 1\<rparr> @ payload) = (w, r)"
  shows "send_packet bt protocol payload l
    = (l\<lparr>lk_transport := w, lk_tx_seq := (if is_sequenced v \<and> r = Inr () then lk_tx_seq l + 1 else lk_tx_seq l)\<rparr>, map_err MuxIo r)"
proof -
  let ?h = "\<lparr>mh_protocol = protocol, mh_length = word_of_nat (header_len v + length payload), mh_magic = HOST_MAGIC,
         mh_tx_seq = lk_tx_seq l, mh_rx_ack = lk_rx_expected l - 1\<rparr>"
  let ?z = "replicate (header_len v + length payload) (0 :: byte)"
  have "put (put ?z 0 (mux_header_bytes v ?h)) (header_len v) payload = mux_header_bytes v ?h @ payload"
    by (simp add: put_def)
  then show ?thesis
    using assms by (cases r) (auto simp: send_packet_def MuxHeader_encode_put transport_send_def Let_def)
qed

section \<open>Properties\<close>


text \<open>
  Claim C12. Every session of a link that was reached by any calls, on any transport, is a run of the session
  machine under the configuration of its port, so the properties of session runs hold of it: what it sends is
  the written stream, what it delivers is the accepted one.
\<close>

theorem link_sessions_are_runs:
  assumes "link_reach bt l" "lk_sessions l p = Some s"
  shows "\<exists>config ls. session_run config ls s \<and> cfg_local_port config = p"
  using link_reach_ok [OF assms(1)] assms(2) by (simp add: link_ok_def)

text \<open>
  Claim C13. A packet changes a session only when it frames, carries a TCP segment for that session and, on a
  sequenced link, has exactly the sequence number that is due, which is used up by it. Then that session
  takes the segment, and no other session changes.
\<close>

theorem link_delivers_in_sequence:
  assumes "route_packet bt v packet l = (l', r)" "lk_sessions l' \<noteq> lk_sessions l"
  shows "\<exists>h payload tcp s. MuxHeader_decode v packet = Inr h \<and> MuxHeader_payload h v packet = Inr payload
    \<and> mh_protocol h = Tcp \<and> (is_sequenced v \<longrightarrow> mh_tx_seq h = lk_rx_expected l \<and> lk_rx_expected l' = lk_rx_expected l + 1)
    \<and> TcpHeader_decode payload = Inr tcp \<and> lk_sessions l (th_destination_port tcp) = Some s
    \<and> lk_sessions l' = (lk_sessions l)(th_destination_port tcp \<mapsto> fst (on_segment s tcp (drop TCP_HEADER_LEN payload)))"
proof -
  let ?l = "l\<lparr>lk_packets_received := lk_packets_received l + 1\<rparr>"
  from assms obtain h payload where h: "MuxHeader_decode v packet = Inr h" "MuxHeader_payload h v packet = Inr payload"
      "mh_protocol h = Tcp" "is_sequenced v \<longrightarrow> mh_tx_seq h = lk_rx_expected l"
    and t: "route_tcp bt payload (if is_sequenced v then ?l\<lparr>lk_rx_expected := lk_rx_expected l + 1\<rparr> else ?l) = (l', r)"
    by (auto simp: route_packet_def Let_def reject_packet_def bindE_eq_Inr split: sum.splits if_splits prod.splits)
  let ?m = "if is_sequenced v then ?l\<lparr>lk_rx_expected := lk_rx_expected l + 1\<rparr> else ?l"
  have same: "lk_sessions ?m = lk_sessions l" "is_sequenced v \<longrightarrow> lk_rx_expected ?m = lk_rx_expected l + 1" by simp_all
  with route_tcp_effect [OF t] assms(2) h show ?thesis by (metis)
qed

text \<open>
  Claim C14. A segment no longer than the link's segment size is sent as one packet the transport admits, which
  the other end reads as that segment: it frames, carries the TCP protocol, the next sequence number and the
  acknowledgement of the last packet received, and its payload is the header and the bytes of the segment. A
  sequence number is used up exactly when the transport took the packet.
\<close>

theorem link_packet_carries_segment:
  assumes "lk_version l = Some v" "segment_size bt l = Inr mss" "length (seg_payload g) \<le> mss"
  shows "\<exists>packet w r h payload. bt_send bt (lk_transport l) packet = (w, r)
    \<and> send_segment bt g l = (l\<lparr>lk_transport := w, lk_tx_seq := (if is_sequenced v \<and> r = Inr () then lk_tx_seq l + 1 else lk_tx_seq l)\<rparr>,
        map_err MuxIo r)
    \<and> length packet \<le> bt_max_packet bt (lk_transport l)
    \<and> MuxHeader_decode v packet = Inr h \<and> MuxHeader_payload h v packet = Inr payload \<and> mh_protocol h = Tcp
    \<and> (is_sequenced v \<longrightarrow> mh_tx_seq h = lk_tx_seq l \<and> mh_rx_ack h = lk_rx_expected l - 1)
    \<and> TcpHeader_decode payload = Inr (tcp_header_norm (seg_header g)) \<and> drop TCP_HEADER_LEN payload = seg_payload g"
proof -
  let ?seg = "tcp_header_bytes (seg_header g) @ seg_payload g"
  let ?n = "header_len v + length ?seg"
  let ?h = "\<lparr>mh_protocol = Tcp, mh_length = word_of_nat ?n, mh_magic = HOST_MAGIC, mh_tx_seq = lk_tx_seq l, mh_rx_ack = lk_rx_expected l - 1\<rparr>"
  let ?packet = "mux_header_bytes v ?h @ ?seg"
  have fits: "?n \<le> min (bt_max_packet bt (lk_transport l)) MAX_PACKET" "?n \<le> bt_max_packet bt (lk_transport l)" "?n \<le> 0x8000"
    using assms by (auto simp: segment_size_def Let_def frame_consts split: if_splits)
  have seg: "Segment_to_bytes g = Some ?seg" by (rule Segment_to_bytes_eq)
  have "unat (word_of_nat ?n :: u32) = ?n" using fits(3) by (intro unat_of_nat_small) simp
  then have pay: "MuxHeader_payload (mux_header_norm v ?h) v ?packet = Inr ?seg" by (intro MuxHeader_payload_frame) simp
  obtain w r where s: "bt_send bt (lk_transport l) ?packet = (w, r)" by fastforce
  have "send_segment bt g l = (l\<lparr>lk_transport := w, lk_tx_seq := (if is_sequenced v \<and> r = Inr () then lk_tx_seq l + 1 else lk_tx_seq l)\<rparr>,
      map_err MuxIo r)"
    using send_packet_eq [OF assms(1) fits(1) s] seg by (simp add: send_segment_def)
  moreover have "mh_protocol (mux_header_norm v ?h) = Tcp"
      "is_sequenced v \<longrightarrow> mh_tx_seq (mux_header_norm v ?h) = lk_tx_seq l \<and> mh_rx_ack (mux_header_norm v ?h) = lk_rx_expected l - 1"
    by (simp_all add: mux_header_norm_def Let_def Protocol_from_wire_def)
  ultimately show ?thesis
    using s fits(2) pay MuxHeader_decode_bytes [of v ?h ?seg] TcpHeader_decode_bytes [of "seg_header g" "seg_payload g"]
    by (intro exI [of _ ?packet] exI [of _ w] exI [of _ r] exI [of _ "mux_header_norm v ?h"] exI [of _ ?seg]) simp
qed

section \<open>Examples\<close>

text \<open>A transport that records what it is given, always answers with a version packet, and has no clock.\<close>

definition ex_bt :: "bytes list bulk_transport" where
  "ex_bt = \<lparr>bt_send = \<lambda>w packet. (w @ [packet], Inr ()),
     bt_recv = \<lambda>w timeout. (w, Inr (Some (VersionRequest_bytes (VersionRequest_exact V2)))), bt_max_packet = \<lambda>w. 0x8000,
     bt_send_capacity = \<lambda>w. None, bt_device_accepted = \<lambda>w. None, bt_now = \<lambda>w. (w, 0)\<rparr>"

definition ex_link :: "MuxSession \<Rightarrow> bytes list MuxLink" where
  "ex_link s = (MuxLink_new [] 1 4)\<lparr>lk_version := Some V2, lk_sessions := [49152 \<mapsto> s]\<rparr>"


definition ex_negotiated :: "bytes list MuxLink" where
  "ex_negotiated = (MuxLink_new [VersionRequest_bytes (VersionRequest_exact V2)] 1 4)\<lparr>lk_version := Some V2\<rparr>"

lemma ex_negotiate: "negotiate ex_bt (VersionRequest_exact V2) 1 (MuxLink_new [] 1 4) = Some (ex_negotiated, Inr V2)"
proof -
  let ?l = "MuxLink_new [VersionRequest_bytes (VersionRequest_exact V2)] 1 4"
  have "VersionPacket_decode (VersionRequest_bytes (VersionRequest_exact V2)) = Inr (VersionRequest_packet (VersionRequest_exact V2))"
    unfolding VersionRequest_bytes_def by code_simp
  moreover have "VersionPacket_negotiated (VersionRequest_packet (VersionRequest_exact V2)) = V2" by code_simp
  ultimately have "negotiate_body ex_bt 1 1 ?l = (ex_negotiated, Inr (Inr V2))"
    by (simp add: negotiate_body_def clock_def ex_bt_def ex_negotiated_def MuxLink_new_def)
  moreover have "clock ex_bt ?l = (?l, 0)" by (simp add: clock_def ex_bt_def MuxLink_new_def)
  moreover have "transport_send ex_bt (VersionRequest_bytes (VersionRequest_exact V2)) (MuxLink_new [] 1 4) = (?l, Inr ())"
    by (simp add: transport_send_def ex_bt_def MuxLink_new_def)
  ultimately show ?thesis by (simp add: negotiate_def loopL_unfold(3))
qed

lemma ex_begin_open: "\<exists>l s r. begin_open ex_bt 62078 ex_negotiated = (l, r) \<and> lk_sessions l 49152 = Some s"
proof -
  let ?l = "ex_negotiated\<lparr>lk_next_local_port := 49153\<rparr>"
  have "allocate_port ex_negotiated = (?l, Inr 49152)"
    unfolding allocate_port_def Suc_eq_plus1 [symmetric] allocate_from.simps
    by (simp add: ex_negotiated_def MuxLink_new_def FIRST_LOCAL_PORT_def)
  moreover have "segment_size ex_bt ?l = Inr 32728"
    by (simp add: segment_size_def ex_negotiated_def ex_bt_def frame_consts TCP_HEADER_LEN_def)
  moreover obtain l1 i where i: "next_initial_sequence 49152 ?l = (l1, i)" by fastforce
  moreover obtain s syn where o: "MuxSession_open \<lparr>cfg_local_port = 49152, cfg_remote_port = 62078,
      cfg_initial_sequence = i, cfg_mss = 32728, cfg_receive_window = lk_receive_window l1\<rparr> = (s, syn)" by fastforce
  moreover obtain l2 x where x: "send_segment ex_bt syn (set_session 49152 s l1) = (l2, x)" by fastforce
  moreover have "lk_sessions l2 49152 = Some s" using send_segment_same [OF x] by (simp add: same_sessions_def set_session_def)
  ultimately show ?thesis by (cases x) (simp_all add: begin_open_def)
qed

theorem link_sessions_are_runs_witness:
  "\<exists>l s config ls. link_reach ex_bt l \<and> lk_sessions l 49152 = Some s \<and> session_run config ls s \<and> cfg_local_port config = 49152"
proof -
  obtain l s r where o: "begin_open ex_bt 62078 ex_negotiated = (l, r)" "lk_sessions l 49152 = Some s"
    using ex_begin_open by blast
  have "link_reach ex_bt ex_negotiated"
    by (rule reach_step [OF reach_new do_negotiate [OF ex_negotiate]])
  then have "link_reach ex_bt l" by (rule reach_step [OF _ do_begin_open [OF o(1)]])
  with link_sessions_are_runs [OF this o(2)] o(2) show ?thesis by blast
qed

definition ex_device_packet :: bytes where
  "ex_device_packet = mux_header_bytes V2 \<lparr>mh_protocol = Tcp, mh_length = 38, mh_magic = DEVICE_MAGIC, mh_tx_seq = 0, mh_rx_ack = 0\<rparr>
     @ tcp_header_bytes (ex_header 1001 3 ACK) @ [9, 8]"

lemma ex_route: "lk_sessions (fst (route_packet ex_bt V2 ex_device_packet (ex_link ex_s3))) = [49152 \<mapsto> ex_s4]"
proof -
  let ?h = "\<lparr>mh_protocol = Tcp, mh_length = 38, mh_magic = DEVICE_MAGIC, mh_tx_seq = 0, mh_rx_ack = 0\<rparr>"
  have norm: "mux_header_norm V2 ?h = ?h" by (simp add: mux_header_norm_def Protocol_from_wire_def)
  have 1: "MuxHeader_decode V2 ex_device_packet = Inr ?h"
    using MuxHeader_decode_bytes [of V2 ?h "tcp_header_bytes (ex_header 1001 3 ACK) @ [9, 8]"] by (simp add: ex_device_packet_def norm)
  have 2: "MuxHeader_payload ?h V2 ex_device_packet = Inr (tcp_header_bytes (ex_header 1001 3 ACK) @ [9, 8])"
    using MuxHeader_payload_frame [of ?h V2 "tcp_header_bytes (ex_header 1001 3 ACK) @ [9, 8]"]
    by (simp add: ex_device_packet_def norm TCP_HEADER_LEN_def frame_consts)
  have "window_from_wire (window_to_wire 256) = 256" by code_simp
  then have 3: "TcpHeader_decode (tcp_header_bytes (ex_header 1001 3 ACK) @ [9, 8]) = Inr (ex_header 1001 3 ACK)"
    by (simp add: TcpHeader_decode_bytes tcp_header_norm_def ex_header_def)
  obtain e where 4: "on_segment ex_s3 (ex_header 1001 3 ACK) [9, 8] = (ex_s4, e)" using ex_s4_def by (metis fst_conv surj_pair)
  have 5: "th_destination_port (ex_header 1001 3 ACK) = 49152" by (simp add: ex_header_def)
  show ?thesis
    using 1 2 3 4 5
    by (cases e) (simp_all add: route_packet_def route_tcp_def ex_link_def MuxLink_new_def set_session_def clock_def ex_bt_def Let_def)
qed

theorem link_delivers_in_sequence_witness:
  "\<exists>h payload tcp. MuxHeader_decode V2 ex_device_packet = Inr h \<and> MuxHeader_payload h V2 ex_device_packet = Inr payload
    \<and> mh_protocol h = Tcp \<and> TcpHeader_decode payload = Inr tcp \<and> lk_sessions (ex_link ex_s3) (th_destination_port tcp) = Some ex_s3"
proof -
  have "inbound ex_s4 \<noteq> inbound ex_s3" by code_simp
  then have "lk_sessions (fst (route_packet ex_bt V2 ex_device_packet (ex_link ex_s3))) \<noteq> lk_sessions (ex_link ex_s3)"
    unfolding ex_route by (auto simp: ex_link_def fun_eq_iff)
  from link_delivers_in_sequence [OF prod.collapse [symmetric] this] show ?thesis
    by (auto simp: ex_link_def split: if_splits)
qed

theorem link_packet_carries_segment_witness:
  "\<exists>packet h. send_segment ex_bt ex_syn (ex_link ex_s0)
      = ((ex_link ex_s0)\<lparr>lk_transport := [packet], lk_tx_seq := 1\<rparr>, Inr ())
    \<and> MuxHeader_decode V2 packet = Inr h \<and> mh_protocol h = Tcp"
proof -
  have "lk_version (ex_link ex_s0) = Some V2" by (simp add: ex_link_def)
  moreover have "segment_size ex_bt (ex_link ex_s0) = Inr 32728"
    by (simp add: segment_size_def ex_link_def ex_bt_def frame_consts TCP_HEADER_LEN_def)
  moreover have "length (seg_payload ex_syn) \<le> 32728" by (simp add: ex_syn_def MuxSession_open_def)
  ultimately show ?thesis
    using link_packet_carries_segment [of "ex_link ex_s0" V2 ex_bt 32728 ex_syn]
    by (auto simp: ex_bt_def ex_link_def MuxLink_new_def)
qed

end
