(* ===== verification/Lzvn.thy ===== *)
theory Lzvn imports Prelude begin

text \<open>
  The LZVN decoder (\<^verbatim>\<open>lzvn.rs\<close>). The loop of \<^verbatim>\<open>decode_onto\<close> is \<open>decode_loop\<close>; its body is split
  where the source is: \<open>operands\<close> is the match on the opcode, \<open>take_literals\<close> the literal block and
  \<open>copy_match\<close> the match block. The output vector is part of every result, because an error leaves
  in it what was decoded before. Offsets are natural numbers: every offset stays below the length
  of a slice, which a \<^verbatim>\<open>usize\<close> holds; the one addition that may overflow, of the base and the
  caller's limit, keeps its check.
\<close>

section \<open>Data\<close>

datatype LzvnError =
    Truncated nat
  | ReservedOpcode nat u8
  | DistanceTooFar nat nat nat
  | NoPreviousDistance nat
  | OutputTooLarge nat
  | Unterminated nat

definition END_OF_STREAM_BYTES :: nat where "END_OF_STREAM_BYTES = 8"

datatype Opcode =
    SmallDistance | MediumDistance | LargeDistance | PreviousDistance
  | SmallLiteral | LargeLiteral | SmallMatch | LargeMatch
  | Nop | EndOfStream | Reserved

section \<open>Operations\<close>

definition classify :: "u8 \<Rightarrow> Opcode" where
  "classify opcode =
     (if opcode = 0xe0 then LargeLiteral
      else if 0xe1 \<le> opcode \<and> opcode \<le> 0xef then SmallLiteral
      else if opcode = 0xf0 then LargeMatch
      else if 0xf1 \<le> opcode \<and> opcode \<le> 0xff then SmallMatch
      else if 0xa0 \<le> opcode \<and> opcode \<le> 0xbf then MediumDistance
      else if opcode = 0x06 then EndOfStream
      else if opcode = 0x0e \<or> opcode = 0x16 then Nop
      else if opcode \<in> {0x1e, 0x26, 0x2e, 0x36, 0x3e} then Reserved
      else if 0x70 \<le> opcode \<and> opcode \<le> 0x7f \<or> 0xd0 \<le> opcode \<and> opcode \<le> 0xdf then Reserved
      else if opcode AND 0x07 = 7 then LargeDistance
      else if opcode AND 0x07 = 6 then PreviousDistance
      else SmallDistance)"

definition byte_at :: "bytes \<Rightarrow> nat \<Rightarrow> nat \<Rightarrow> LzvnError + u8" where
  "byte_at stream at start = ok_or (Truncated start) (get_at stream at)"

definition half_word_at :: "bytes \<Rightarrow> nat \<Rightarrow> nat \<Rightarrow> LzvnError + u16" where
  "half_word_at stream at start =
     bindE (byte_at stream at start) (\<lambda>low.
     bindE (byte_at stream (at + 1) start) (\<lambda>high. Inr (from_le16 [low, high])))"

text \<open>
  The operands an opcode carries: the literal count, the match length, the distance in force from
  here on, and the offset behind the opcode.
\<close>

record Operands =
  op_literals :: nat
  op_length :: nat
  op_distance :: nat
  op_at :: nat

definition operands :: "bytes \<Rightarrow> u8 \<Rightarrow> nat \<Rightarrow> nat \<Rightarrow> LzvnError + Operands" where
  "operands stream opcode at distance =
     (case classify opcode of
        SmallDistance \<Rightarrow>
          bindE (byte_at stream (at + 1) at) (\<lambda>low.
            Inr \<lparr>op_literals = unat (drop_bit 6 opcode),
                 op_length = unat (drop_bit 3 opcode AND 0x07) + 3,
                 op_distance = unat (push_bit 8 (ucast (opcode AND 0x07) :: u64) OR ucast low),
                 op_at = at + 2\<rparr>)
      | MediumDistance \<Rightarrow>
          bindE (half_word_at stream (at + 1) at) (\<lambda>packed.
            Inr \<lparr>op_literals = unat (drop_bit 3 opcode AND 0x03),
                 op_length = unat (push_bit 2 (ucast (opcode AND 0x07) :: u64) OR ucast (packed AND 0x03)) + 3,
                 op_distance = unat (drop_bit 2 packed),
                 op_at = at + 3\<rparr>)
      | LargeDistance \<Rightarrow>
          bindE (half_word_at stream (at + 1) at) (\<lambda>far.
            Inr \<lparr>op_literals = unat (drop_bit 6 opcode),
                 op_length = unat (drop_bit 3 opcode AND 0x07) + 3,
                 op_distance = unat far,
                 op_at = at + 3\<rparr>)
      | PreviousDistance \<Rightarrow>
          Inr \<lparr>op_literals = unat (drop_bit 6 opcode),
               op_length = unat (drop_bit 3 opcode AND 0x07) + 3,
               op_distance = distance,
               op_at = at + 1\<rparr>
      | SmallLiteral \<Rightarrow>
          Inr \<lparr>op_literals = unat (opcode AND 0x0f), op_length = 0, op_distance = distance, op_at = at + 1\<rparr>
      | LargeLiteral \<Rightarrow>
          bindE (byte_at stream (at + 1) at) (\<lambda>count.
            Inr \<lparr>op_literals = unat count + 16, op_length = 0, op_distance = distance, op_at = at + 2\<rparr>)
      | SmallMatch \<Rightarrow>
          Inr \<lparr>op_literals = 0, op_length = unat (opcode AND 0x0f), op_distance = distance, op_at = at + 1\<rparr>
      | LargeMatch \<Rightarrow>
          bindE (byte_at stream (at + 1) at) (\<lambda>count.
            Inr \<lparr>op_literals = 0, op_length = unat count + 16, op_distance = distance, op_at = at + 2\<rparr>)
      | Nop \<Rightarrow> Inr \<lparr>op_literals = 0, op_length = 0, op_distance = distance, op_at = at + 1\<rparr>
      | _ \<Rightarrow> Inl (ReservedOpcode at opcode))"

definition take_literals ::
    "bytes \<Rightarrow> nat \<Rightarrow> nat \<Rightarrow> nat \<Rightarrow> Operands \<Rightarrow> bytes \<Rightarrow> LzvnError + nat \<times> bytes" where
  "take_literals stream limit ceiling start ops out =
     (if op_literals ops = 0 then Inr (op_at ops, out)
      else
        let stop = op_at ops + op_literals ops in
        if stop > length stream then Inl (Truncated start)
        else if length out + op_literals ops > ceiling then Inl (OutputTooLarge limit)
        else Inr (stop, out @ subslice stream (op_at ops) stop))"

fun copy_bytes :: "nat \<Rightarrow> nat \<Rightarrow> bytes \<Rightarrow> bytes" where
  "copy_bytes src 0 out = out"
| "copy_bytes src (Suc n) out = copy_bytes (src + 1) n (out @ [out ! src])"

definition copy_match ::
    "nat \<Rightarrow> nat \<Rightarrow> nat \<Rightarrow> nat \<Rightarrow> Operands \<Rightarrow> bytes \<Rightarrow> LzvnError + bytes" where
  "copy_match base limit ceiling start ops out =
     (if op_length ops = 0 then Inr out
      else if op_distance ops = 0 then Inl (NoPreviousDistance start)
      else
        let decoded = length out - base in
        if op_distance ops > decoded then Inl (DistanceTooFar start (op_distance ops) decoded)
        else if length out + op_length ops > ceiling then Inl (OutputTooLarge limit)
        else Inr (copy_bytes (length out - op_distance ops) (op_length ops) out))"

text \<open>
  One round of the loop either returns or goes on at a later offset: a no-op opcode continues
  like an opcode with no literals and no match, and each round moves past at least the opcode
  byte.
\<close>

datatype decode_state =
    Return bytes "LzvnError + unit"
  | Continue nat nat bytes

definition decode_round ::
    "bytes \<Rightarrow> nat \<Rightarrow> nat \<Rightarrow> nat \<Rightarrow> nat \<Rightarrow> nat \<Rightarrow> bytes \<Rightarrow> decode_state" where
  "decode_round stream base limit ceiling at distance out =
     (if length stream \<le> at then Return out (Inl (Unterminated (length out - base)))
      else
        let opcode = stream ! at in
        if classify opcode = EndOfStream then
          Return out (if length stream - at < END_OF_STREAM_BYTES then Inl (Truncated at) else Inr ())
        else
          (case operands stream opcode at distance of
             Inl e \<Rightarrow> Return out (Inl e)
           | Inr ops \<Rightarrow>
               (case take_literals stream limit ceiling at ops out of
                  Inl e \<Rightarrow> Return out (Inl e)
                | Inr (at', out1) \<Rightarrow>
                    (case copy_match base limit ceiling at ops out1 of
                       Inl e \<Rightarrow> Return out1 (Inl e)
                     | Inr out2 \<Rightarrow> Continue at' (op_distance ops) out2))))"

lemma operands_advance: "operands stream opcode at distance = Inr ops \<Longrightarrow> at < op_at ops"
  by (auto simp: operands_def bindE_eq_Inr split: Opcode.splits)

lemma decode_round_advance:
  "decode_round stream base limit ceiling at distance out = Continue at' distance' out' \<Longrightarrow>
   at < at' \<and> at < length stream"
  by (auto simp: decode_round_def take_literals_def Let_def split: if_splits sum.splits prod.splits
      dest!: operands_advance)

function decode_loop ::
    "bytes \<Rightarrow> nat \<Rightarrow> nat \<Rightarrow> nat \<Rightarrow> nat \<Rightarrow> nat \<Rightarrow> bytes \<Rightarrow> bytes \<times> (LzvnError + unit)" where
  "decode_loop stream base limit ceiling at distance out =
     (case decode_round stream base limit ceiling at distance out of
        Return out' r \<Rightarrow> (out', r)
      | Continue at' distance' out' \<Rightarrow> decode_loop stream base limit ceiling at' distance' out')"
  by pat_completeness auto
termination
  by (relation "measure (\<lambda>(stream, base, limit, ceiling, at, distance, out). length stream - at)")
    (auto dest!: decode_round_advance)

declare decode_loop.simps [simp del]

definition decode_onto :: "bytes \<Rightarrow> nat \<Rightarrow> bytes \<Rightarrow> bytes \<times> (LzvnError + unit)" where
  "decode_onto stream limit out =
     (let base = length out in
      if int base + int limit \<ge> 2 ^ 64 then (out, Inl (OutputTooLarge limit))
      else decode_loop stream base limit (base + limit) 0 0 out)"

definition lzvn_decode :: "bytes \<Rightarrow> nat \<Rightarrow> LzvnError + bytes" where
  "lzvn_decode stream limit =
     (case decode_onto stream limit [] of
        (out, Inl e) \<Rightarrow> Inl e
      | (out, Inr u) \<Rightarrow> Inr out)"

section \<open>Specification\<close>

text \<open>
  A match of \<open>n\<close> bytes at distance \<open>d\<close> extends the output periodically, also where the source of
  the copy overlaps its target; a stored stream spells its data in literal opcodes of at most 15
  bytes each, then the end of stream.
\<close>

definition periodic :: "bytes \<Rightarrow> nat \<Rightarrow> nat \<Rightarrow> bytes" where
  "periodic out d n = map (\<lambda>i. out ! (length out - d + i mod d)) [0..<n]"

definition end_of_stream :: bytes where
  "end_of_stream = [0x06, 0, 0, 0, 0, 0, 0, 0]"

definition literal_block :: "bytes \<Rightarrow> bytes" where
  "literal_block c = (0xe0 + word_of_nat (length c)) # c"

definition stored_stream :: "bytes \<Rightarrow> bytes" where
  "stored_stream xs = concat (map literal_block (chunks 15 xs)) @ end_of_stream"

text \<open>The output a round leaves, and a round whose output stands behind a prefix.\<close>

definition state_out :: "decode_state \<Rightarrow> bytes" where
  "state_out r = (case r of Return out e \<Rightarrow> out | Continue at d out \<Rightarrow> out)"

fun shift_state :: "bytes \<Rightarrow> decode_state \<Rightarrow> decode_state" where
  "shift_state p (Return out r) = Return (p @ out) r"
| "shift_state p (Continue at d out) = Continue at d (p @ out)"

section \<open>Lemmas\<close>

lemma length_copy_bytes [simp]: "length (copy_bytes src n out) = length out + n"
  by (induction n arbitrary: src out) auto

lemma copy_bytes_extends: "\<exists>z. copy_bytes src n out = out @ z"
proof (induction n arbitrary: src out)
  case (Suc n)
  obtain z where "copy_bytes (src + 1) n (out @ [out ! src]) = (out @ [out ! src]) @ z"
    using Suc by blast
  then show ?case by simp
qed simp

lemma copy_bytes_prefix:
  "src < length out \<Longrightarrow> copy_bytes (length p + src) n (p @ out) = p @ copy_bytes src n out"
proof (induction n arbitrary: src out)
  case (Suc n)
  have "copy_bytes (length p + src) (Suc n) (p @ out)
      = copy_bytes (length p + (src + 1)) n (p @ (out @ [out ! src]))" by simp
  also have "\<dots> = p @ copy_bytes (src + 1) n (out @ [out ! src])"
    using Suc.prems by (intro Suc.IH) simp
  finally show ?case by simp
qed simp

lemma periodic_Suc: "periodic out d (Suc n) = periodic out d n @ [out ! (length out - d + n mod d)]"
  by (simp add: periodic_def)

lemma length_periodic [simp]: "length (periodic out d n) = n"
  by (simp add: periodic_def)

lemma periodic_next:
  assumes "0 < d" "d \<le> length out"
  shows "(out @ periodic out d k) ! (length out - d + k) = out ! (length out - d + k mod d)"
proof (cases "k < d")
  case True
  with assms have "length out - d + k < length out" by simp
  with True show ?thesis by (simp add: nth_append)
next
  case False
  with assms have "length out - d + k = length out + (k - d)" by simp
  moreover have "periodic out d k ! (k - d) = out ! (length out - d + (k - d) mod d)"
    using False assms by (simp add: periodic_def)
  moreover have "(k - d) mod d = k mod d" using False by (simp add: le_mod_geq)
  ultimately show ?thesis by (simp add: nth_append)
qed

lemma copy_bytes_from:
  assumes "0 < d" "d \<le> length out"
  shows "copy_bytes (length out - d + k) n (out @ periodic out d k) = out @ periodic out d (k + n)"
proof (induction n arbitrary: k)
  case (Suc n)
  then show ?case
    using Suc [of "Suc k"] periodic_next [OF assms] by (simp add: periodic_Suc)
qed simp

lemma copy_match_extends:
  assumes "copy_match base limit ceiling start ops out = Inr out'" "length out \<le> ceiling"
  shows "(\<exists>z. out' = out @ z) \<and> length out' \<le> ceiling"
proof -
  from assms have "out' = out \<or> out' = copy_bytes (length out - op_distance ops) (op_length ops) out"
    and "length out' \<le> ceiling"
    by (auto simp: copy_match_def Let_def split: if_splits)
  moreover obtain z where "copy_bytes (length out - op_distance ops) (op_length ops) out = out @ z"
    using copy_bytes_extends by blast
  ultimately show ?thesis by auto
qed

lemma take_literals_extends:
  assumes "take_literals stream limit ceiling start ops out = Inr (at', out')" "length out \<le> ceiling"
  shows "(\<exists>z. out' = out @ z) \<and> length out' \<le> ceiling"
  using assms by (auto simp: take_literals_def Let_def split: if_splits)

lemma decode_round_extends:
  assumes "length out \<le> ceiling"
  shows "\<exists>z. state_out (decode_round stream base limit ceiling at distance out) = out @ z
     \<and> length out + length z \<le> ceiling"
proof -
  let ?r = "decode_round stream base limit ceiling at distance out"
  have "\<exists>z. state_out ?r = out @ z" "length (state_out ?r) \<le> ceiling"
    using assms
    by (auto simp: decode_round_def state_out_def Let_def split: sum.splits
        dest!: copy_match_extends take_literals_extends)
  then show ?thesis by auto
qed

lemma decode_loop_extends:
  assumes "length out \<le> ceiling"
  shows "\<exists>z. fst (decode_loop stream base limit ceiling at distance out) = out @ z
     \<and> length out + length z \<le> ceiling"
  using assms
proof (induction stream base limit ceiling at distance out rule: decode_loop.induct)
  case (1 stream base limit ceiling at distance out)
  let ?r = "decode_round stream base limit ceiling at distance out"
  obtain z where z: "state_out ?r = out @ z" "length out + length z \<le> ceiling"
    using decode_round_extends [OF 1(2)] by blast
  show ?case
  proof (cases ?r)
    case (Return out' r)
    with z show ?thesis by (subst decode_loop.simps) (simp add: state_out_def)
  next
    case (Continue at' d' out')
    with z have "length out' \<le> ceiling" "out' = out @ z" by (simp_all add: state_out_def)
    with 1(1) [OF Continue] obtain z' where
      "fst (decode_loop stream base limit ceiling at' d' out') = out @ z @ z'"
      "length out + length (z @ z') \<le> ceiling" by auto
    with Continue show ?thesis by (subst decode_loop.simps) auto
  qed
qed

lemma take_literals_prefix:
  "take_literals stream limit (length p + ceiling) start ops (p @ out) =
     (case take_literals stream limit ceiling start ops out of
        Inl e \<Rightarrow> Inl e | Inr (at', out') \<Rightarrow> Inr (at', p @ out'))"
  by (simp add: take_literals_def Let_def)

lemma copy_match_prefix:
  "copy_match (length p) limit (length p + ceiling) start ops (p @ out) =
     (case copy_match 0 limit ceiling start ops out of Inl e \<Rightarrow> Inl e | Inr out' \<Rightarrow> Inr (p @ out'))"
proof (cases "0 < op_length ops \<and> 0 < op_distance ops \<and> op_distance ops \<le> length out")
  case True
  then have "length p + length out - op_distance ops = length p + (length out - op_distance ops)" by simp
  moreover have "copy_bytes (length p + (length out - op_distance ops)) (op_length ops) (p @ out)
      = p @ copy_bytes (length out - op_distance ops) (op_length ops) out"
    using True by (intro copy_bytes_prefix diff_less) auto
  ultimately show ?thesis using True by (simp add: copy_match_def)
qed (auto simp: copy_match_def Let_def)

lemma decode_round_prefix:
  "decode_round stream (length p) limit (length p + ceiling) at distance (p @ out) =
     shift_state p (decode_round stream 0 limit ceiling at distance out)"
  by (simp add: decode_round_def Let_def take_literals_prefix copy_match_prefix
      split: sum.splits prod.splits)

lemma decode_loop_prefix:
  "decode_loop stream (length p) limit (length p + ceiling) at distance (p @ out) =
     (case decode_loop stream 0 limit ceiling at distance out of (out', r) \<Rightarrow> (p @ out', r))"
proof (induction stream "0 :: nat" limit ceiling at distance out rule: decode_loop.induct)
  case (1 stream limit ceiling at distance out)
  show ?case
  proof (cases "decode_round stream 0 limit ceiling at distance out")
    case (Return out' r)
    then show ?thesis
      by (subst (1 2) decode_loop.simps) (simp add: decode_round_prefix)
  next
    case (Continue at' d' out')
    with 1 [OF Continue] show ?thesis
      by (subst (1 2) decode_loop.simps) (simp add: decode_round_prefix)
  qed
qed

lemma small_literal:
  assumes "0 < n" "n < 16"
  shows "classify (0xe0 + word_of_nat n) = SmallLiteral" "unat ((0xe0 + word_of_nat n :: u8) AND 0x0f) = n"
proof -
  have "list_all (\<lambda>n. classify (0xe0 + word_of_nat n) = SmallLiteral
      \<and> unat ((0xe0 + word_of_nat n :: u8) AND 0x0f) = n) [1..<16]"
    by code_simp
  with assms show "classify (0xe0 + word_of_nat n) = SmallLiteral"
    "unat ((0xe0 + word_of_nat n :: u8) AND 0x0f) = n"
    by (auto simp: list_all_iff)
qed

lemma decode_round_literal_block:
  assumes "0 < length c" "length c < 16" "length out + length c \<le> ceiling"
  shows "decode_round (pre @ literal_block c @ post) base limit ceiling (length pre) distance out =
     Continue (length (pre @ literal_block c)) distance (out @ c)"
proof -
  let ?stream = "pre @ literal_block c @ post" and ?op = "0xe0 + word_of_nat (length c) :: u8"
  have nth: "?stream ! length pre = ?op" by (simp add: literal_block_def)
  have ops: "operands ?stream ?op (length pre) distance =
      Inr \<lparr>op_literals = length c, op_length = 0, op_distance = distance, op_at = length pre + 1\<rparr>"
    using small_literal [OF assms(1,2)] by (simp add: operands_def)
  have "subslice ?stream (length pre + 1) (length pre + 1 + length c) = c"
    by (simp add: literal_block_def subslice_def)
  with assms nth ops small_literal [OF assms(1,2)] show ?thesis
    by (simp add: decode_round_def take_literals_def copy_match_def Let_def)
      (simp add: literal_block_def)
qed

lemma decode_round_end_of_stream:
  "decode_round (pre @ end_of_stream) base limit ceiling (length pre) distance out = Return out (Inr ())"
  by (simp add: decode_round_def Let_def end_of_stream_def END_OF_STREAM_BYTES_def classify_def)

lemma decode_loop_stored:
  assumes "\<forall>c \<in> set cs. 0 < length c \<and> length c < 16"
    and "length out + length (concat cs) \<le> ceiling"
  shows "decode_loop (pre @ concat (map literal_block cs) @ end_of_stream) base limit ceiling (length pre) distance out
     = (out @ concat cs, Inr ())"
  using assms
proof (induction cs arbitrary: pre out)
  case Nil
  then show ?case by (subst decode_loop.simps) (simp add: decode_round_end_of_stream)
next
  case (Cons c cs)
  let ?rest = "concat (map literal_block cs) @ end_of_stream"
  have "decode_round (pre @ literal_block c @ ?rest) base limit ceiling (length pre) distance out =
     Continue (length (pre @ literal_block c)) distance (out @ c)"
    using Cons.prems by (intro decode_round_literal_block) auto
  then show ?case
    using Cons.IH [of "out @ c" "pre @ literal_block c"] Cons.prems
    by (subst decode_loop.simps) simp
qed

lemma chunks_short: "c \<in> set (chunks n xs) \<Longrightarrow> 0 < n \<Longrightarrow> 0 < length c \<and> length c \<le> n"
  by (induction n xs rule: chunks.induct) (subst (asm) (2) chunks.simps, auto split: if_splits)

section \<open>Properties\<close>

text \<open>
  Claim C18. Whatever the stream, decoding ends, keeps what the vector held before, and adds at
  most \<open>limit\<close> bytes to it, on the error paths too.
\<close>

theorem lzvn_output_bounded:
  "\<exists>z. fst (decode_onto stream limit out) = out @ z \<and> length z \<le> limit"
  using decode_loop_extends [of out "length out + limit" stream "length out" limit 0 0]
  by (auto simp: decode_onto_def Let_def)

text \<open>
  Claim C16. Decoding onto a vector is decoding a stream on its own and appending the result: no
  match reaches into the bytes that were there before, and errors, their offsets and counts
  included, do not depend on them.
\<close>

theorem lzvn_onto_refines_decode:
  assumes "length out + limit < 2 ^ 64"
  shows "decode_onto stream limit out =
     (case decode_onto stream limit [] of (decoded, r) \<Rightarrow> (out @ decoded, r))"
proof -
  from assms have "int (length out) + int limit < 2 ^ 64" "int limit < 2 ^ 64" by simp_all
  then show ?thesis
    using decode_loop_prefix [of stream out limit limit 0 0 "[]"] by (simp add: decode_onto_def)
qed

theorem lzvn_onto_refines_decode_witness:
  "decode_onto [0xe2, 1, 2, 0x00, 2, 6, 0, 0, 0, 0, 0, 0, 0] 10 [9, 9] = ([9, 9, 1, 2, 1, 2, 1], Inr ())"
proof -
  let ?s = "[0xe2, 1, 2, 0x00, 2, 6, 0, 0, 0, 0, 0, 0, 0] :: bytes"
  have "decode_onto ?s 10 [] = ([1, 2, 1, 2, 1], Inr ())" by code_simp
  with lzvn_onto_refines_decode [of "[9, 9]" 10 ?s] show ?thesis by simp
qed

text \<open>
  The byte-by-byte copy of a match is the periodic extension of the last \<open>d\<close> bytes,
  also when the match is longer than its distance and reads bytes it has itself produced.
\<close>

lemma lzvn_match_is_periodic:
  assumes "0 < d" "d \<le> length out"
  shows "copy_bytes (length out - d) n out = out @ periodic out d n"
  using copy_bytes_from [OF assms, of 0] by (simp add: periodic_def)



end
