(* ===== verification/Checksums.thy ===== *)
theory Checksums imports Prelude begin

text \<open>
  The checksums the payload containers carry: the two CRC-32 loops of \<^verbatim>\<open>crypto/crc32.rs\<close> and
  \<^verbatim>\<open>adler32\<close> of \<^verbatim>\<open>asr_server/deflate.rs\<close>. The CRCs are shown to detect every change of a single
  byte, and the 32-bit accumulators of \<^verbatim>\<open>adler32\<close>, reduced only once per run of 5552 bytes, are
  shown never to wrap.
\<close>

section \<open>CRC-32\<close>

definition crc_bit :: "u32 \<Rightarrow> u32 \<Rightarrow> u32" where
  "crc_bit poly crc = drop_bit 1 crc XOR (poly AND - (crc AND 1))"

definition crc_byte :: "u32 \<Rightarrow> u32 \<Rightarrow> u8 \<Rightarrow> u32" where
  "crc_byte poly crc byte = (crc_bit poly ^^ 8) (crc XOR ucast byte)"

definition embedded_panic_crc32 :: "bytes \<Rightarrow> u32" where
  "embedded_panic_crc32 bs = NOT (foldl (crc_byte 0xedb88320) (- 1) bs)"

definition crc32c_update :: "u32 \<Rightarrow> bytes \<Rightarrow> u32" where
  "crc32c_update crc bs = foldl (crc_byte 0x82f63b78) crc bs"

section \<open>Adler-32\<close>

definition ADLER_MODULUS :: u32 where "ADLER_MODULUS = 65521"

definition ADLER_RUN :: nat where "ADLER_RUN = 5552"

fun adler_byte :: "u32 \<times> u32 \<Rightarrow> u8 \<Rightarrow> u32 \<times> u32" where
  "adler_byte (low, high) byte = (let low = low + ucast byte in (low, high + low))"

definition adler_run :: "u32 \<times> u32 \<Rightarrow> bytes \<Rightarrow> u32 \<times> u32" where
  "adler_run st run =
     (case foldl adler_byte st run of (low, high) \<Rightarrow> (low mod ADLER_MODULUS, high mod ADLER_MODULUS))"

definition adler32 :: "bytes \<Rightarrow> u32" where
  "adler32 data =
     (case foldl adler_run (1, 0) (chunks ADLER_RUN data) of (low, high) \<Rightarrow> push_bit 16 high OR low)"

section \<open>Specification\<close>

text \<open>The two sums of RFC 1950, over the unbounded naturals.\<close>

definition adler_a :: "bytes \<Rightarrow> nat" where
  "adler_a data = 1 + sum_list (map unat data)"

definition adler_b :: "bytes \<Rightarrow> nat" where
  "adler_b data = (\<Sum>i<length data. adler_a (take (Suc i) data))"

fun adler_exact :: "nat \<times> nat \<Rightarrow> u8 \<Rightarrow> nat \<times> nat" where
  "adler_exact (a, b) byte = (a + unat byte, b + (a + unat byte))"

section \<open>Lemmas: CRC\<close>

lemma bit_mask_word: "bit (- (c AND 1) :: u32) n \<longleftrightarrow> n < 32 \<and> bit c 0"
proof -
  have "c AND 1 = of_bool (odd c)" by (simp only: and_one_eq mod_2_eq_odd)
  then show ?thesis by (cases "odd c") (simp_all add: bit_0)
qed

lemma xor_cancel_right: "a XOR c = b XOR c \<longleftrightarrow> a = b" for a b c :: "'a::len word"
proof
  assume "a XOR c = b XOR c"
  then have "(a XOR c) XOR c = (b XOR c) XOR c" by simp
  then show "a = b" by (simp add: xor.assoc)
qed simp

lemma bit_crc_bit: "bit (crc_bit poly e) n \<longleftrightarrow> bit e (Suc n) \<noteq> (bit poly n \<and> n < 32 \<and> bit e 0)"
  unfolding crc_bit_def bit_xor_iff bit_and_iff bit_drop_bit_eq bit_mask_word by simp

lemma crc_bit_inj:
  assumes "bit poly 31" "crc_bit poly c = crc_bit poly d"
  shows "c = d"
proof -
  have out: "\<not> bit e 32" for e :: u32 using bit_imp_le_length [of e 32] by auto
  have same: "(bit c (Suc n) \<noteq> (bit poly n \<and> n < 32 \<and> bit c 0)) =
      (bit d (Suc n) \<noteq> (bit poly n \<and> n < 32 \<and> bit d 0))" for n
    unfolding bit_crc_bit [symmetric] assms(2) by (rule refl)
  have zero: "bit c 0 = bit d 0" using same [of 31] out assms(1) by simp
  show "c = d"
  proof (rule bit_eqI)
    fix n show "bit c n \<longleftrightarrow> bit d n"
    proof (cases n)
      case (Suc m)
      then show ?thesis using same [of m] zero by blast
    qed (use zero in simp)
  qed
qed

lemma crc_bits_inj: "bit poly 31 \<Longrightarrow> (crc_bit poly ^^ k) c = (crc_bit poly ^^ k) d \<Longrightarrow> c = d"
  by (induction k) (auto dest: crc_bit_inj)

lemma crc_byte_inj: "bit poly 31 \<Longrightarrow> crc_byte poly c x = crc_byte poly d x \<Longrightarrow> c = d"
  unfolding crc_byte_def using crc_bits_inj [of poly 8 "c XOR ucast x" "d XOR ucast x"]
  by (simp only: xor_cancel_right)

lemma unat_ucast_byte: "unat (ucast b :: u32) = unat (b :: u8)"
proof -
  have "unat b < 2 ^ 8" using unsigned_less [of b] by simp
  then have "unat b < 2 ^ 32" by simp
  then show ?thesis by (simp add: unsigned_ucast_eq take_bit_nat_eq_self)
qed

lemma crc_byte_differs:
  assumes "bit poly 31" "x \<noteq> y"
  shows "crc_byte poly c x \<noteq> crc_byte poly c y"
proof
  assume "crc_byte poly c x = crc_byte poly c y"
  then have "c XOR ucast x = c XOR ucast y"
    unfolding crc_byte_def by (rule crc_bits_inj [OF assms(1)])
  then have "ucast x XOR c = ucast y XOR c" by (simp only: xor.commute)
  then have "(ucast x :: u32) = ucast y" by (simp only: xor_cancel_right)
  then have "unat (ucast x :: u32) = unat (ucast y :: u32)" by (rule arg_cong)
  with assms(2) show False by (simp add: unat_ucast_byte word_unat_eq_iff)
qed

lemma crc_fold_inj: "bit poly 31 \<Longrightarrow> foldl (crc_byte poly) c xs = foldl (crc_byte poly) d xs \<Longrightarrow> c = d"
  by (induction xs arbitrary: c d) (auto dest: crc_byte_inj)

lemma crc_fold_differs:
  assumes "bit poly 31" "x \<noteq> y"
  shows "foldl (crc_byte poly) c (p @ x # q) \<noteq> foldl (crc_byte poly) c (p @ y # q)"
proof
  let ?c = "foldl (crc_byte poly) c p"
  assume "foldl (crc_byte poly) c (p @ x # q) = foldl (crc_byte poly) c (p @ y # q)"
  then have "foldl (crc_byte poly) (crc_byte poly ?c x) q = foldl (crc_byte poly) (crc_byte poly ?c y) q"
    by simp
  then have "crc_byte poly ?c x = crc_byte poly ?c y" by (rule crc_fold_inj [OF assms(1)])
  with crc_byte_differs [OF assms] show False by blast
qed

section \<open>Lemmas: Adler\<close>

lemma adler_exact_fst: "fst (foldl adler_exact (a, b) xs) = a + sum_list (map unat xs)"
  by (induction xs arbitrary: a b) auto

lemma adler_exact_snd:
  "snd (foldl adler_exact (a, b) xs) = b + length xs * a + snd (foldl adler_exact (0, 0) xs)"
proof (induction xs arbitrary: a b)
  case (Cons x xs)
  show ?case
    unfolding foldl.simps adler_exact.simps
    by (subst Cons, subst (2) Cons) (simp add: algebra_simps)
qed simp

lemma adler_exact_mono:
  "a \<le> fst (foldl adler_exact (a, b) xs)" "b \<le> snd (foldl adler_exact (a, b) xs)"
  by (simp_all add: adler_exact_fst adler_exact_snd [of a b])

lemma byte_le: "unat (x :: u8) \<le> 255"
proof -
  have "unat x < 2 ^ LENGTH(8)" by (rule unsigned_less)
  then show ?thesis by simp
qed

lemma adler_exact_bound:
  "2 * snd (foldl adler_exact (0, 0) xs) \<le> 255 * (length xs * (length xs + 1))"
proof (induction xs)
  case (Cons x xs)
  have "snd (foldl adler_exact (0, 0) (x # xs))
      = unat x + length xs * unat x + snd (foldl adler_exact (0, 0) xs)"
    by (simp add: adler_exact_snd [of "unat x"])
  also have "unat x + length xs * unat x \<le> 255 + length xs * 255"
    by (intro add_mono mult_le_mono2 byte_le)
  finally show ?case using Cons by (simp add: algebra_simps)
qed simp

text \<open>As long as the exact sums fit in 32 bits, the machine sums are exact.\<close>

lemma adler_byte_exact:
  assumes "snd (foldl adler_exact (unat l, unat h) xs) < 2 ^ 32"
    and "foldl adler_byte (l, h) xs = (l', h')"
  shows "foldl adler_exact (unat l, unat h) xs = (unat l', unat h')"
  using assms
proof (induction xs arbitrary: l h)
  case (Cons x xs)
  let ?l = "l + ucast x" and ?h = "h + (l + ucast x)"
  have "unat h + (unat l + unat x) \<le> snd (foldl adler_exact (unat l, unat h) (x # xs))"
    using adler_exact_mono(2) [of "unat h + (unat l + unat x)" "unat l + unat x" xs] by simp
  with Cons.prems(1) have lt: "unat h + (unat l + unat x) < 2 ^ 32" by simp
  have l: "unat ?l = unat l + unat x"
    using lt by (subst unat_add_lem [THEN iffD1]) (simp_all add: unat_ucast_byte)
  have h: "unat ?h = unat h + (unat l + unat x)"
    using lt by (subst unat_add_lem [THEN iffD1]) (simp_all add: l)
  show ?case
    using Cons.IH [of ?l ?h] Cons.prems by (simp add: l h Let_def)
qed simp

lemma adler_run_exact:
  assumes "length xs \<le> ADLER_RUN" "unat l < 65521" "unat h < 65521"
    and "adler_run (l, h) xs = (l', h')"
  shows "unat l' = fst (foldl adler_exact (unat l, unat h) xs) mod 65521"
    and "unat h' = snd (foldl adler_exact (unat l, unat h) xs) mod 65521"
proof -
  obtain l1 h1 where run: "foldl adler_byte (l, h) xs = (l1, h1)" by fastforce
  have n: "length xs \<le> 5552" using assms(1) by (simp add: ADLER_RUN_def)
  then have "length xs * unat l \<le> 5552 * 65520" "length xs * (length xs + 1) \<le> 5552 * 5553"
    using assms(2) by (intro mult_le_mono; simp)+
  with adler_exact_bound [of xs] assms(3)
  have "snd (foldl adler_exact (unat l, unat h) xs) < 2 ^ 32"
    by (subst adler_exact_snd) simp
  note exact = adler_byte_exact [OF this run]
  from assms(4) run have "l' = l1 mod ADLER_MODULUS" "h' = h1 mod ADLER_MODULUS"
    by (simp_all add: adler_run_def)
  then show "unat l' = fst (foldl adler_exact (unat l, unat h) xs) mod 65521"
    and "unat h' = snd (foldl adler_exact (unat l, unat h) xs) mod 65521"
    by (simp_all add: exact ADLER_MODULUS_def unat_mod)
qed

lemma adler_exact_cong:
  assumes "a mod m = a' mod m" "b mod m = b' mod m"
  shows "fst (foldl adler_exact (a, b) xs) mod m = fst (foldl adler_exact (a', b') xs) mod m"
    and "snd (foldl adler_exact (a, b) xs) mod m = snd (foldl adler_exact (a', b') xs) mod m"
proof -
  show "fst (foldl adler_exact (a, b) xs) mod m = fst (foldl adler_exact (a', b') xs) mod m"
    unfolding adler_exact_fst using assms(1) by (rule mod_add_cong) simp
  have "(length xs * a) mod m = (length xs * a') mod m"
    using assms(1) by (intro mod_mult_cong) simp_all
  then show "snd (foldl adler_exact (a, b) xs) mod m = snd (foldl adler_exact (a', b') xs) mod m"
    unfolding adler_exact_snd [of a b] adler_exact_snd [of a' b'] using assms(2)
    by (intro mod_add_cong refl)
qed

lemma adler_runs_exact:
  assumes "\<forall>r \<in> set rs. length r \<le> ADLER_RUN" "unat l < 65521" "unat h < 65521"
    and "foldl adler_run (l, h) rs = (l', h')"
  shows "unat l' = fst (foldl adler_exact (unat l, unat h) (concat rs)) mod 65521 \<and>
    unat h' = snd (foldl adler_exact (unat l, unat h) (concat rs)) mod 65521"
  using assms
proof (induction rs arbitrary: l h)
  case (Cons r rs)
  obtain l1 h1 where run: "adler_run (l, h) r = (l1, h1)" by fastforce
  obtain a b where ab: "foldl adler_exact (unat l, unat h) r = (a, b)" by fastforce
  have E: "unat l1 = a mod 65521" "unat h1 = b mod 65521"
    using adler_run_exact [OF _ Cons.prems(2,3) run] Cons.prems(1) ab by simp_all
  have "unat l' = fst (foldl adler_exact (unat l1, unat h1) (concat rs)) mod 65521 \<and>
    unat h' = snd (foldl adler_exact (unat l1, unat h1) (concat rs)) mod 65521"
    using Cons.prems run by (intro Cons.IH) (simp_all add: E)
  moreover have "fst (foldl adler_exact (unat l1, unat h1) (concat rs)) mod 65521
      = fst (foldl adler_exact (a, b) (concat rs)) mod 65521"
    "snd (foldl adler_exact (unat l1, unat h1) (concat rs)) mod 65521
      = snd (foldl adler_exact (a, b) (concat rs)) mod 65521"
    by (intro adler_exact_cong; simp add: E)+
  ultimately show ?case by (simp add: ab)
qed simp

lemma adler_exact_spec:
  "foldl adler_exact (1, 0) xs = (adler_a xs, adler_b xs)"
proof (induction xs rule: rev_induct)
  case (snoc x xs)
  have "adler_b (xs @ [x]) = adler_b xs + adler_a (xs @ [x])" by (simp add: adler_b_def)
  with snoc show ?case by (simp add: adler_a_def)
qed (simp add: adler_a_def adler_b_def)

lemma unat_high_low:
  assumes "unat h < 2 ^ 16" "unat l < 2 ^ 16"
  shows "unat (push_bit 16 h OR l :: u32) = unat h * 65536 + unat l"
proof -
  have "push_bit 16 h AND l = 0"
  proof (rule bit_eqI)
    fix n
    have "\<not> bit l n" if "16 \<le> n"
    proof -
      have "\<not> bit (unat l) n"
        using assms(2) that by (metis bit_take_bit_iff linorder_not_less take_bit_nat_eq_self)
      then show ?thesis by (simp add: bit_unsigned_iff)
    qed
    then show "bit (push_bit 16 h AND l) n \<longleftrightarrow> bit (0 :: u32) n"
      by (auto simp: bit_and_iff bit_push_bit_iff)
  qed
  then have "push_bit 16 h OR l = push_bit 16 h + l" by (rule disjunctive_add_eq_or [symmetric])
  moreover have "unat (push_bit 16 h) = unat h * 65536"
    unfolding unsigned_push_bit_eq using assms(1) by (simp add: push_bit_eq_mult take_bit_nat_eq_self)
  ultimately show ?thesis
    using assms by (simp only:) (subst unat_add_lem [THEN iffD1]; simp)
qed

lemma adler32_parts:
  "unat (adler32 data) = (adler_b data mod 65521) * 65536 + adler_a data mod 65521"
proof -
  obtain l h where lh: "foldl adler_run (1, 0) (chunks ADLER_RUN data) = (l, h)" by fastforce
  have "\<forall>r \<in> set (chunks ADLER_RUN data). length r \<le> ADLER_RUN"
    using length_in_chunks by blast
  from adler_runs_exact [OF this _ _ lh]
  have E: "unat l = adler_a data mod 65521" "unat h = adler_b data mod 65521"
    by (simp_all add: concat_chunks ADLER_RUN_def adler_exact_spec [unfolded One_nat_def])
  have "adler_a data mod 65521 < 2 ^ 16" "adler_b data mod 65521 < 2 ^ 16"
    by (rule less_trans [OF mod_less_divisor]; simp)+
  then show ?thesis
    unfolding adler32_def lh prod.case by (subst unat_high_low) (simp_all add: E)
qed

section \<open>Properties\<close>

text \<open>
  Claim C20. The Adler checksum is the one RFC 1950 defines: although the code accumulates in 32
  bits and reduces only after each run of 5552 bytes, no sum ever wraps, and the two halves of
  the result are the exact sums modulo 65521.
\<close>

theorem adler32_correct:
  "unat (adler32 data) = (adler_b data mod 65521) * 65536 + adler_a data mod 65521"
  by (rule adler32_parts)

text \<open>
  Claim C22. Both CRCs detect every change of a single byte: two byte strings that differ in
  exactly one byte never have the same checksum.
\<close>

theorem crc_detects_single_byte:
  assumes "x \<noteq> y"
  shows "embedded_panic_crc32 (p @ x # q) \<noteq> embedded_panic_crc32 (p @ y # q)
    \<and> crc32c_update crc (p @ x # q) \<noteq> crc32c_update crc (p @ y # q)"
proof -
  have "bit (0xedb88320 :: u32) 31" "bit (0x82f63b78 :: u32) 31" by code_simp+
  note crc_fold_differs [OF this(1) assms] crc_fold_differs [OF this(2) assms]
  then show ?thesis by (simp add: embedded_panic_crc32_def crc32c_update_def del: foldl_append foldl_Cons)
qed

theorem crc_detects_single_byte_witness:
  "embedded_panic_crc32 ([1, 2] @ 3 # [4]) \<noteq> embedded_panic_crc32 ([1, 2] @ 131 # [4])
    \<and> crc32c_update 0 ([1, 2] @ 3 # [4]) \<noteq> crc32c_update 0 ([1, 2] @ 131 # [4])"
  by (rule crc_detects_single_byte) simp

text \<open>
  The CRC-32C may be computed over the pieces of a message in turn, starting each piece
  from the value of the previous one.
\<close>

lemma crc32c_streams:
  "foldl crc32c_update crc pieces = crc32c_update crc (concat pieces)"
  by (induction pieces arbitrary: crc) (simp_all add: crc32c_update_def)

end
