(* ===== verification/Deflate.thy ===== *)
theory Deflate imports Checksums begin

text \<open>
  Stored DEFLATE blocks and their zlib and gzip containers (\<^verbatim>\<open>asr_server/deflate.rs\<close>): the writer
  emits stored blocks of at most 65535 bytes, the reader accepts any sequence of stored blocks.
\<close>

section \<open>Data\<close>

definition MAX_STORED_BLOCK :: nat where "MAX_STORED_BLOCK = 0xffff"
definition ZLIB_CMF :: u8 where "ZLIB_CMF = 0x78"
definition ZLIB_FLG :: u8 where "ZLIB_FLG = 0x01"

datatype DeflateError =
    DeflTruncated
  | TrailingBytes nat
  | UnsupportedBlockType u8
  | StoredLengthMismatch u16 u16
  | NotZlib
  | NotGzip
  | PresetDictionary
  | UnsupportedGzipFlags u8
  | ChecksumMismatch u32 u32
  | DeflLengthMismatch u32 nat

section \<open>Operations\<close>

definition push_stored_block :: "bytes \<Rightarrow> bool \<Rightarrow> bytes" where
  "push_stored_block block final_block =
     (let len = word_of_nat (length block) :: u16
      in (if final_block then 1 else 0) # le16 len @ le16 (NOT len) @ block)"

fun push_stored_blocks :: "bytes list \<Rightarrow> bytes" where
  "push_stored_blocks [] = []"
| "push_stored_blocks (block # rest) = push_stored_block block (rest = []) @ push_stored_blocks rest"

definition deflate_stored :: "bytes \<Rightarrow> bytes" where
  "deflate_stored data =
     (if data = [] then push_stored_block [] True
      else push_stored_blocks (chunks MAX_STORED_BLOCK data))"

definition zlib_compress :: "bytes \<Rightarrow> bytes" where
  "zlib_compress data = [ZLIB_CMF, ZLIB_FLG] @ deflate_stored data @ be32 (adler32 data)"

definition GZIP_HEADER :: bytes where
  "GZIP_HEADER = [0x1f, 0x8b, 0x08, 0x00, 0x00, 0x00, 0x00, 0x00, 0x00, 0xff]"

definition gzip_compress :: "bytes \<Rightarrow> bytes" where
  "gzip_compress data =
     GZIP_HEADER @ deflate_stored data @ le32 (embedded_panic_crc32 data)
       @ le32 (word_of_nat (length data))"

text \<open>
  One stored block off the front of a stream: whether it is the last one, its data, and the
  stream behind it.
\<close>

definition stored_block :: "bytes \<Rightarrow> DeflateError + bool \<times> bytes \<times> bytes" where
  "stored_block stream =
     (case stream of
        [] \<Rightarrow> Inl DeflTruncated
      | header # _ \<Rightarrow>
          let block_type = drop_bit 1 header AND 0b11 in
          if block_type \<noteq> 0 then Inl (UnsupportedBlockType block_type)
          else
            bindE (ok_or DeflTruncated (get_range stream 1 5)) (\<lambda>len_bytes.
              let len = from_le16 (subslice len_bytes 0 2);
                  nlen = from_le16 (subslice len_bytes 2 4) in
              if nlen \<noteq> NOT len then Inl (StoredLengthMismatch len nlen)
              else
                let stop = 5 + unat len in
                bindE (ok_or DeflTruncated (get_range stream 5 stop)) (\<lambda>data.
                  Inr (header AND 1 = 1, data, drop stop stream))))"

lemma stored_block_shorter:
  "stored_block stream = Inr (final, data, rest) \<Longrightarrow> length rest < length stream"
  by (auto simp: stored_block_def Let_def bindE_eq_Inr split: list.splits if_splits)

function inflate_blocks :: "bytes \<Rightarrow> bytes \<Rightarrow> DeflateError + bytes \<times> bytes" where
  "inflate_blocks stream out =
     bindE (stored_block stream) (\<lambda>(final_block, data, rest).
       if final_block then Inr (out @ data, rest) else inflate_blocks rest (out @ data))"
  by pat_completeness auto
termination
  by (relation "measure (\<lambda>(stream, out). length stream)") (auto dest: stored_block_shorter)

declare inflate_blocks.simps [simp del]

definition inflate_stored :: "bytes \<Rightarrow> DeflateError + bytes" where
  "inflate_stored stream =
     bindE (inflate_blocks stream []) (\<lambda>(out, rest).
       if rest = [] then Inr out else Inl (TrailingBytes (length rest)))"

definition zlib_decompress :: "bytes \<Rightarrow> DeflateError + bytes" where
  "zlib_decompress stream =
     (if length stream < 6 then Inl DeflTruncated
      else
        let header = from_be16 (subslice stream 0 2) in
        if stream ! 0 AND 0x0f \<noteq> 8 \<or> header mod 31 \<noteq> 0 then Inl NotZlib
        else if stream ! 1 AND 0x20 \<noteq> 0 then Inl PresetDictionary
        else
          let body = subslice stream 2 (length stream - 4);
              expected = from_be32 (drop (length stream - 4) stream)
          in bindE (inflate_stored body) (\<lambda>out.
               let actual = adler32 out in
               if actual \<noteq> expected then Inl (ChecksumMismatch expected actual) else Inr out))"

definition gzip_decompress :: "bytes \<Rightarrow> DeflateError + bytes" where
  "gzip_decompress stream =
     (if length stream < 18 then Inl DeflTruncated
      else if stream ! 0 \<noteq> 0x1f \<or> stream ! 1 \<noteq> 0x8b \<or> stream ! 2 \<noteq> 0x08 then Inl NotGzip
      else if stream ! 3 \<noteq> 0 then Inl (UnsupportedGzipFlags (stream ! 3))
      else
        let body = subslice stream 10 (length stream - 8) in
        bindE (inflate_stored body) (\<lambda>out.
          let expected = from_le32 (subslice stream (length stream - 8) (length stream - 4));
              actual = embedded_panic_crc32 out in
          if actual \<noteq> expected then Inl (ChecksumMismatch expected actual)
          else
            let declared = from_le32 (drop (length stream - 4) stream) in
            if declared \<noteq> word_of_nat (length out) then Inl (DeflLengthMismatch declared (length out))
            else Inr out))"

section \<open>Lemmas\<close>

lemma stored_block_push:
  assumes "length block < 2 ^ 16"
  shows "stored_block (push_stored_block block final @ rest) = Inr (final, block, rest)"
proof -
  let ?len = "word_of_nat (length block) :: u16"
  let ?h = "if final then 1 else 0 :: u8"
  let ?s = "?h # le16 ?len @ le16 (NOT ?len) @ block @ rest"
  have len: "unat ?len = length block"
    using assms by (simp add: unsigned_of_nat take_bit_nat_eq_self)
  have sub: "subslice ?s 1 5 = le16 ?len @ le16 (NOT ?len)" "subslice ?s 5 (5 + length block) = block"
    by (simp_all add: subslice_def codec_simps)
  have halves: "subslice (le16 ?len @ le16 (NOT ?len)) 0 2 = le16 ?len"
    "subslice (le16 ?len @ le16 (NOT ?len)) 2 4 = le16 (NOT ?len)"
    by (simp_all add: subslice_def)
  have rest: "drop (5 + length block) ?s = rest"
    using drop_exact [of "?h # le16 ?len @ le16 (NOT ?len) @ block" "5 + length block" rest] by simp
  have "stored_block ?s = Inr (final, block, rest)"
    using sub halves len rest by (simp add: stored_block_def Let_def codec_simps get_range_def)
  then show ?thesis by (simp add: push_stored_block_def Let_def)
qed

lemma inflate_blocks_push:
  assumes "bs \<noteq> []" "\<forall>b \<in> set bs. length b < 2 ^ 16"
  shows "inflate_blocks (push_stored_blocks bs @ rest) out = Inr (out @ concat bs, rest)"
  using assms
proof (induction bs arbitrary: out)
  case (Cons b bs)
  from Cons.prems have b: "length b < 2 ^ 16" by simp
  show ?case
  proof (cases "bs = []")
    case True
    with b show ?thesis
      by (subst inflate_blocks.simps) (simp add: stored_block_push)
  next
    case False
    with b Cons show ?thesis
      by (subst inflate_blocks.simps) (simp add: stored_block_push)
  qed
qed simp

lemma inflate_deflate: "inflate_stored (deflate_stored data) = Inr data"
proof (cases "data = []")
  case True
  then show ?thesis
    using inflate_blocks_push [of "[[]]" "[]" "[]"] by (simp add: inflate_stored_def deflate_stored_def)
next
  case False
  then have "chunks MAX_STORED_BLOCK data \<noteq> []"
    by (subst chunks.simps) (simp add: MAX_STORED_BLOCK_def)
  moreover have "\<forall>b \<in> set (chunks MAX_STORED_BLOCK data). length b < 2 ^ 16"
    using length_in_chunks by (fastforce simp: MAX_STORED_BLOCK_def)
  ultimately show ?thesis
    using inflate_blocks_push [of "chunks MAX_STORED_BLOCK data" "[]" "[]"] False
    by (simp add: inflate_stored_def deflate_stored_def concat_chunks MAX_STORED_BLOCK_def)
qed

lemma length_GZIP_HEADER: "length GZIP_HEADER = 10"
  by (simp add: GZIP_HEADER_def)

lemma gzip_decompress_parts:
  "gzip_decompress (GZIP_HEADER @ body @ le32 crc @ le32 len) =
     bindE (inflate_stored body) (\<lambda>out.
       if embedded_panic_crc32 out \<noteq> crc then Inl (ChecksumMismatch crc (embedded_panic_crc32 out))
       else if len \<noteq> word_of_nat (length out) then Inl (DeflLengthMismatch len (length out))
       else Inr out)"
proof -
  let ?s = "GZIP_HEADER @ body @ le32 crc @ le32 len"
  have n: "length ?s = 18 + length body" by (simp add: GZIP_HEADER_def codec_simps)
  have h: "?s ! 0 = 0x1f" "?s ! 1 = 0x8b" "?s ! 2 = 0x08" "?s ! 3 = 0"
    by (simp_all add: GZIP_HEADER_def)
  have sub: "subslice ?s 10 (length ?s - 8) = body"
    "subslice ?s (length ?s - 8) (length ?s - 4) = le32 crc" "drop (length ?s - 4) ?s = le32 len"
    unfolding n using length_GZIP_HEADER by (simp_all add: subslice_def)
  show ?thesis
    unfolding gzip_decompress_def sub h using n
    by (cases "inflate_stored body") (simp_all add: Let_def codec_simps)
qed

lemma zlib_decompress_parts:
  "zlib_decompress ([ZLIB_CMF, ZLIB_FLG] @ body @ be32 cksum) =
     bindE (inflate_stored body) (\<lambda>out.
       if adler32 out \<noteq> cksum then Inl (ChecksumMismatch cksum (adler32 out)) else Inr out)"
proof -
  let ?s = "[ZLIB_CMF, ZLIB_FLG] @ body @ be32 cksum"
  have n: "length ?s = 6 + length body" by simp
  have sub: "subslice ?s 2 (length ?s - 4) = body" "drop (length ?s - 4) ?s = be32 cksum"
    "subslice ?s 0 2 = [0x78, 0x01]"
    unfolding n by (simp_all add: subslice_def ZLIB_CMF_def ZLIB_FLG_def)
  have h: "?s ! 0 = 0x78" "?s ! 1 = 0x01" by (simp_all add: ZLIB_CMF_def ZLIB_FLG_def)
  have hdr: "from_be16 [0x78, 0x01] mod 31 = 0" by code_simp
  show ?thesis
    unfolding zlib_decompress_def sub h Let_def hdr using n
    by (cases "inflate_stored body") (simp_all add: codec_simps)
qed

section \<open>Properties\<close>

text \<open>
  Claim C19. Payloads of any length survive each container: inflating what was deflated in stored
  blocks, and opening what was wrapped as zlib or gzip, returns the data, checksums and declared
  length included.
\<close>

theorem deflate_containers_roundtrip:
  "inflate_stored (deflate_stored data) = Inr data
   \<and> zlib_decompress (zlib_compress data) = Inr data
   \<and> gzip_decompress (gzip_compress data) = Inr data"
  by (simp add: inflate_deflate zlib_compress_def zlib_decompress_parts [simplified]
      gzip_compress_def gzip_decompress_parts)

text \<open>
  Claim C21. A gzip payload in which a single byte was corrupted on the way is refused with the
  checksum error that names both values; it is never returned.
\<close>

theorem gzip_detects_corrupt_byte:
  assumes "x \<noteq> y"
  shows "\<exists>expected actual. expected \<noteq> actual \<and>
    gzip_decompress (GZIP_HEADER @ deflate_stored (p @ y # q) @ le32 (embedded_panic_crc32 (p @ x # q))
      @ le32 (word_of_nat (length (p @ x # q)))) = Inl (ChecksumMismatch expected actual)"
proof -
  have "bit (0xedb88320 :: u32) 31" by code_simp
  note crc_fold_differs [OF this assms]
  then have "embedded_panic_crc32 (p @ x # q) \<noteq> embedded_panic_crc32 (p @ y # q)"
    by (simp add: embedded_panic_crc32_def del: foldl_append foldl_Cons)
  then show ?thesis
    by (auto simp: gzip_decompress_parts inflate_deflate)
qed

theorem gzip_detects_corrupt_byte_witness:
  "\<exists>expected actual. expected \<noteq> actual \<and>
    gzip_decompress (GZIP_HEADER @ deflate_stored ([1] @ 7 # [3]) @ le32 (embedded_panic_crc32 ([1] @ 2 # [3]))
      @ le32 (word_of_nat (length ([1] @ 2 # [3 :: u8])))) = Inl (ChecksumMismatch expected actual)"
  by (rule gzip_detects_corrupt_byte) simp

text \<open>
  What the stored-block reader accepts it has fully accounted for: every block costs
  its data and five bytes of header, nothing is skipped and nothing follows the final block, so
  the stream is at least five bytes longer than what it decodes to.
\<close>

lemma inflate_stored_accounts:
  assumes "inflate_stored stream = Inr out"
  shows "\<exists>n. length stream = length out + 5 * Suc n"
proof -
  have block: "length s = length data + length rest + 5" if "stored_block s = Inr (final, data, rest)"
    for s final data rest
    using that by (auto simp: stored_block_def Let_def bindE_eq_Inr split: list.splits if_splits)
  have "inflate_blocks s acc = Inr (out', rest) \<Longrightarrow>
      \<exists>n. length acc + length s = length out' + length rest + 5 * Suc n" for s acc out' rest
  proof (induction s acc rule: inflate_blocks.induct)
    case (1 s acc)
    from 1(2) obtain final data rest1 where b: "stored_block s = Inr (final, data, rest1)"
      by (subst (asm) inflate_blocks.simps) (auto simp: bindE_eq_Inr)
    note len = block [OF b]
    show ?case
    proof (cases final)
      case True
      with 1(2) b have "out' = acc @ data" "rest = rest1"
        by (subst (asm) inflate_blocks.simps; simp)+
      with len show ?thesis by (intro exI [of _ 0]) simp
    next
      case False
      with 1(2) b have "inflate_blocks rest1 (acc @ data) = Inr (out', rest)"
        by (subst (asm) inflate_blocks.simps) simp
      from 1(1) [OF b refl refl False this] obtain n where
        "length (acc @ data) + length rest1 = length out' + length rest + 5 * Suc n" by blast
      with len show ?thesis by (intro exI [of _ "Suc n"]) simp
    qed
  qed
  with assms show ?thesis
    by (fastforce simp: inflate_stored_def bindE_eq_Inr split: if_splits)
qed

end
