(* ===== verification/Pem.thy ===== *)
theory Pem imports Prelude begin

text \<open>
  Base64 and PEM armour (\<^verbatim>\<open>ramrod/pem.rs\<close>). Text is a list of bytes, as the decoder takes it; the
  strings the encoder builds are their ASCII bytes.
\<close>

section \<open>Data\<close>

definition ALPHABET :: bytes where
  "ALPHABET = ascii ''ABCDEFGHIJKLMNOPQRSTUVWXYZabcdefghijklmnopqrstuvwxyz0123456789+/''"

definition PAD :: u8 where "PAD = 0x3d"

definition PEM_LINE_WIDTH :: nat where "PEM_LINE_WIDTH = 64"

datatype PemError =
    NoBeginLine bytes
  | NoEndLine bytes
  | Alphabet u8 nat
  | PemLength nat
  | Padding nat

section \<open>Base64\<close>

definition sextet :: "u32 \<Rightarrow> nat \<Rightarrow> u8" where
  "sextet w shift = ALPHABET ! unat (drop_bit shift w AND 0x3f)"

definition base64_word :: "bytes \<Rightarrow> u32" where
  "base64_word triple =
     (let a = ucast (triple ! 0);
          b = (case get_at triple 1 of None \<Rightarrow> 0 | Some x \<Rightarrow> ucast x);
          c = (case get_at triple 2 of None \<Rightarrow> 0 | Some x \<Rightarrow> ucast x)
      in push_bit 16 a OR push_bit 8 b OR c)"

definition base64_group :: "bytes \<Rightarrow> bytes" where
  "base64_group triple =
     (let w = base64_word triple
      in [sextet w 18, sextet w 12,
          if length triple > 1 then sextet w 6 else PAD,
          if length triple > 2 then sextet w 0 else PAD])"

definition base64_encode :: "bytes \<Rightarrow> bytes" where
  "base64_encode bs = concat (map base64_group (chunks 3 bs))"

definition alphabet_value :: "u8 \<Rightarrow> u32 option" where
  "alphabet_value byte =
     (if 0x41 \<le> byte \<and> byte \<le> 0x5a then Some (ucast (byte - 0x41))
      else if 0x61 \<le> byte \<and> byte \<le> 0x7a then Some (ucast (byte - 0x61) + 26)
      else if 0x30 \<le> byte \<and> byte \<le> 0x39 then Some (ucast (byte - 0x30) + 52)
      else if byte = 0x2b then Some 62
      else if byte = 0x2f then Some 63
      else None)"

definition is_ascii_whitespace :: "u8 \<Rightarrow> bool" where
  "is_ascii_whitespace byte \<longleftrightarrow> byte \<in> {0x20, 0x09, 0x0a, 0x0c, 0x0d}"

record base64_state =
  accumulator :: u32
  held :: nat
  characters :: nat
  padding :: nat
  decoded :: bytes

definition base64_start :: base64_state where
  "base64_start = \<lparr>accumulator = 0, held = 0, characters = 0, padding = 0, decoded = []\<rparr>"

text \<open>The body of the decoder's loop for one byte at its offset.\<close>

definition base64_step :: "nat \<Rightarrow> u8 \<Rightarrow> base64_state \<Rightarrow> PemError + base64_state" where
  "base64_step offset byte s =
     (if is_ascii_whitespace byte then Inr s
      else if byte = PAD then Inr (s\<lparr>padding := padding s + 1, characters := characters s + 1\<rparr>)
      else if padding s \<noteq> 0 then Inl (Padding offset)
      else
        bindE (ok_or (Alphabet byte offset) (alphabet_value byte)) (\<lambda>v.
          let acc = push_bit 6 (accumulator s) OR v;
              s1 = s\<lparr>accumulator := acc, held := held s + 1, characters := characters s + 1\<rparr>
          in if held s1 = 4
             then Inr (s1\<lparr>decoded := decoded s1 @ [ucast (drop_bit 16 acc), ucast (drop_bit 8 acc), ucast acc],
                          accumulator := 0, held := 0\<rparr>)
             else Inr s1))"

fun base64_steps :: "nat \<Rightarrow> bytes \<Rightarrow> base64_state \<Rightarrow> PemError + base64_state" where
  "base64_steps offset [] s = Inr s"
| "base64_steps offset (byte # rest) s = bindE (base64_step offset byte s) (base64_steps (offset + 1) rest)"

definition base64_finish :: "base64_state \<Rightarrow> PemError + bytes" where
  "base64_finish s =
     (if characters s mod 4 \<noteq> 0 then Inl (PemLength (characters s))
      else if held s = 0 then Inr (decoded s)
      else if held s = 2 then Inr (decoded s @ [ucast (drop_bit 4 (accumulator s))])
      else if held s = 3
        then Inr (decoded s @ [ucast (drop_bit 10 (accumulator s)), ucast (drop_bit 2 (accumulator s))])
      else Inl (PemLength (characters s)))"

definition base64_decode :: "bytes \<Rightarrow> PemError + bytes" where
  "base64_decode text = bindE (base64_steps 0 text base64_start) base64_finish"

section \<open>Armour\<close>

definition pem_line :: "bytes \<Rightarrow> bytes \<Rightarrow> bytes" where
  "pem_line kind label = ascii ''-----'' @ kind @ label @ ascii ''-----''"

definition pem_begin :: "bytes \<Rightarrow> bytes" where
  "pem_begin label = pem_line (ascii ''BEGIN '') label"

definition pem_end :: "bytes \<Rightarrow> bytes" where
  "pem_end label = pem_line (ascii ''END '') label"

definition pem_encode :: "bytes \<Rightarrow> bytes \<Rightarrow> bytes" where
  "pem_encode label der =
     pem_begin label @ [0x0a]
       @ concat (map (\<lambda>line. line @ [0x0a]) (chunks PEM_LINE_WIDTH (base64_encode der)))
       @ pem_end label @ [0x0a]"

text \<open>The first window equal to the needle.\<close>

fun find_window :: "bytes \<Rightarrow> bytes \<Rightarrow> nat option" where
  "find_window haystack needle =
     (if take (length needle) haystack = needle then Some 0
      else case haystack of
             [] \<Rightarrow> None
           | _ # rest \<Rightarrow> map_option Suc (find_window rest needle))"

declare find_window.simps [simp del]

definition pem_find :: "bytes \<Rightarrow> bytes \<Rightarrow> nat option" where
  "pem_find haystack needle =
     (if needle = [] \<or> length haystack < length needle then None else find_window haystack needle)"

definition pem_decode :: "bytes \<Rightarrow> bytes \<Rightarrow> PemError + bytes" where
  "pem_decode text label =
     bindE (ok_or (NoBeginLine label) (pem_find text (pem_begin label))) (\<lambda>at.
       let start = at + length (pem_begin label) in
       bindE (ok_or (NoEndLine label) (pem_find (drop start text) (pem_end label))) (\<lambda>stop.
         base64_decode (subslice text start (start + stop))))"

definition looks_like_pem :: "bytes \<Rightarrow> bool" where
  "looks_like_pem text \<longleftrightarrow> pem_find text (ascii ''-----BEGIN '') \<noteq> None"

text \<open>The decoder between two groups of four characters.\<close>

definition base64_ready :: "base64_state \<Rightarrow> bool" where
  "base64_ready s \<longleftrightarrow> accumulator s = 0 \<and> held s = 0 \<and> padding s = 0 \<and> characters s mod 4 = 0"

section \<open>Lemmas: base64\<close>

lemma alphabet_facts:
  assumes "i < 64"
  shows "alphabet_value (ALPHABET ! i) = Some (word_of_nat i)" "\<not> is_ascii_whitespace (ALPHABET ! i)"
    "ALPHABET ! i \<noteq> PAD" "ALPHABET ! i \<noteq> 0x2d"
proof -
  have "list_all2 (\<lambda>i c. alphabet_value c = Some (word_of_nat i)
      \<and> \<not> is_ascii_whitespace c \<and> c \<noteq> PAD \<and> c \<noteq> 0x2d) [0..<64] ALPHABET"
    by code_simp
  from list_all2_nthD [OF this, of i] assms
  show "alphabet_value (ALPHABET ! i) = Some (word_of_nat i)" "\<not> is_ascii_whitespace (ALPHABET ! i)"
    "ALPHABET ! i \<noteq> PAD" "ALPHABET ! i \<noteq> 0x2d"
    by simp_all
qed

lemma mask6: "unat (x AND 0x3f :: u32) < 64"
proof -
  have "x AND 0x3f = take_bit 6 x" by (simp add: take_bit_eq_mask mask_eq_exp_minus_1)
  moreover have "unat (take_bit 6 x) = take_bit 6 (unat x)" by (rule unsigned_take_bit_eq)
  moreover have "take_bit 6 (unat x) < 2 ^ 6" by (rule take_bit_nat_less_exp)
  ultimately show ?thesis by simp
qed

lemma sextet_facts:
  "alphabet_value (sextet w k) = Some (drop_bit k w AND 0x3f)" "\<not> is_ascii_whitespace (sextet w k)"
  "sextet w k \<noteq> PAD" "sextet w k \<noteq> 0x2d"
  using alphabet_facts [OF mask6] by (simp_all add: sextet_def)

lemma base64_step_sextet:
  assumes "padding s = 0"
  shows "base64_step off (sextet w k) s =
     (let acc = push_bit 6 (accumulator s) OR (drop_bit k w AND 0x3f);
          s1 = s\<lparr>accumulator := acc, held := held s + 1, characters := characters s + 1\<rparr>
      in if held s + 1 = 4
         then Inr (s1\<lparr>decoded := decoded s @ [ucast (drop_bit 16 acc), ucast (drop_bit 8 acc), ucast acc],
                      accumulator := 0, held := 0\<rparr>)
         else Inr s1)"
  using assms by (simp add: base64_step_def sextet_facts Let_def)

lemma base64_step_pad:
  "base64_step off PAD s = Inr (s\<lparr>padding := padding s + 1, characters := characters s + 1\<rparr>)"
  by (simp add: base64_step_def is_ascii_whitespace_def PAD_def)

lemma bit_byte: "bit (x :: u8) n \<Longrightarrow> n < 8"
  using bit_imp_le_length by fastforce

lemma bit_3f: "bit (0x3f :: u32) n \<longleftrightarrow> n < 6"
proof -
  have "(0x3f :: u32) = mask 6" by (simp add: mask_eq_exp_minus_1)
  then show ?thesis by (simp only: bit_mask_iff) auto
qed

lemmas word_bits = bit_or_iff bit_and_iff bit_push_bit_iff bit_drop_bit_eq bit_unsigned_iff bit_3f

lemma bits_beyond: "8 \<le> n \<Longrightarrow> \<not> bit (x :: u8) n"
  using bit_byte [of x n] by auto

lemma sextet_top:
  fixes w :: u32
  assumes "\<And>n. bit w n \<Longrightarrow> n < 24"
  shows "drop_bit 18 w AND 0x3f = drop_bit 18 w"
proof (rule bit_eqI)
  fix n :: nat
  show "bit (drop_bit 18 w AND 0x3f) n \<longleftrightarrow> bit (drop_bit 18 w) n"
    using assms [of "18 + n"] unfolding word_bits by auto
qed

lemma sextet_join: "push_bit 6 (drop_bit (k + 6) w) OR (drop_bit k w AND 0x3f) = drop_bit k (w :: u32)"
proof (rule bit_word_eqI)
  fix n :: nat
  assume n: "n < LENGTH(32)"
  show "bit (push_bit 6 (drop_bit (k + 6) w) OR (drop_bit k w AND 0x3f)) n \<longleftrightarrow> bit (drop_bit k w) n"
  proof (cases "n < 6")
    case False
    then obtain m where "n = 6 + m" using le_Suc_ex not_less by blast
    with n show ?thesis unfolding word_bits by (simp add: ac_simps)
  next
    case True
    with n show ?thesis unfolding word_bits by simp
  qed
qed

lemma base64_three:
  fixes a b c :: u8
  defines "w \<equiv> push_bit 16 (ucast a) OR push_bit 8 (ucast b) OR ucast c :: u32"
  shows "\<And>n. bit w n \<Longrightarrow> n < 24"
    and "ucast (drop_bit 16 w) = a" "ucast (drop_bit 8 w) = b" "ucast w = c"
proof -
  show "n < 24" if "bit w n" for n
  proof (rule ccontr)
    assume "\<not> n < 24"
    then have "\<not> bit a (n - 16)" "\<not> bit b (n - 8)" "\<not> bit c n" by (simp_all add: bits_beyond)
    with that show False unfolding w_def word_bits by simp
  qed
  show "ucast (drop_bit 16 w) = a"
  proof (rule bit_word_eqI)
    fix n :: nat
    assume "n < LENGTH(8)"
    then show "bit (ucast (drop_bit 16 w) :: u8) n \<longleftrightarrow> bit a n"
      using bits_beyond [of "8 + n" b] bits_beyond [of "16 + n" c] unfolding w_def word_bits by simp
  qed
  show "ucast (drop_bit 8 w) = b"
  proof (rule bit_word_eqI)
    fix n :: nat
    assume "n < LENGTH(8)"
    then show "bit (ucast (drop_bit 8 w) :: u8) n \<longleftrightarrow> bit b n"
      using bits_beyond [of "8 + n" c] unfolding w_def word_bits by simp
  qed
  show "ucast w = c"
  proof (rule bit_word_eqI)
    fix n :: nat
    assume "n < LENGTH(8)"
    then show "bit (ucast w :: u8) n \<longleftrightarrow> bit c n" unfolding w_def word_bits by simp
  qed
qed

lemma base64_word_facts:
  assumes "0 < length triple" "length triple \<le> 3"
  shows "\<And>n. bit (base64_word triple) n \<Longrightarrow> n < 24"
    and "ucast (drop_bit 16 (base64_word triple)) = triple ! 0"
    and "1 < length triple \<Longrightarrow> ucast (drop_bit 8 (base64_word triple)) = triple ! 1"
    and "2 < length triple \<Longrightarrow> ucast (base64_word triple) = triple ! 2"
proof -
  let ?b = "if 1 < length triple then triple ! 1 else 0"
  let ?c = "if 2 < length triple then triple ! 2 else 0"
  have w: "base64_word triple = push_bit 16 (ucast (triple ! 0)) OR push_bit 8 (ucast ?b) OR ucast ?c"
    by (simp add: base64_word_def get_at_def)
  note three = base64_three [of "triple ! 0" ?b ?c, folded w]
  show "\<And>n. bit (base64_word triple) n \<Longrightarrow> n < 24" by (rule three(1))
  show "ucast (drop_bit 16 (base64_word triple)) = triple ! 0" by (rule three(2))
  show "1 < length triple \<Longrightarrow> ucast (drop_bit 8 (base64_word triple)) = triple ! 1" using three(3) by simp
  show "2 < length triple \<Longrightarrow> ucast (base64_word triple) = triple ! 2" using three(4) by simp
qed

lemma base64_steps_append:
  "base64_steps off (xs @ ys) s = bindE (base64_steps off xs s) (base64_steps (off + length xs) ys)"
proof (induction xs arbitrary: off s)
  case (Cons x xs)
  then show ?case by (cases "base64_step off x s") simp_all
qed simp

lemma base64_steps_full_group:
  assumes "base64_ready s" "length triple = 3"
  shows "\<exists>s'. base64_steps off (base64_group triple) s = Inr s' \<and> base64_ready s'
    \<and> decoded s' = decoded s @ triple"
proof -
  let ?w = "base64_word triple"
  note facts = base64_word_facts [of triple]
  have top: "drop_bit 18 ?w AND 0x3f = drop_bit 18 ?w" using facts(1) assms(2) by (intro sextet_top) simp
  have join: "push_bit 6 (drop_bit 18 ?w) OR (drop_bit 12 ?w AND 0x3f) = drop_bit 12 ?w"
    "push_bit 6 (drop_bit 12 ?w) OR (drop_bit 6 ?w AND 0x3f) = drop_bit 6 ?w"
    "push_bit 6 (drop_bit 6 ?w) OR (drop_bit 0 ?w AND 0x3f) = ?w"
    using sextet_join [of 12 ?w] sextet_join [of 6 ?w] sextet_join [of 0 ?w] by simp_all
  have triple: "[ucast (drop_bit 16 ?w), ucast (drop_bit 8 ?w), ucast ?w] = triple"
    using facts(2-4) assms(2) by (intro nth_equalityI) (auto simp: less_Suc_eq numeral_3_eq_3 numeral_2_eq_2)
  have "base64_group triple = [sextet ?w 18, sextet ?w 12, sextet ?w 6, sextet ?w 0]"
    using assms(2) by (simp add: base64_group_def Let_def)
  then show ?thesis
    using assms(1) top join triple
    by (simp add: base64_step_sextet Let_def base64_ready_def mod_Suc)
qed

lemma base64_steps_last_group:
  assumes "base64_ready s" "0 < length triple" "length triple < 3"
  shows "\<exists>s'. base64_steps off (base64_group triple) s = Inr s' \<and>
    base64_finish s' = Inr (decoded s @ triple)"
proof -
  let ?w = "base64_word triple"
  note facts = base64_word_facts [of triple]
  have top: "drop_bit 18 ?w AND 0x3f = drop_bit 18 ?w" using facts(1) assms(2,3) by (intro sextet_top) simp
  have join: "push_bit 6 (drop_bit 18 ?w) OR (drop_bit 12 ?w AND 0x3f) = drop_bit 12 ?w"
    "push_bit 6 (drop_bit 12 ?w) OR (drop_bit 6 ?w AND 0x3f) = drop_bit 6 ?w"
    using sextet_join [of 12 ?w] sextet_join [of 6 ?w] by simp_all
  have drops: "drop_bit 4 (drop_bit 12 ?w) = drop_bit 16 ?w" "drop_bit 10 (drop_bit 6 ?w) = drop_bit 16 ?w"
    "drop_bit 2 (drop_bit 6 ?w) = drop_bit 8 ?w"
    by simp_all
  consider "length triple = 1" | "length triple = 2" using assms(2,3) by linarith
  then show ?thesis
  proof cases
    case 1
    then have "base64_group triple = [sextet ?w 18, sextet ?w 12, PAD, PAD]"
      by (simp add: base64_group_def Let_def)
    moreover have "[ucast (drop_bit 16 ?w)] = triple" using facts(2) 1 by (intro nth_equalityI) simp_all
    ultimately show ?thesis
      using assms(1) top join drops
      by (simp add: base64_step_sextet base64_step_pad base64_finish_def Let_def base64_ready_def mod_Suc)
  next
    case 2
    then have "base64_group triple = [sextet ?w 18, sextet ?w 12, sextet ?w 6, PAD]"
      by (simp add: base64_group_def Let_def)
    moreover have "[ucast (drop_bit 16 ?w), ucast (drop_bit 8 ?w)] = triple"
      using facts(2,3) 2 by (intro nth_equalityI) (auto simp: less_Suc_eq numeral_2_eq_2)
    ultimately show ?thesis
      using assms(1) top join drops
      by (simp add: base64_step_sextet base64_step_pad base64_finish_def Let_def base64_ready_def mod_Suc)
  qed
qed

lemma base64_steps_encode:
  assumes "base64_ready s"
  shows "\<exists>s'. base64_steps off (base64_encode bs) s = Inr s' \<and> base64_finish s' = Inr (decoded s @ bs)"
  using assms
proof (induction "3 :: nat" bs arbitrary: s off rule: chunks.induct)
  case (1 bs)
  show ?case
  proof (cases "bs = []")
    case True
    with 1(2) show ?thesis
      by (simp add: base64_encode_def chunks.simps base64_finish_def base64_ready_def)
  next
    case False
    then have enc: "base64_encode bs = base64_group (take 3 bs) @ base64_encode (drop 3 bs)"
      by (subst base64_encode_def, subst chunks.simps) (simp add: base64_encode_def)
    show ?thesis
    proof (cases "length bs < 3")
      case True
      then have "base64_encode bs = base64_group bs"
        using enc by (simp add: base64_encode_def chunks.simps)
      with base64_steps_last_group [OF 1(2) _ True] False show ?thesis by simp
    next
      case len: False
      then obtain s1 where s1: "base64_steps off (base64_group (take 3 bs)) s = Inr s1"
        "base64_ready s1" "decoded s1 = decoded s @ take 3 bs"
        using base64_steps_full_group [OF 1(2), of "take 3 bs" off] by auto
      obtain s2 where "base64_steps (off + length (base64_group (take 3 bs))) (base64_encode (drop 3 bs)) s1 = Inr s2"
        "base64_finish s2 = Inr (decoded s1 @ drop 3 bs)"
        using 1(1) [OF _ s1(2)] False by fastforce
      with s1 show ?thesis by (simp add: enc base64_steps_append)
    qed
  qed
qed

lemma base64_steps_filter:
  "base64_steps off' (filter (\<lambda>b. \<not> is_ascii_whitespace b) chars) s = Inr s' \<Longrightarrow>
   base64_steps off chars s = Inr s'"
proof (induction chars arbitrary: off off' s)
  case (Cons x chars)
  show ?case
  proof (cases "is_ascii_whitespace x")
    case True
    with Cons show ?thesis by (simp add: base64_step_def)
  next
    case False
    with Cons.prems obtain s1 where s1: "base64_step off' x s = Inr s1"
      "base64_steps (off' + 1) (filter (\<lambda>b. \<not> is_ascii_whitespace b) chars) s1 = Inr s'"
      by (auto simp: bindE_eq_Inr)
    from s1(1) have "base64_step off x s = Inr s1"
      by (auto simp: base64_step_def bindE_eq_Inr Let_def split: if_splits)
    with Cons.IH [OF s1(2)] show ?thesis by simp
  qed
qed simp

lemma pad_facts: "\<not> is_ascii_whitespace PAD" "PAD \<noteq> 0x2d"
  by (simp_all add: is_ascii_whitespace_def PAD_def)

lemma base64_chars:
  "c \<in> set (base64_encode bs) \<Longrightarrow> \<not> is_ascii_whitespace c \<and> c \<noteq> 0x2d"
proof -
  have "\<forall>c \<in> set (base64_group triple). \<not> is_ascii_whitespace c \<and> c \<noteq> 0x2d" for triple
    by (simp add: base64_group_def Let_def sextet_facts pad_facts)
  then show "c \<in> set (base64_encode bs) \<Longrightarrow> \<not> is_ascii_whitespace c \<and> c \<noteq> 0x2d"
    by (auto simp: base64_encode_def)
qed

lemma base64_decode_spread:
  assumes "filter (\<lambda>b. \<not> is_ascii_whitespace b) text = base64_encode bs"
  shows "base64_decode text = Inr bs"
proof -
  obtain s where s: "base64_steps 0 (base64_encode bs) base64_start = Inr s"
    "base64_finish s = Inr (decoded base64_start @ bs)"
    using base64_steps_encode [of base64_start 0 bs] by (auto simp: base64_ready_def base64_start_def)
  from s(1) have "base64_steps 0 text base64_start = Inr s"
    unfolding assms [symmetric] by (rule base64_steps_filter)
  with s(2) show ?thesis by (simp add: base64_decode_def base64_start_def)
qed

section \<open>Lemmas: armour\<close>

lemma find_window_here: "find_window (needle @ rest) needle = Some 0"
  by (subst find_window.simps) simp

lemma find_window_skip:
  assumes "needle = c # cs" "\<forall>x \<in> set xs. x \<noteq> c"
  shows "find_window (xs @ needle @ rest) needle = Some (length xs)"
  using assms(2)
proof (induction xs)
  case Nil
  then show ?case by (simp add: find_window_here)
next
  case (Cons x xs)
  then have "take (length needle) ((x # xs) @ needle @ rest) \<noteq> needle"
    using assms(1) by simp
  with Cons show ?case by (subst find_window.simps) simp
qed

lemma ascii_dashes: "ascii ''-----'' = [0x2d, 0x2d, 0x2d, 0x2d, 0x2d]"
  by (simp add: ascii_def)

lemma pem_line_Cons: "\<exists>cs. pem_line kind label = 0x2d # cs"
  by (simp add: pem_line_def ascii_dashes)

lemma pem_find_skip:
  assumes "\<forall>x \<in> set xs. x \<noteq> 0x2d"
  shows "pem_find (xs @ pem_line kind label @ rest) (pem_line kind label) = Some (length xs)"
proof -
  obtain cs where cs: "pem_line kind label = 0x2d # cs" using pem_line_Cons by blast
  from find_window_skip [OF cs assms] show ?thesis by (simp add: pem_find_def cs)
qed

lemma filter_lines:
  assumes "\<forall>c \<in> set body. \<not> is_ascii_whitespace c" "0 < n"
  shows "filter (\<lambda>b. \<not> is_ascii_whitespace b) (concat (map (\<lambda>line. line @ [0x0a]) (chunks n body))) = body"
proof -
  have nl: "is_ascii_whitespace 0x0a" by (simp add: is_ascii_whitespace_def)
  have "filter (\<lambda>b. \<not> is_ascii_whitespace b) (concat (map (\<lambda>line. line @ [0x0a]) ls)) = concat ls"
    if "\<forall>c \<in> set (concat ls). \<not> is_ascii_whitespace c" for ls
    using that by (induction ls) (auto simp: nl filter_id_conv)
  from this [of "chunks n body"] assms show ?thesis by (simp add: concat_chunks)
qed

section \<open>Properties\<close>

text \<open>
  Base64 round trip: decoding the encoding of any bytes returns them, also when
  whitespace has been inserted anywhere in the text.
\<close>

lemma base64_roundtrip:
  assumes "filter (\<lambda>b. \<not> is_ascii_whitespace b) text = base64_encode bs"
  shows "base64_decode text = Inr bs"
  using assms by (rule base64_decode_spread)

text \<open>
  Claim C26. PEM round trip: for every label and every body, decoding the armoured text under the
  same label finds both lines, and returns the body.
\<close>

theorem pem_roundtrip: "pem_decode (pem_encode label der) label = Inr der"
proof -
  let ?lines = "concat (map (\<lambda>line. line @ [0x0a]) (chunks PEM_LINE_WIDTH (base64_encode der)))"
  let ?text = "pem_encode label der" and ?n = "length (pem_begin label)"
  have armoured: "?text = pem_begin label @ ([0x0a] @ ?lines) @ pem_end label @ [0x0a]"
    by (simp add: pem_encode_def)
  have w: "0 < PEM_LINE_WIDTH" by (simp add: PEM_LINE_WIDTH_def)
  have "set ?lines \<subseteq> set (base64_encode der) \<union> {0x0a}"
    using concat_chunks [OF w, of "base64_encode der"] by auto (metis UN_I set_concat)
  then have "\<forall>x \<in> set ([0x0a] @ ?lines). x \<noteq> 0x2d" using base64_chars by fastforce
  note stop = pem_find_skip [OF this, of "ascii ''END ''" label "[0x0a]", folded pem_end_def]
  have start: "pem_find ?text (pem_begin label) = Some 0"
    using pem_find_skip [of "[]" "ascii ''BEGIN ''" label] by (simp add: armoured pem_begin_def)
  have drop: "drop ?n ?text = ([0x0a] @ ?lines) @ pem_end label @ [0x0a]" by (simp add: armoured)
  have "subslice ?text ?n (?n + length ([0x0a] @ ?lines)) = [0x0a] @ ?lines"
    by (simp add: armoured subslice_def)
  moreover have "base64_decode ([0x0a] @ ?lines) = Inr der"
    using filter_lines [OF _ w, of "base64_encode der"] base64_chars
    by (intro base64_decode_spread) (simp add: is_ascii_whitespace_def)
  ultimately show ?thesis
    using start stop drop by (simp add: pem_decode_def Let_def)
qed

end
