(* ===== verification/Der.thy ===== *)
theory Der imports Prelude "HOL-Library.Signed_Division" begin

text \<open>
  The DER writer (\<^verbatim>\<open>ramrod/der.rs\<close>): tag-length-value elements, integers, bit strings, object
  identifiers, tags in the high-number form, and the two time spellings with the calendar
  conversion behind them. Text is its ASCII bytes.
\<close>

section \<open>Data\<close>

definition IDENTIFIER_BOOLEAN :: u8 where "IDENTIFIER_BOOLEAN = 0x01"
definition IDENTIFIER_INTEGER :: u8 where "IDENTIFIER_INTEGER = 0x02"
definition IDENTIFIER_BIT_STRING :: u8 where "IDENTIFIER_BIT_STRING = 0x03"
definition IDENTIFIER_OCTET_STRING :: u8 where "IDENTIFIER_OCTET_STRING = 0x04"
definition IDENTIFIER_NULL :: u8 where "IDENTIFIER_NULL = 0x05"
definition IDENTIFIER_OID :: u8 where "IDENTIFIER_OID = 0x06"
definition IDENTIFIER_UTC_TIME :: u8 where "IDENTIFIER_UTC_TIME = 0x17"
definition IDENTIFIER_GENERALIZED_TIME :: u8 where "IDENTIFIER_GENERALIZED_TIME = 0x18"
definition IDENTIFIER_SEQUENCE :: u8 where "IDENTIFIER_SEQUENCE = 0x30"
definition IDENTIFIER_SET :: u8 where "IDENTIFIER_SET = 0x31"

definition CONSTRUCTED :: u8 where "CONSTRUCTED = 0x20"
definition CLASS_CONTEXT :: u8 where "CLASS_CONTEXT = 0x80"
definition CLASS_PRIVATE :: u8 where "CLASS_PRIVATE = 0xc0"
definition HIGH_TAG_NUMBER_FORM :: u8 where "HIGH_TAG_NUMBER_FORM = 0x1f"
definition LOW_TAG_NUMBER_MAX :: u8 where "LOW_TAG_NUMBER_MAX = 30"
definition FOURCC_BYTES :: nat where "FOURCC_BYTES = 4"
definition UTC_TIME_FIRST_YEAR :: int where "UTC_TIME_FIRST_YEAR = 1950"
definition UTC_TIME_LAST_YEAR :: int where "UTC_TIME_LAST_YEAR = 2049"
definition GENERALIZED_TIME_LAST_YEAR :: int where "GENERALIZED_TIME_LAST_YEAR = 9999"
definition SECONDS_PER_DAY :: int where "SECONDS_PER_DAY = 86400"

datatype DerError =
    NotAFourCharacterCode nat
  | OidTooShort nat
  | OidFirstArc u32
  | OidSecondArc u32 u32
  | YearOutOfRange int

section \<open>Elements\<close>

text \<open>
  The definite length: one byte below 128, else the significant bytes of the length behind their
  count. The position fallback of the source is the last digit.
\<close>

definition significant :: "bytes \<Rightarrow> bytes" where
  "significant digits =
     (case dropWhile (\<lambda>digit. digit = 0) digits of [] \<Rightarrow> [last digits] | ds \<Rightarrow> ds)"

definition tlv :: "bytes \<Rightarrow> bytes \<Rightarrow> bytes" where
  "tlv identifier body =
     (let len = length body in
      if len < 0x80 then identifier @ [word_of_nat len] @ body
      else
        let digits = significant (be64 (word_of_nat len))
        in identifier @ [0x80 OR word_of_nat (length digits)] @ digits @ body)"

definition der_sequence :: "bytes \<Rightarrow> bytes" where "der_sequence body = tlv [IDENTIFIER_SEQUENCE] body"
definition der_set :: "bytes \<Rightarrow> bytes" where "der_set body = tlv [IDENTIFIER_SET] body"
definition octet_string :: "bytes \<Rightarrow> bytes" where "octet_string bs = tlv [IDENTIFIER_OCTET_STRING] bs"

definition bit_string :: "bytes \<Rightarrow> bytes" where
  "bit_string bs = tlv [IDENTIFIER_BIT_STRING] (0x00 # bs)"

fun trailing_zeros :: "nat \<Rightarrow> u8 \<Rightarrow> nat" where
  "trailing_zeros 0 w = 0"
| "trailing_zeros (Suc n) w = (if w AND 1 \<noteq> 0 then 0 else Suc (trailing_zeros n (drop_bit 1 w)))"

definition named_bit_string :: "bytes \<Rightarrow> bytes" where
  "named_bit_string bits =
     (let kept = rev (dropWhile (\<lambda>byte. byte = 0) (rev bits)) in
      if kept = [] then tlv [IDENTIFIER_BIT_STRING] [0x00]
      else tlv [IDENTIFIER_BIT_STRING] (word_of_nat (trailing_zeros 8 (last kept)) # kept))"

definition integer_body :: "bytes \<Rightarrow> bytes" where
  "integer_body magnitude =
     (case dropWhile (\<lambda>byte. byte = 0) magnitude of
        [] \<Rightarrow> [0x00]
      | lead # rest \<Rightarrow> if lead AND 0x80 \<noteq> 0 then 0x00 # lead # rest else lead # rest)"

definition der_integer :: "bytes \<Rightarrow> bytes" where
  "der_integer magnitude = tlv [IDENTIFIER_INTEGER] (integer_body magnitude)"

definition integer_u64 :: "u64 \<Rightarrow> bytes" where
  "integer_u64 v = der_integer (be64 v)"

definition der_boolean :: "bool \<Rightarrow> bytes" where
  "der_boolean v = tlv [IDENTIFIER_BOOLEAN] [if v then 0xff else 0x00]"

definition der_null :: bytes where "der_null = tlv [IDENTIFIER_NULL] []"

section \<open>Numbers in base 128\<close>

text \<open>The groups of seven bits, least significant first, as the loop pushes them.\<close>

lemma unat_drop_bit_less: "drop_bit 7 (v :: u64) \<noteq> 0 \<Longrightarrow> unat (drop_bit 7 v) < unat v"
proof -
  assume "drop_bit 7 v \<noteq> 0"
  then have "v \<noteq> 0" by auto
  then have "unat v \<noteq> 0" by (simp add: unsigned_eq_0_iff)
  then show ?thesis unfolding unat_drop_bit_eq by (simp add: drop_bit_eq_div)
qed

function base128_groups :: "u64 \<Rightarrow> bytes" where
  "base128_groups v =
     (if drop_bit 7 v = 0 then [ucast (v AND 0x7f)]
      else ucast (v AND 0x7f) # base128_groups (drop_bit 7 v))"
  by pat_completeness auto
termination
  by (relation "measure unat") (auto intro: unat_drop_bit_less)

declare base128_groups.simps [simp del]

definition base128 :: "u64 \<Rightarrow> bytes" where
  "base128 v =
     (let groups = rev (base128_groups v)
      in map (\<lambda>g. g OR 0x80) (butlast groups) @ [last groups])"

definition context_identifier :: "u8 \<Rightarrow> bool \<Rightarrow> bytes" where
  "context_identifier tag_number constructed =
     (let cls = CLASS_CONTEXT OR (if constructed then CONSTRUCTED else 0) in
      if tag_number \<le> LOW_TAG_NUMBER_MAX then [cls OR tag_number]
      else (cls OR HIGH_TAG_NUMBER_FORM) # base128 (ucast tag_number))"

definition explicit :: "u8 \<Rightarrow> bytes \<Rightarrow> bytes" where
  "explicit tag_number body = tlv (context_identifier tag_number True) body"

definition context_primitive :: "u8 \<Rightarrow> bytes \<Rightarrow> bytes" where
  "context_primitive tag_number body = tlv (context_identifier tag_number False) body"

definition try_oid :: "u32 list \<Rightarrow> DerError + bytes" where
  "try_oid arcs =
     (if length arcs < 2 then Inl (OidTooShort (length arcs))
      else
        let arc1 = arcs ! 0; arc2 = arcs ! 1 in
        if arc1 > 2 then Inl (OidFirstArc arc1)
        else if arc1 < 2 \<and> arc2 \<ge> 40 then Inl (OidSecondArc arc1 arc2)
        else
          let body = base128 (ucast arc1 * 40 + ucast arc2)
                @ concat (map (\<lambda>arc. base128 (ucast arc)) (drop 2 arcs))
          in Inr (tlv [IDENTIFIER_OID] body))"

definition fourcc_private :: "bytes \<Rightarrow> DerError + bytes" where
  "fourcc_private code =
     (if length code \<noteq> FOURCC_BYTES then Inl (NotAFourCharacterCode (length code))
      else
        let tag = from_be32 code
        in Inr ((CLASS_PRIVATE OR CONSTRUCTED OR HIGH_TAG_NUMBER_FORM) # base128 (ucast tag)))"

section \<open>Times\<close>

record CivilTime =
  ct_year :: int
  ct_month :: int
  ct_day :: int
  ct_hour :: int
  ct_minute :: int
  ct_second :: int

text \<open>
  The calendar conversion. Signed 64-bit seconds give a day count far below the width, so no
  operation here overflows and the model computes over the integers; \<open>sdiv\<close> is the truncating
  division of the source, \<open>div\<close> and \<open>mod\<close> are its Euclidean ones.
\<close>

definition civil_from_unix :: "int \<Rightarrow> CivilTime" where
  "civil_from_unix unix_secs =
     (let days = unix_secs div SECONDS_PER_DAY;
          rest = unix_secs mod SECONDS_PER_DAY;
          shifted = days + 719468;
          era = (if shifted \<ge> 0 then shifted else shifted - 146096) sdiv 146097;
          day_of_era = shifted - era * 146097;
          year_of_era =
            (day_of_era - day_of_era sdiv 1460 + day_of_era sdiv 36524 - day_of_era sdiv 146096) sdiv 365;
          year = year_of_era + era * 400;
          day_of_year = day_of_era - (365 * year_of_era + year_of_era sdiv 4 - year_of_era sdiv 100);
          month_prime = (5 * day_of_year + 2) sdiv 153;
          day = day_of_year - (153 * month_prime + 2) sdiv 5 + 1;
          month = (if month_prime < 10 then month_prime + 3 else month_prime - 9)
      in \<lparr>ct_year = year + (if month \<le> 2 then 1 else 0), ct_month = month, ct_day = day,
          ct_hour = rest sdiv 3600, ct_minute = (rest sdiv 60) smod 60, ct_second = rest smod 60\<rparr>)"

text \<open>Zero-padded decimal, \<^verbatim>\<open>{:0w}\<close>, of a number that is not negative.\<close>

fun decimal_digits :: "nat \<Rightarrow> bytes" where
  "decimal_digits n =
     (if n < 10 then [0x30 + word_of_nat n] else decimal_digits (n div 10) @ [0x30 + word_of_nat (n mod 10)])"

declare decimal_digits.simps [simp del]

definition padded :: "nat \<Rightarrow> int \<Rightarrow> bytes" where
  "padded width v =
     (let ds = decimal_digits (nat v) in replicate (width - length ds) 0x30 @ ds)"

definition utc_time :: "int \<Rightarrow> DerError + bytes" where
  "utc_time unix_secs =
     (let t = civil_from_unix unix_secs in
      if \<not> (UTC_TIME_FIRST_YEAR \<le> ct_year t \<and> ct_year t \<le> UTC_TIME_LAST_YEAR)
      then Inl (YearOutOfRange (ct_year t))
      else Inr (tlv [IDENTIFIER_UTC_TIME]
        (padded 2 (ct_year t smod 100) @ padded 2 (ct_month t) @ padded 2 (ct_day t)
          @ padded 2 (ct_hour t) @ padded 2 (ct_minute t) @ padded 2 (ct_second t) @ ascii ''Z'')))"

definition generalized_time :: "int \<Rightarrow> DerError + bytes" where
  "generalized_time unix_secs =
     (let t = civil_from_unix unix_secs in
      if \<not> (0 \<le> ct_year t \<and> ct_year t \<le> GENERALIZED_TIME_LAST_YEAR)
      then Inl (YearOutOfRange (ct_year t))
      else Inr (tlv [IDENTIFIER_GENERALIZED_TIME]
        (padded 4 (ct_year t) @ padded 2 (ct_month t) @ padded 2 (ct_day t)
          @ padded 2 (ct_hour t) @ padded 2 (ct_minute t) @ padded 2 (ct_second t) @ ascii ''Z'')))"

definition x509_time :: "int \<Rightarrow> DerError + bytes" where
  "x509_time unix_secs =
     (let year = ct_year (civil_from_unix unix_secs) in
      if UTC_TIME_FIRST_YEAR \<le> year \<and> year \<le> UTC_TIME_LAST_YEAR
      then utc_time unix_secs else generalized_time unix_secs)"

section \<open>Specification\<close>

text \<open>
  An identifier a reader can delimit: a single byte in the low form, or the escape value followed
  by bytes whose top bits say which one is the last. \<open>base128_value\<close> reads a number back from its
  groups, \<open>magnitude_value\<close> the unsigned value of a big-endian byte string.
\<close>

fun wf_identifier :: "bytes \<Rightarrow> bool" where
  "wf_identifier [] = False"
| "wf_identifier (b # rest) =
     (if b AND HIGH_TAG_NUMBER_FORM = HIGH_TAG_NUMBER_FORM
      then rest \<noteq> [] \<and> list_all (\<lambda>g. g AND 0x80 \<noteq> 0) (butlast rest) \<and> last rest AND 0x80 = 0
      else rest = [])"

definition base128_value :: "bytes \<Rightarrow> nat" where
  "base128_value gs = foldl (\<lambda>a g. a * 128 + unat (g AND 0x7f)) 0 gs"

definition magnitude_value :: "bytes \<Rightarrow> nat" where
  "magnitude_value bs = foldl (\<lambda>a b. a * 256 + unat b) 0 bs"

section \<open>Lemmas: base 128\<close>

lemma byte_masks:
  fixes x :: u8
  shows "(x OR 0x80) AND 0x80 \<noteq> 0" "(x OR 0x80) AND 0x7f = x AND 0x7f" "(x AND 0x7f) AND 0x80 = 0"
    "(x AND 0x7f) AND 0x7f = x AND 0x7f"
proof -
  have b: "bit (0x80 :: u8) n \<longleftrightarrow> n = 7" "bit (0x7f :: u8) n \<longleftrightarrow> n < 7" for n
  proof -
    have "(0x80 :: u8) = push_bit 7 1" "(0x7f :: u8) = mask 7" by (simp_all add: mask_eq_exp_minus_1)
    then show "bit (0x80 :: u8) n \<longleftrightarrow> n = 7" "bit (0x7f :: u8) n \<longleftrightarrow> n < 7"
      by (simp_all only: bit_push_bit_iff bit_mask_iff bit_1_iff) auto
  qed
  have "bit ((x OR 0x80) AND 0x80) 7" unfolding bit_and_iff bit_or_iff b by simp
  then show "(x OR 0x80) AND 0x80 \<noteq> 0" by (auto simp del: bit_numeral_iff)
  show "(x OR 0x80) AND 0x7f = x AND 0x7f" "(x AND 0x7f) AND 0x80 = 0" "(x AND 0x7f) AND 0x7f = x AND 0x7f"
    by (rule bit_eqI, unfold bit_and_iff bit_or_iff b, auto)+
qed

lemma base128_groups_Cons: "base128_groups v \<noteq> []"
  by (subst base128_groups.simps) simp

lemma low_group: "ucast (v AND 0x7f :: u64) = (ucast v AND 0x7f :: u8)"
proof (rule bit_word_eqI)
  fix n :: nat
  assume "n < LENGTH(8)"
  moreover have "(0x7f :: u64) = mask 7" "(0x7f :: u8) = mask 7" by (simp_all add: mask_eq_exp_minus_1)
  ultimately show "bit (ucast (v AND 0x7f) :: u8) n \<longleftrightarrow> bit (ucast v AND 0x7f :: u8) n"
    by (simp only: bit_unsigned_iff bit_and_iff bit_mask_iff) auto
qed

lemma groups_masked: "g \<in> set (base128_groups v) \<Longrightarrow> g AND 0x80 = 0 \<and> g AND 0x7f = g"
proof (induction v rule: base128_groups.induct)
  case (1 v)
  then show ?case
    by (subst (asm) (2) base128_groups.simps) (auto simp: low_group byte_masks split: if_splits)
qed

lemma base128_shape:
  "base128 v \<noteq> []" "list_all (\<lambda>g. g AND 0x80 \<noteq> 0) (butlast (base128 v))" "last (base128 v) AND 0x80 = 0"
  using groups_masked [of "last (rev (base128_groups v))" v] base128_groups_Cons [of v]
  by (simp_all add: base128_def Let_def list_all_iff byte_masks last_rev)

lemma unat_low_group: "unat (ucast (v AND 0x7f :: u64) :: u8) = unat v mod 128"
proof -
  have "v AND 0x7f = take_bit 7 v" by (simp add: take_bit_eq_mask mask_eq_exp_minus_1)
  moreover have "unat (take_bit 7 v) = take_bit 7 (unat v)" by (rule unsigned_take_bit_eq)
  ultimately have "unat (v AND 0x7f) = unat v mod 128" by (simp add: take_bit_eq_mod)
  moreover have "unat v mod 128 < 2 ^ 8" by (rule less_trans [of _ 128]) simp_all
  ultimately show ?thesis by (simp add: unsigned_ucast_eq take_bit_nat_eq_self)
qed

lemma base128_groups_value:
  "foldr (\<lambda>g a. a * 128 + unat g) (base128_groups v) 0 = unat v"
proof (induction v rule: base128_groups.induct)
  case (1 v)
  have split: "unat (drop_bit 7 v) * 128 + unat v mod 128 = unat v"
    unfolding unat_drop_bit_eq by (simp add: drop_bit_eq_div)
  show ?case
  proof (cases "drop_bit 7 v = 0")
    case True
    with split show ?thesis by (subst base128_groups.simps) (simp add: unat_low_group)
  next
    case False
    with 1 split show ?thesis by (subst base128_groups.simps) (simp add: unat_low_group)
  qed
qed

lemma base128_decode: "base128_value (base128 v) = unat v"
proof -
  let ?gs = "rev (base128_groups v)"
  have ne: "?gs \<noteq> []" using base128_groups_Cons by simp
  have mask: "g AND 0x7f = g" if "g \<in> set ?gs" for g using groups_masked that by simp
  have "foldl (\<lambda>a g. a * 128 + unat (g AND 0x7f)) a (map (\<lambda>g. g OR 0x80) gs)
      = foldl (\<lambda>a g. a * 128 + unat (g AND 0x7f)) a gs" for gs :: bytes and a
    by (induction gs arbitrary: a) (simp_all add: byte_masks)
  then have "base128_value (base128 v) = foldl (\<lambda>a g. a * 128 + unat (g AND 0x7f)) 0 (butlast ?gs @ [last ?gs])"
    by (simp add: base128_value_def base128_def Let_def)
  also have "\<dots> = foldl (\<lambda>a g. a * 128 + unat (g AND 0x7f)) 0 ?gs"
    by (simp only: append_butlast_last_id [OF ne])
  also have "\<dots> = foldl (\<lambda>a g. a * 128 + unat g) 0 ?gs"
    by (rule foldl_cong) (simp_all add: mask)
  also have "\<dots> = unat v" by (simp add: foldl_conv_foldr base128_groups_value)
  finally show ?thesis .
qed

section \<open>Lemmas: lengths\<close>

lemma significant_eq:
  assumes "w \<noteq> 0"
  shows "significant (be64 w) = dropWhile (\<lambda>d. d = 0) (be64 w)" "dropWhile (\<lambda>d. d = 0) (be64 w) \<noteq> []"
proof -
  show ne: "dropWhile (\<lambda>d. d = 0) (be64 w) \<noteq> []"
  proof
    assume "dropWhile (\<lambda>d. d = 0) (be64 w) = []"
    then have zero: "\<forall>d \<in> set (be64 w). d = 0" by (simp add: dropWhile_eq_Nil_conv)
    have "foldl (\<lambda>a b. push_bit 8 a OR ucast b) (0 :: u64) ds = 0" if "\<forall>d \<in> set ds. d = (0 :: u8)" for ds
      using that by (induction ds) simp_all
    from this [OF zero] have "from_be64 (be64 w) = 0" by (simp add: of_be_def)
    with assms show False by simp
  qed
  then show "significant (be64 w) = dropWhile (\<lambda>d. d = 0) (be64 w)"
    by (cases "dropWhile (\<lambda>d. d = 0) (be64 w)") (simp_all add: significant_def)
qed

lemma of_be_dropWhile: "from_be64 (dropWhile (\<lambda>d. d = 0) ds) = from_be64 ds"
proof -
  have "foldl (\<lambda>a b. push_bit 8 a OR ucast b) (0 :: u64) (dropWhile (\<lambda>d. d = 0) ds)
      = foldl (\<lambda>a b. push_bit 8 a OR ucast b) 0 ds" for ds :: bytes
    by (induction ds) simp_all
  then show ?thesis by (simp add: of_be_def)
qed

lemma significant_short:
  assumes "w \<noteq> 0" "unat w < 2 ^ 32"
  shows "length (significant (be64 w)) \<le> 4"
proof -
  have zero: "ucast (drop_bit (8 * i) w) = (0 :: u8)" if "4 \<le> i" for i
  proof -
    have "unat w div 2 ^ (8 * i) = 0"
      using assms(2) that power_increasing [of 32 "8 * i" "2 :: nat"] by (intro div_less) simp
    then have "unat (drop_bit (8 * i) w) = 0"
      unfolding unat_drop_bit_eq by (simp add: drop_bit_eq_div)
    then have "drop_bit (8 * i) w = 0" by (simp only: unsigned_eq_0_iff)
    then show ?thesis by simp
  qed
  have "be64 w = [0, 0, 0, 0] @ be_bytes 4 w"
    using zero [of 4] zero [of 5] zero [of 6] zero [of 7] by (simp add: be_bytes_def le_bytes_def upt_rec)
  then have "dropWhile (\<lambda>d. d = 0) (be64 w) = dropWhile (\<lambda>d. d = 0) (be_bytes 4 w)" by simp
  with significant_eq(1) [OF assms(1)] length_dropWhile_le [of "\<lambda>d. d = 0" "be_bytes 4 w"]
  show ?thesis by simp
qed

section \<open>Lemmas: integers\<close>

lemma magnitude_dropWhile: "magnitude_value (dropWhile (\<lambda>b. b = 0) ms) = magnitude_value ms"
proof -
  have "foldl (\<lambda>a b. a * 256 + unat b) 0 (dropWhile (\<lambda>b. b = 0) ms) = foldl (\<lambda>a b. a * 256 + unat b) 0 ms"
    for ms :: bytes
    by (induction ms) simp_all
  then show ?thesis by (simp add: magnitude_value_def)
qed

lemma integer_body_value: "magnitude_value (integer_body ms) = magnitude_value ms"
proof (cases "dropWhile (\<lambda>b. b = 0) ms")
  case Nil
  then have "integer_body ms = [0]" unfolding integer_body_def Nil by simp
  with magnitude_dropWhile [of ms, unfolded Nil] show ?thesis by (simp add: magnitude_value_def)
next
  case (Cons lead rest)
  with magnitude_dropWhile [of ms] show ?thesis by (simp add: integer_body_def magnitude_value_def)
qed

section \<open>Properties\<close>

text \<open>
  A DER integer keeps its value and is canonical: its body is never empty, never reads
  as negative, and has no leading zero byte that could be dropped.
\<close>

lemma der_integer_canonical:
  "let body = integer_body ms in
     magnitude_value body = magnitude_value ms \<and> body \<noteq> [] \<and> hd body AND 0x80 = 0
     \<and> (length body = 1 \<or> hd body \<noteq> 0 \<or> body ! 1 AND 0x80 \<noteq> 0)"
proof (cases "dropWhile (\<lambda>b. b = 0) ms")
  case Nil
  then have "integer_body ms = [0]" unfolding integer_body_def Nil by simp
  with integer_body_value [of ms] show ?thesis by simp
next
  case (Cons lead rest)
  have "\<not> (\<lambda>b. b = 0) (hd (dropWhile (\<lambda>b. b = 0) ms))" by (rule hd_dropWhile) (simp add: Cons)
  then have "lead \<noteq> 0" unfolding Cons by simp
  moreover have "integer_body ms = (if lead AND 0x80 \<noteq> 0 then 0x00 # lead # rest else lead # rest)"
    unfolding integer_body_def Cons by simp
  ultimately show ?thesis
    unfolding Let_def integer_body_value by simp
qed

end
