(* ===== verification/Calendar.thy ===== *)
theory Calendar imports Der begin

text \<open>
  The calendar behind the DER times: \<^verbatim>\<open>civil_from_unix\<close> of \<^verbatim>\<open>ramrod/der.rs\<close> against the proleptic
  Gregorian calendar, and the exact spelling of the times built from it.
\<close>

section \<open>Specification\<close>

text \<open>The reference calendar: leap years, month lengths, and days since 1 January 1970.\<close>

definition leap_year :: "int \<Rightarrow> bool" where
  "leap_year y \<longleftrightarrow> y mod 4 = 0 \<and> (y mod 100 \<noteq> 0 \<or> y mod 400 = 0)"

definition days_in_month :: "int \<Rightarrow> int \<Rightarrow> int" where
  "days_in_month y m =
     (if m = 2 then (if leap_year y then 29 else 28) else if m \<in> {4, 6, 9, 11} then 30 else 31)"

definition days_before_month :: "int \<Rightarrow> int \<Rightarrow> int" where
  "days_before_month y m = sum_list (map (days_in_month y) [1..m - 1])"

definition days_before_year :: "int \<Rightarrow> int" where
  "days_before_year y = 365 * y + (y - 1) div 4 - (y - 1) div 100 + (y - 1) div 400 - 719527"

definition days_since_epoch :: "int \<Rightarrow> int \<Rightarrow> int \<Rightarrow> int" where
  "days_since_epoch y m d = days_before_year y + days_before_month y m + (d - 1)"

text \<open>Fixed-width decimal digits, the most significant first.\<close>

fun digits :: "nat \<Rightarrow> int \<Rightarrow> bytes" where
  "digits 0 v = []"
| "digits (Suc n) v = digits n (v div 10) @ [0x30 + word_of_int (v mod 10)]"

text \<open>
  Years that begin in March: the days before the year \<open>y\<close> of an era, the year of a day of the era,
  and the month and day of a day of such a year.
\<close>

definition ystart :: "int \<Rightarrow> int" where
  "ystart y = 365 * y + y div 4 - y div 100 + y div 400"

definition march_year :: "int \<Rightarrow> int" where
  "march_year d = (d - d div 1460 + d div 36524 - d div 146096) div 365"

definition march_offset :: "int \<Rightarrow> int" where
  "march_offset m = [0, 31, 61, 92, 122, 153, 184, 214, 245, 275] ! nat (m - 3)"

definition civil_month :: "int \<Rightarrow> int" where
  "civil_month doy = (let mp = (5 * doy + 2) div 153 in if mp < 10 then mp + 3 else mp - 9)"

definition civil_day :: "int \<Rightarrow> int" where
  "civil_day doy = doy - (153 * ((5 * doy + 2) div 153) + 2) div 5 + 1"

section \<open>Lemmas\<close>

lemma sdiv_nonneg: "0 \<le> a \<Longrightarrow> 0 < b \<Longrightarrow> a sdiv b = a div b" for a b :: int
  by (cases "a = 0") (simp_all add: signed_divide_int_def)

lemma smod_nonneg: "0 \<le> a \<Longrightarrow> 0 < b \<Longrightarrow> a smod b = a mod b" for a b :: int
  by (cases "a = 0") (simp_all add: signed_modulo_int_def sdiv_nonneg minus_div_mult_eq_mod)

lemma minus_div_mono:
  fixes a b k :: int
  assumes "a \<le> b" "0 < k"
  shows "a - a div k \<le> b - b div k"
proof -
  have "1 * (b - a) \<le> k * (b - a)" using assms by (intro mult_right_mono) simp_all
  then have "b div k \<le> (a + k * (b - a)) div k"
    using assms by (intro zdiv_mono1) simp_all
  also have "\<dots> = a div k + (b - a)" using assms(2) by simp
  finally show ?thesis by simp
qed

lemma march_year_mono: "d \<le> e \<Longrightarrow> march_year d \<le> march_year e"
proof -
  assume de: "d \<le> e"
  have q: "x div 146096 = x div 36524 div 4" for x :: int by (simp add: zdiv_zmult2_eq [symmetric])
  have "d div 36524 - d div 36524 div 4 \<le> e div 36524 - e div 36524 div 4"
    using de by (intro minus_div_mono zdiv_mono1) simp_all
  with minus_div_mono [OF de, of 1460] show ?thesis
    unfolding march_year_def q by (intro zdiv_mono1) simp_all
qed

lemma march_year_table:
  assumes "0 \<le> y" "y < 400"
  shows "march_year (ystart y) = y" "march_year (ystart (y + 1) - 1) = y"
proof -
  have "list_all (\<lambda>y. march_year (ystart y) = y \<and> march_year (ystart (y + 1) - 1) = y) [0..399]"
    by code_simp
  with assms show "march_year (ystart y) = y" "march_year (ystart (y + 1) - 1) = y"
    by (simp_all add: list_all_iff)
qed

lemma march_year_exists:
  assumes "0 \<le> d" "d < ystart (int n)"
  shows "\<exists>y. 0 \<le> y \<and> y < int n \<and> ystart y \<le> d \<and> d < ystart (y + 1)"
  using assms(2)
proof (induction n)
  case 0
  with assms(1) show ?case by (simp add: ystart_def)
next
  case (Suc n)
  show ?case
  proof (cases "d < ystart (int n)")
    case True
    from Suc.IH [OF this] show ?thesis by force
  next
    case False
    with Suc.prems show ?thesis by (intro exI [of _ "int n"]) (simp add: ac_simps)
  qed
qed

lemma march_year_correct:
  assumes "0 \<le> d" "d < 146097"
  shows "0 \<le> march_year d" "march_year d < 400" "ystart (march_year d) \<le> d" "d < ystart (march_year d + 1)"
proof -
  have "ystart (int 400) = 146097" by (simp add: ystart_def)
  with march_year_exists [of d 400] assms obtain y where y: "0 \<le> y" "y < 400" "ystart y \<le> d" "d < ystart (y + 1)"
    by auto
  have "y \<le> march_year d" "march_year d \<le> y"
    using march_year_mono [OF y(3)] march_year_mono [of d "ystart (y + 1) - 1"] march_year_table [OF y(1,2)] y(4)
    by simp_all
  with y show "0 \<le> march_year d" "march_year d < 400" "ystart (march_year d) \<le> d"
    "d < ystart (march_year d + 1)" by auto
qed

lemma days_before_month_eq:
  assumes "1 \<le> m" "m \<le> 12"
  shows "days_before_month y m =
     (if m = 1 then 0 else if m = 2 then 31 else 59 + (if leap_year y then 1 else 0) + march_offset m)"
proof -
  have up: "[1..0] = []" "[1..1] = [1]" "[1..2] = [1, 2]" "[1..3] = [1, 2, 3]" "[1..4] = [1, 2, 3, 4]"
    "[1..5] = [1, 2, 3, 4, 5]" "[1..6] = [1, 2, 3, 4, 5, 6]" "[1..7] = [1, 2, 3, 4, 5, 6, 7]"
    "[1..8] = [1, 2, 3, 4, 5, 6, 7, 8]" "[1..9] = [1, 2, 3, 4, 5, 6, 7, 8, 9]"
    "[1..10] = [1, 2, 3, 4, 5, 6, 7, 8, 9, 10]" "[1..11] = [1, 2, 3, 4, 5, 6, 7, 8, 9, 10, 11]"
    by code_simp+
  have "[1..12] = [1, 2, 3, 4, 5, 6, 7, 8, 9, 10, 11, 12]" by code_simp
  moreover have "m \<in> set [1..12]" using assms by simp
  ultimately have "m \<in> {1, 2, 3, 4, 5, 6, 7, 8, 9, 10, 11, 12}" by simp
  then show ?thesis
    by (elim insertE) (simp_all add: days_before_month_def march_offset_def up days_in_month_def)
qed

lemma civil_month_table:
  assumes "0 \<le> doy" "doy \<le> 365"
  shows "1 \<le> civil_month doy \<and> civil_month doy \<le> 12 \<and> 1 \<le> civil_day doy \<and>
    (if civil_month doy = 1 then doy = 306 + (civil_day doy - 1) \<and> civil_day doy \<le> 31
     else if civil_month doy = 2 then doy = 337 + (civil_day doy - 1) \<and> civil_day doy \<le> 29
     else doy = march_offset (civil_month doy) + (civil_day doy - 1)
       \<and> civil_day doy \<le> (if civil_month doy \<in> {4, 6, 9, 11} then 30 else 31))"
proof -
  have "list_all (\<lambda>doy. 1 \<le> civil_month doy \<and> civil_month doy \<le> 12 \<and> 1 \<le> civil_day doy \<and>
    (if civil_month doy = 1 then doy = 306 + (civil_day doy - 1) \<and> civil_day doy \<le> 31
     else if civil_month doy = 2 then doy = 337 + (civil_day doy - 1) \<and> civil_day doy \<le> 29
     else doy = march_offset (civil_month doy) + (civil_day doy - 1)
       \<and> civil_day doy \<le> (if civil_month doy \<in> {4, 6, 9, 11} then 30 else 31))) [0..365]"
    by code_simp
  moreover have "doy \<in> set [0..365]" using assms by simp
  ultimately show ?thesis unfolding list_all_iff by (rule bspec)
qed

lemma div_minus_one:
  fixes y k :: int
  assumes "1 < k"
  shows "(y - 1) div k = y div k - (if y mod k = 0 then 1 else 0)"
proof -
  let ?q = "y div k" and ?r = "y mod k"
  have y: "y = k * ?q + ?r" by simp
  have r: "0 \<le> ?r" "?r < k" using assms by simp_all
  show ?thesis
  proof (cases "?r = 0")
    case True
    have "(y - 1) div k = ((k - 1) + (?q - 1) * k) div k" using y True by (simp add: algebra_simps)
    also have "\<dots> = (k - 1) div k + (?q - 1)" using assms by (subst div_mult_self1) simp_all
    finally show ?thesis using True assms by simp
  next
    case False
    have "(y - 1) div k = ((?r - 1) + ?q * k) div k" using y by (simp add: algebra_simps)
    also have "\<dots> = (?r - 1) div k + ?q" using assms by (subst div_mult_self1) simp_all
    finally show ?thesis using False r by simp
  qed
qed

lemma days_before_year_leap:
  "days_before_year y + (if leap_year y then 1 else 0) = ystart y - 719527"
proof -
  have "y mod 400 = 0 \<Longrightarrow> y mod 100 = 0" "y mod 100 = 0 \<Longrightarrow> y mod 4 = 0" by presburger+
  then show ?thesis
    by (auto simp: days_before_year_def ystart_def leap_year_def div_minus_one)
qed

lemma days_before_next_year: "days_before_year (y + 1) = ystart y + 365 - 719527"
  by (simp add: days_before_year_def ystart_def)

lemma ystart_leap: "ystart (y + 1) - ystart y = 365 + (if leap_year (y + 1) then 1 else 0)"
  using days_before_year_leap [of "y + 1"] days_before_next_year [of y] by simp

lemma ystart_era:
  assumes "0 \<le> y" "y < 400"
  shows "ystart (y + era * 400) = ystart y + era * 146097"
proof -
  have "(y + era * 400) div 4 = y div 4 + era * 100" "(y + era * 400) div 100 = y div 100 + era * 4"
    "(y + era * 400) div 400 = y div 400 + era"
    using div_mult_self1 [of 4 y "era * 100"] div_mult_self1 [of 100 y "era * 4"] by simp_all
  then show ?thesis by (simp add: ystart_def)
qed

lemma leap_year_era: "leap_year (y + era * 400) = leap_year y"
proof -
  have "(y + era * 400) mod 4 = y mod 4" "(y + era * 400) mod 100 = y mod 100" "(y + era * 400) mod 400 = y mod 400"
    using mod_mult_self1 [of y "era * 100" 4] mod_mult_self1 [of y "era * 4" 100] by (simp_all add: ac_simps)
  then show ?thesis by (simp add: leap_year_def)
qed

lemma div_complement: "0 < k \<Longrightarrow> (k - 1 - x) div k = - (x div k)" for k x :: int
proof -
  assume k: "0 < k"
  have "k - 1 - x = (k - 1 - x mod k) + (- (x div k)) * k"
    using mult_div_mod_eq [of k x] by (simp add: algebra_simps)
  then have "(k - 1 - x) div k = (k - 1 - x mod k) div k + - (x div k)"
    using k by (simp only: div_mult_self1)
  moreover have "x mod k \<le> k - 1" "0 \<le> x mod k" using k by (simp_all add: zle_diff1_eq)
  ultimately show ?thesis by simp
qed

lemma era_floor: "(if x \<ge> 0 then x else x - 146096) sdiv 146097 = x div 146097" for x :: int
proof (cases "x \<ge> 0")
  case False
  have "(x - 146096) sdiv 146097 = - ((146096 - x) div 146097)"
    using False by (simp add: signed_divide_int_def)
  also have "(146096 - x) div 146097 = - (x div 146097)"
    using div_complement [of 146097 x] by simp
  finally show ?thesis using False by simp
qed (simp add: sdiv_nonneg)

text \<open>The conversion with its truncating divisions replaced by floors.\<close>

lemma civil_from_unix_eq:
  fixes secs
  defines "shifted \<equiv> secs div 86400 + 719468"
  defines "doe \<equiv> shifted mod 146097"
  defines "y \<equiv> march_year doe + shifted div 146097 * 400"
  defines "doy \<equiv> doe - ystart (march_year doe)"
  shows "ct_month (civil_from_unix secs) = civil_month doy" "ct_day (civil_from_unix secs) = civil_day doy"
    "ct_year (civil_from_unix secs) = y + (if civil_month doy \<le> 2 then 1 else 0)"
    "ct_hour (civil_from_unix secs) = secs mod 86400 div 3600"
    "ct_minute (civil_from_unix secs) = secs mod 86400 div 60 mod 60"
    "ct_second (civil_from_unix secs) = secs mod 86400 mod 60"
    "0 \<le> doy" "doy \<le> 364 + (if leap_year (y + 1) then 1 else 0)"
proof -
  have doe: "0 \<le> doe" "doe < 146097" by (simp_all add: doe_def)
  note my = march_year_correct [OF doe]
  have rest: "0 \<le> secs mod 86400" by simp
  have era: "(if shifted \<ge> 0 then shifted else shifted - 146096) sdiv 146097 = shifted div 146097"
    by (rule era_floor)
  have doe_eq: "shifted - shifted div 146097 * 146097 = doe" by (simp add: doe_def minus_div_mult_eq_mod)
  have sd: "doe sdiv 1460 = doe div 1460" "doe sdiv 36524 = doe div 36524" "doe sdiv 146096 = doe div 146096"
    using doe by (simp_all add: sdiv_nonneg)
  have "0 \<le> doe - doe div 1460 + doe div 36524 - doe div 146096"
    using my(1) unfolding march_year_def by (simp add: pos_imp_zdiv_nonneg_iff)
  then have yoe: "(doe - doe sdiv 1460 + doe sdiv 36524 - doe sdiv 146096) sdiv 365 = march_year doe"
    unfolding sd march_year_def by (rule sdiv_nonneg) simp
  have sd2: "march_year doe sdiv 4 = march_year doe div 4" "march_year doe sdiv 100 = march_year doe div 100"
    using my by (simp_all add: sdiv_nonneg)
  have doy_eq: "doe - (365 * march_year doe + march_year doe sdiv 4 - march_year doe sdiv 100) = doy"
    unfolding sd2 doy_def ystart_def using my by simp
  show doy: "0 \<le> doy" using my by (simp add: doy_def)
  have "leap_year (y + 1) = leap_year (march_year doe + 1)"
    using leap_year_era [of "march_year doe + 1" "shifted div 146097"] by (simp add: y_def ac_simps)
  then show "doy \<le> 364 + (if leap_year (y + 1) then 1 else 0)"
    using my(4) ystart_leap [of "march_year doe"] by (simp add: doy_def)
  have sd3: "(5 * doy + 2) sdiv 153 = (5 * doy + 2) div 153" using doy by (simp add: sdiv_nonneg)
  have "0 \<le> (5 * doy + 2) div 153" using doy by simp
  then have sd4: "(153 * ((5 * doy + 2) div 153) + 2) sdiv 5 = (153 * ((5 * doy + 2) div 153) + 2) div 5"
    by (intro sdiv_nonneg) simp_all
  have sd5: "secs mod 86400 sdiv 3600 = secs mod 86400 div 3600" "secs mod 86400 sdiv 60 = secs mod 86400 div 60"
    "(secs mod 86400 div 60) smod 60 = secs mod 86400 div 60 mod 60"
    "secs mod 86400 smod 60 = secs mod 86400 mod 60"
    by (simp_all add: sdiv_nonneg smod_nonneg)
  note unf = civil_from_unix_def SECONDS_PER_DAY_def Let_def shifted_def [symmetric] era doe_eq yoe doy_eq sd3 sd4 sd5
  show "ct_month (civil_from_unix secs) = civil_month doy" unfolding unf by (simp add: civil_month_def Let_def)
  show "ct_day (civil_from_unix secs) = civil_day doy" unfolding unf by (simp add: civil_day_def)
  show "ct_year (civil_from_unix secs) = y + (if civil_month doy \<le> 2 then 1 else 0)"
    unfolding unf by (simp add: civil_month_def Let_def y_def)
  show "ct_hour (civil_from_unix secs) = secs mod 86400 div 3600"
    "ct_minute (civil_from_unix secs) = secs mod 86400 div 60 mod 60"
    "ct_second (civil_from_unix secs) = secs mod 86400 mod 60"
    unfolding unf by simp_all
qed

lemma civil_date:
  fixes secs
  defines "t \<equiv> civil_from_unix secs"
  shows "1 \<le> ct_month t" "ct_month t \<le> 12" "1 \<le> ct_day t" "ct_day t \<le> days_in_month (ct_year t) (ct_month t)"
    and "days_since_epoch (ct_year t) (ct_month t) (ct_day t) = secs div 86400"
proof -
  define shifted where "shifted = secs div 86400 + 719468"
  define doe where "doe = shifted mod 146097"
  define y where "y = march_year doe + shifted div 146097 * 400"
  define doy where "doy = doe - ystart (march_year doe)"
  note defs = shifted_def doe_def y_def doy_def
  note eqs = civil_from_unix_eq [of secs, folded shifted_def, folded doe_def, folded y_def doy_def]
  have "0 \<le> doe" "doe < 146097" by (simp_all add: doe_def)
  note my = march_year_correct [OF this]
  have leap: "doy \<le> 365" "doy = 365 \<longrightarrow> leap_year (y + 1)" using eqs(8) by (auto split: if_splits)
  note tab = civil_month_table [OF eqs(7) leap(1)]
  from tab show m: "1 \<le> ct_month t" "ct_month t \<le> 12" "1 \<le> ct_day t" by (simp_all add: t_def eqs)
  show "ct_day t \<le> days_in_month (ct_year t) (ct_month t)"
    using tab leap unfolding t_def eqs days_in_month_def by (auto split: if_splits)
  have "ystart y = ystart (march_year doe) + shifted div 146097 * 146097"
    unfolding y_def using my by (intro ystart_era)
  moreover have "shifted div 146097 * 146097 + doe = shifted" by (simp add: doe_def)
  ultimately have days: "ystart y + doy - 719468 = secs div 86400" by (simp add: doy_def shifted_def)
  have month: "days_before_month (ct_year t) (ct_month t) =
     (if ct_month t = 1 then 0 else if ct_month t = 2 then 31
      else 59 + (if leap_year (ct_year t) then 1 else 0) + march_offset (ct_month t))"
    using m by (intro days_before_month_eq)
  show "days_since_epoch (ct_year t) (ct_month t) (ct_day t) = secs div 86400"
  proof (cases "civil_month doy \<le> 2")
    case True
    then have "ct_year t = y + 1" by (simp add: t_def eqs)
    with True tab month days days_before_next_year [of y] show ?thesis
      by (auto simp: days_since_epoch_def t_def eqs split: if_splits)
  next
    case False
    then have "ct_year t = y" by (simp add: t_def eqs)
    with False tab month days days_before_year_leap [of y] show ?thesis
      by (auto simp: days_since_epoch_def t_def eqs split: if_splits)
  qed
qed

lemma digits_zero: "digits w 0 = replicate w 0x30"
  by (induction w) (simp_all add: replicate_append_same)

lemma padded_digits:
  assumes "0 < w" "v < 10 ^ w"
  shows "replicate (w - length (decimal_digits v)) 0x30 @ decimal_digits v = digits w (int v)"
  using assms
proof (induction w arbitrary: v)
  case (Suc w)
  have last: "0x30 + word_of_nat (v mod 10) = (0x30 + word_of_int (int v mod 10) :: u8)"
    using of_int_of_nat_eq [of "v mod 10", where 'a = u8] by (simp only: zmod_int of_nat_numeral)
  show ?case
  proof (cases "v < 10")
    case True
    then have "int v div 10 = 0" "int v mod 10 = int v" by simp_all
    with True show ?thesis by (subst (1 2) decimal_digits.simps) (simp add: digits_zero)
  next
    case False
    with Suc.prems have "0 < w" "v div 10 < 10 ^ w" by (cases w; simp)+
    note ih = Suc.IH [OF this]
    from False have dd: "decimal_digits v = decimal_digits (v div 10) @ [0x30 + word_of_nat (v mod 10)]"
      by (subst decimal_digits.simps) simp
    have "digits (Suc w) (int v) = digits w (int (v div 10)) @ [0x30 + word_of_nat (v mod 10)]"
      unfolding last by (simp add: zdiv_int)
    with ih show ?thesis by (simp add: dd)
  qed
qed simp

lemma padded_eq_digits: "0 < w \<Longrightarrow> 0 \<le> v \<Longrightarrow> v < 10 ^ w \<Longrightarrow> padded w v = digits w v"
  using padded_digits [of w "nat v"] by (simp add: padded_def Let_def nat_less_iff)

lemma length_digits [simp]: "length (digits w v) = w"
  by (induction w arbitrary: v) simp_all

lemma civil_from_unix_correct_parts:
  fixes secs
  defines "t \<equiv> civil_from_unix secs"
  shows "0 \<le> ct_hour t" "ct_hour t < 24" "0 \<le> ct_minute t" "ct_minute t < 60" "0 \<le> ct_second t"
    "ct_second t < 60" "secs mod 86400 = 3600 * ct_hour t + 60 * ct_minute t + ct_second t"
proof -
  obtain r where r: "secs mod 86400 = r" by simp
  have bound: "0 \<le> r" "r < 86400" unfolding r [symmetric] by simp_all
  have "r div 60 div 60 = r div 3600" by (simp add: zdiv_zmult2_eq [symmetric])
  then have sum: "r = 3600 * (r div 3600) + 60 * (r div 60 mod 60) + r mod 60"
    using mult_div_mod_eq [of 60 r] mult_div_mod_eq [of 60 "r div 60"] by linarith
  note eqs = civil_from_unix_eq(4-6) [of secs, unfolded r, folded t_def]
  show "0 \<le> ct_hour t" using bound by (simp add: eqs pos_imp_zdiv_nonneg_iff)
  show "ct_hour t < 24" using bound sum unfolding eqs by (simp add: div_less_iff_less_mult)
  show "0 \<le> ct_minute t" "ct_minute t < 60" "0 \<le> ct_second t" "ct_second t < 60" by (simp_all add: eqs)
  show "secs mod 86400 = 3600 * ct_hour t + 60 * ct_minute t + ct_second t"
    unfolding eqs r by (rule sum)
qed

section \<open>Properties\<close>

text \<open>
  Claim C23. The calendar conversion is right for every second, before and after the epoch: the
  result is a valid Gregorian date and time of day, and it is the one that many seconds after
  midnight of 1 January 1970.
\<close>

theorem civil_from_unix_correct:
  "let t = civil_from_unix secs in
     1 \<le> ct_month t \<and> ct_month t \<le> 12 \<and> 1 \<le> ct_day t
     \<and> ct_day t \<le> days_in_month (ct_year t) (ct_month t)
     \<and> 0 \<le> ct_hour t \<and> ct_hour t < 24 \<and> 0 \<le> ct_minute t \<and> ct_minute t < 60
     \<and> 0 \<le> ct_second t \<and> ct_second t < 60
     \<and> secs = 86400 * days_since_epoch (ct_year t) (ct_month t) (ct_day t)
         + 3600 * ct_hour t + 60 * ct_minute t + ct_second t"
  unfolding Let_def
  using civil_date [of secs] civil_from_unix_correct_parts [of secs] mult_div_mod_eq [of 86400 secs] by simp

text \<open>
  Claim C27. Every instant whose year has at most four digits has exactly one X.509 spelling:
  years 1950 to 2049 as UTCTime with two year digits, all others as GeneralizedTime with four;
  outside, the year is refused.
\<close>

theorem x509_time_spelling:
  "x509_time secs =
     (let t = civil_from_unix secs;
          rest = digits 2 (ct_month t) @ digits 2 (ct_day t) @ digits 2 (ct_hour t)
            @ digits 2 (ct_minute t) @ digits 2 (ct_second t) @ [0x5a]
      in if 1950 \<le> ct_year t \<and> ct_year t \<le> 2049
         then Inr ([0x17, 13] @ digits 2 (ct_year t mod 100) @ rest)
         else if 0 \<le> ct_year t \<and> ct_year t \<le> 9999
         then Inr ([0x18, 15] @ digits 4 (ct_year t) @ rest)
         else Inl (YearOutOfRange (ct_year t)))"
proof -
  let ?t = "civil_from_unix secs"
  have "days_in_month (ct_year ?t) (ct_month ?t) \<le> 31" by (simp add: days_in_month_def)
  then have "ct_day ?t < 100" using civil_date(4) [of secs] by linarith
  then have two: "padded 2 (ct_month ?t) = digits 2 (ct_month ?t)" "padded 2 (ct_day ?t) = digits 2 (ct_day ?t)"
    "padded 2 (ct_hour ?t) = digits 2 (ct_hour ?t)" "padded 2 (ct_minute ?t) = digits 2 (ct_minute ?t)"
    "padded 2 (ct_second ?t) = digits 2 (ct_second ?t)"
    using civil_from_unix_correct_parts [of secs] civil_date [of secs] by (simp_all add: padded_eq_digits)
  show ?thesis
  proof (cases "0 \<le> ct_year ?t \<and> ct_year ?t \<le> 9999")
    case True
    then have "padded 4 (ct_year ?t) = digits 4 (ct_year ?t)"
      "padded 2 (ct_year ?t mod 100) = digits 2 (ct_year ?t mod 100)"
      "ct_year ?t smod 100 = ct_year ?t mod 100"
      by (simp_all add: padded_eq_digits smod_nonneg)
    with True two show ?thesis
      by (simp add: x509_time_def utc_time_def generalized_time_def Let_def tlv_def ascii_def
          UTC_TIME_FIRST_YEAR_def UTC_TIME_LAST_YEAR_def GENERALIZED_TIME_LAST_YEAR_def
          IDENTIFIER_UTC_TIME_def IDENTIFIER_GENERALIZED_TIME_def length_digits)
  next
    case False
    then show ?thesis
      by (auto simp: x509_time_def generalized_time_def Let_def UTC_TIME_FIRST_YEAR_def
          UTC_TIME_LAST_YEAR_def GENERALIZED_TIME_LAST_YEAR_def)
  qed
qed

end
