(* ===== verification/Hash_Stream.thy ===== *)
theory Hash_Stream imports Prelude begin

text \<open>
  The buffering shared by the hashers of \<^verbatim>\<open>crypto/hash.rs\<close>. The source writes \<^verbatim>\<open>update\<close> and \<^verbatim>\<open>finish\<close>
  three times with other block sizes and compression functions; here they are written once, with those
  as arguments. The locale shows that hashing in pieces is hashing the padded whole.
\<close>

section \<open>A buffered hasher\<close>

record ('s, 'n) hasher =
  hs_state :: 's
  hs_length_bytes :: 'n
  hs_buffer :: bytes
  hs_buffer_len :: nat

text \<open>The loop over whole blocks; a block size is never zero.\<close>

function absorb :: "('s \<Rightarrow> bytes \<Rightarrow> 's) \<Rightarrow> nat \<Rightarrow> 's \<Rightarrow> bytes \<Rightarrow> 's \<times> bytes" where
  "absorb compress block st bs =
     (if block = 0 \<or> length bs < block then (st, bs)
      else absorb compress block (compress st (take block bs)) (drop block bs))"
  by pat_completeness auto
termination
  by (relation "measure (\<lambda>(compress, block, st, bs). length bs)") auto

declare absorb.simps [simp del]

definition absorb_rest ::
    "('s \<Rightarrow> bytes \<Rightarrow> 's) \<Rightarrow> nat \<Rightarrow> ('s, 'n) hasher \<Rightarrow> bytes \<Rightarrow> ('s, 'n) hasher" where
  "absorb_rest compress block h bs =
     (let (st, rest) = absorb compress block (hs_state h) bs
      in h\<lparr>hs_state := st, hs_buffer := put (hs_buffer h) 0 rest, hs_buffer_len := length rest\<rparr>)"

definition hasher_update ::
    "('s \<Rightarrow> bytes \<Rightarrow> 's) \<Rightarrow> nat \<Rightarrow> ('s, 'n::semiring_1) hasher \<Rightarrow> bytes \<Rightarrow> ('s, 'n) hasher" where
  "hasher_update compress block h bs =
     (let h = h\<lparr>hs_length_bytes := hs_length_bytes h + of_nat (length bs)\<rparr>
      in if hs_buffer_len h \<noteq> 0 then
           let count = min (block - hs_buffer_len h) (length bs);
               buffer = put (hs_buffer h) (hs_buffer_len h) (take count bs);
               len = hs_buffer_len h + count;
               rest = drop count bs;
               h = (if len = block
                    then h\<lparr>hs_state := compress (hs_state h) buffer, hs_buffer := buffer, hs_buffer_len := 0\<rparr>
                    else h\<lparr>hs_buffer := buffer, hs_buffer_len := len\<rparr>)
           in if rest = [] then h else absorb_rest compress block h rest
         else absorb_rest compress block h bs)"

text \<open>The state after \<^verbatim>\<open>finish\<close>; \<open>limit\<close> is where the length field starts in the last block.\<close>

definition hasher_finish ::
    "('s \<Rightarrow> bytes \<Rightarrow> 's) \<Rightarrow> nat \<Rightarrow> nat \<Rightarrow> ('n::semiring_1 \<Rightarrow> bytes) \<Rightarrow> ('s, 'n) hasher \<Rightarrow> 's" where
  "hasher_finish compress block limit encode h =
     (let bit_length = hs_length_bytes h * 8;
          buffer = (hs_buffer h)[hs_buffer_len h := 0x80];
          len = hs_buffer_len h + 1;
          full = take len buffer @ replicate (block - len) 0;
          (st, buffer, len) = (if len > limit then (compress (hs_state h) full, full, 0) else (hs_state h, buffer, len));
          buffer = take len buffer @ replicate (limit - len) 0 @ drop limit buffer;
          buffer = put buffer limit (encode bit_length)
      in compress st buffer)"

section \<open>The message a hasher has taken\<close>

text \<open>Merkle-Damgard padding: a one bit, zeros and the length in bits, to a whole number of blocks.\<close>

definition md_pad :: "nat \<Rightarrow> nat \<Rightarrow> ('n::semiring_1 \<Rightarrow> bytes) \<Rightarrow> bytes \<Rightarrow> bytes" where
  "md_pad block limit encode m =
     (let used = Suc (length m) mod block;
          zeros = (if used \<le> limit then limit - used else block - used + limit)
      in m @ [0x80] @ replicate zeros 0 @ encode (of_nat (length m) * 8))"

definition md_hash ::
    "('s \<Rightarrow> bytes \<Rightarrow> 's) \<Rightarrow> nat \<Rightarrow> nat \<Rightarrow> ('n::semiring_1 \<Rightarrow> bytes) \<Rightarrow> 's \<Rightarrow> bytes \<Rightarrow> 's" where
  "md_hash compress block limit encode init m = foldl compress init (chunks block (md_pad block limit encode m))"

lemma chunks_blocks:
  "0 < n \<Longrightarrow> \<forall>b\<in>set blocks. length b = n \<Longrightarrow> chunks n (concat blocks @ rest) = blocks @ chunks n rest"
  by (induction blocks) (auto simp: chunks_step [of n "_ @ _"] chunks.simps [of n "_ @ _"])

lemma length_concat_blocks: "\<forall>b\<in>set blocks. length b = n \<Longrightarrow> length (concat blocks) = length blocks * n"
  by (induction blocks) auto

lemma absorb_blocks:
  "absorb compress block st bs = (st', rest) \<Longrightarrow> 0 < block \<Longrightarrow>
   \<exists>blocks. bs = concat blocks @ rest \<and> (\<forall>b\<in>set blocks. length b = block) \<and> length rest < block
     \<and> st' = foldl compress st blocks"
proof (induction compress block st bs rule: absorb.induct)
  case (1 compress block st bs)
  show ?case
  proof (cases "length bs < block")
    case True
    with "1.prems" show ?thesis by (intro exI [of _ "[]"]) (simp add: absorb.simps)
  next
    case False
    with "1.prems" have "absorb compress block (compress st (take block bs)) (drop block bs) = (st', rest)"
      by (simp add: absorb.simps [of compress block st bs])
    with "1.IH" False "1.prems"(2) obtain blocks where d: "drop block bs = concat blocks @ rest"
      and bl: "\<forall>b\<in>set blocks. length b = block" "length rest < block"
        "st' = foldl compress (compress st (take block bs)) blocks"
      by auto
    have "bs = concat (take block bs # blocks) @ rest" using d append_take_drop_id [of block bs] by simp
    with bl False show ?thesis by (intro exI [of _ "take block bs # blocks"]) simp
  qed
qed

lemma put_append: "length p = n \<Longrightarrow> length q = length e \<Longrightarrow> put (p @ q) n e = p @ e"
  by (simp add: put_def)

locale block_hash =
  fixes compress :: "'s \<Rightarrow> bytes \<Rightarrow> 's"
    and block limit :: nat
    and encode :: "'n::semiring_1 \<Rightarrow> bytes"
  assumes limit: "limit < block" and field: "length (encode n) = block - limit"
begin

text \<open>
  \<open>hashing init h m\<close>: the hasher \<open>h\<close>, started from \<open>init\<close>, has taken the message \<open>m\<close>. Only the first
  \<open>hs_buffer_len\<close> bytes of the buffer count; the others are left over from earlier blocks.
\<close>

definition hashing :: "'s \<Rightarrow> ('s, 'n) hasher \<Rightarrow> bytes \<Rightarrow> bool" where
  "hashing init h m \<longleftrightarrow>
     (\<exists>blocks tail. m = concat blocks @ tail \<and> (\<forall>b\<in>set blocks. length b = block) \<and> length tail < block
       \<and> hs_state h = foldl compress init blocks \<and> hs_buffer_len h = length tail
       \<and> take (length tail) (hs_buffer h) = tail)
     \<and> length (hs_buffer h) = block \<and> hs_length_bytes h = of_nat (length m)"

lemma hashingI:
  "m = concat blocks @ tail \<Longrightarrow> \<forall>b\<in>set blocks. length b = block \<Longrightarrow> length tail < block \<Longrightarrow>
   hs_state h = foldl compress init blocks \<Longrightarrow> hs_buffer_len h = length tail \<Longrightarrow>
   take (length tail) (hs_buffer h) = tail \<Longrightarrow> length (hs_buffer h) = block \<Longrightarrow>
   hs_length_bytes h = of_nat (length m) \<Longrightarrow> hashing init h m"
  unfolding hashing_def by blast

lemma hashing_new:
  "hashing init \<lparr>hs_state = init, hs_length_bytes = 0, hs_buffer = replicate block 0, hs_buffer_len = 0\<rparr> []"
  using limit by (intro hashingI [of _ "[]" "[]"]) simp_all

lemma absorb_rest_hashing:
  assumes h: "hs_state h = foldl compress init blocks" "\<forall>b\<in>set blocks. length b = block"
    "length (hs_buffer h) = block" "hs_length_bytes h = of_nat (length (concat blocks @ bs))"
  shows "hashing init (absorb_rest compress block h bs) (concat blocks @ bs)"
proof -
  obtain st rest where a: "absorb compress block (hs_state h) bs = (st, rest)" by fastforce
  from absorb_blocks [OF a] limit obtain bl where bl: "bs = concat bl @ rest" "\<forall>b\<in>set bl. length b = block"
    "length rest < block" "st = foldl compress (hs_state h) bl" by auto
  have "absorb_rest compress block h bs
    = h\<lparr>hs_state := st, hs_buffer := put (hs_buffer h) 0 rest, hs_buffer_len := length rest\<rparr>"
    by (simp add: absorb_rest_def a)
  with h bl show ?thesis by (simp only:) (intro hashingI [of _ "blocks @ bl" rest], auto simp: put_def)
qed

lemma hashing_update:
  assumes "hashing init h m"
  shows "hashing init (hasher_update compress block h bs) (m @ bs)"
proof -
  from assms obtain blocks tail where m: "m = concat blocks @ tail" "\<forall>b\<in>set blocks. length b = block"
    "length tail < block" "hs_state h = foldl compress init blocks" "hs_buffer_len h = length tail"
    "take (length tail) (hs_buffer h) = tail" and buf: "length (hs_buffer h) = block"
    and len: "hs_length_bytes h = of_nat (length m)" unfolding hashing_def by blast
  let ?h = "h\<lparr>hs_length_bytes := hs_length_bytes h + of_nat (length bs)\<rparr>"
  have len': "hs_length_bytes ?h = of_nat (length (m @ bs))" by (simp add: len)
  show ?thesis
  proof (cases "tail = []")
    case True
    with m have "hasher_update compress block h bs = absorb_rest compress block ?h bs"
      by (simp add: hasher_update_def)
    with absorb_rest_hashing [of ?h init blocks bs] m buf len' True show ?thesis by simp
  next
    case False
    define count where "count = min (block - length tail) (length bs)"
    define buffer where "buffer = put (hs_buffer h) (length tail) (take count bs)"
    have count: "count \<le> length bs" "length tail + count \<le> block" using m(3) by (auto simp: count_def)
    then have buffer: "length buffer = block" "take (length tail + count) buffer = tail @ take count bs"
      using m buf by (auto simp: buffer_def put_def)
    show ?thesis
    proof (cases "length tail + count = block")
      case True
      let ?g = "?h\<lparr>hs_state := compress (hs_state h) buffer, hs_buffer := buffer, hs_buffer_len := 0\<rparr>"
      have upd: "hasher_update compress block h bs
        = (if drop count bs = [] then ?g else absorb_rest compress block ?g (drop count bs))"
        using True False m(5) unfolding hasher_update_def Let_def buffer_def count_def by simp
      have full: "buffer = tail @ take count bs" using buffer True by simp
      then have bs: "m @ bs = concat (blocks @ [buffer]) @ drop count bs" using m by simp
      have glen: "hs_length_bytes ?g = of_nat (length (concat (blocks @ [buffer]) @ drop count bs))"
        unfolding bs [symmetric] by (simp add: len)
      have "hashing init ?g (m @ bs)" if "drop count bs = []"
        using limit that m buffer len' bs by (intro hashingI [of _ "blocks @ [buffer]" "[]"]) auto
      moreover have "hashing init (absorb_rest compress block ?g (drop count bs)) (m @ bs)"
        unfolding bs using m(2,4) buffer(1) by (intro absorb_rest_hashing glen) simp_all
      ultimately show ?thesis unfolding upd by simp
    next
      case part: False
      then have "count = length bs" using count by (auto simp: count_def)
      then have "hasher_update compress block h bs = ?h\<lparr>hs_buffer := buffer, hs_buffer_len := length tail + length bs\<rparr>"
        using False part m(5) unfolding hasher_update_def Let_def buffer_def count_def by simp
      then show ?thesis
        using m buffer len' part count \<open>count = length bs\<close> by (intro hashingI [of _ blocks "tail @ bs"]) auto
    qed
  qed
qed

lemma hashing_pieces: "hashing init h m \<Longrightarrow> hashing init (foldl (hasher_update compress block) h pieces) (m @ concat pieces)"
  by (induction pieces arbitrary: h m) (auto dest: hashing_update simp flip: append_assoc)

lemma finish_blocks:
  assumes buf: "length (hs_buffer h) = block" "hs_buffer_len h = length tail" "length tail < block"
    "take (length tail) (hs_buffer h) = tail"
  shows "hasher_finish compress block limit encode h =
    (let e = encode (hs_length_bytes h * 8)
     in if Suc (length tail) \<le> limit
        then compress (hs_state h) (tail @ [0x80] @ replicate (limit - Suc (length tail)) 0 @ e)
        else compress (compress (hs_state h) (tail @ [0x80] @ replicate (block - Suc (length tail)) 0))
               (replicate limit 0 @ e))"
proof -
  have mark: "take (Suc (length tail)) ((hs_buffer h)[length tail := 0x80]) = tail @ [0x80]"
    using buf by (simp add: take_Suc_conv_app_nth)
  have e: "length (encode (hs_length_bytes h * 8)) = block - limit" by (rule field)
  show ?thesis
  proof (cases "Suc (length tail) \<le> limit")
    case True
    have "hasher_finish compress block limit encode h = compress (hs_state h)
      (put (take (Suc (length tail)) ((hs_buffer h)[length tail := 0x80]) @ replicate (limit - Suc (length tail)) 0
        @ drop limit ((hs_buffer h)[length tail := 0x80])) limit (encode (hs_length_bytes h * 8)))"
      using True buf(2) by (simp add: hasher_finish_def Let_def)
    also have "\<dots> = compress (hs_state h) (put ((tail @ [0x80] @ replicate (limit - Suc (length tail)) 0)
        @ drop limit ((hs_buffer h)[length tail := 0x80])) limit (encode (hs_length_bytes h * 8)))"
      unfolding mark by simp
    also have "\<dots> = compress (hs_state h)
        ((tail @ [0x80] @ replicate (limit - Suc (length tail)) 0) @ encode (hs_length_bytes h * 8))"
      using True e limit buf(1) by (subst put_append) simp_all
    finally show ?thesis using True by (simp add: Let_def)
  next
    case False
    then have "hasher_finish compress block limit encode h =
      compress (compress (hs_state h) (take (Suc (length tail)) ((hs_buffer h)[length tail := 0x80]) @ replicate (block - Suc (length tail)) 0))
        (put (replicate limit 0 @ drop limit (take (Suc (length tail)) ((hs_buffer h)[length tail := 0x80]) @ replicate (block - Suc (length tail)) 0))
          limit (encode (hs_length_bytes h * 8)))"
      using buf(2) by (simp add: hasher_finish_def Let_def)
    with False e limit buf(1,3) show ?thesis unfolding mark by (simp add: put_def Let_def)
  qed
qed

lemma hashing_finish:
  assumes "hashing init h m"
  shows "hasher_finish compress block limit encode h = md_hash compress block limit encode init m"
proof -
  from assms obtain blocks tail where m: "m = concat blocks @ tail" "\<forall>b\<in>set blocks. length b = block"
    "length tail < block" "hs_state h = foldl compress init blocks" "hs_buffer_len h = length tail"
    "take (length tail) (hs_buffer h) = tail" and buf: "length (hs_buffer h) = block"
    and len: "hs_length_bytes h = of_nat (length m)" unfolding hashing_def by blast
  define e where "e = encode (of_nat (length m) * 8)"
  have elen: "length e = block - limit" by (simp add: e_def field)
  have used: "Suc (length m) mod block = Suc (length tail) mod block"
    using m(1,2) length_concat_blocks [of blocks block] by (simp flip: add_Suc_right)
  have one: "chunks block xs = [xs]" if "length xs = block" for xs
    using chunks_blocks [of block "[xs]" "[]"] that limit by simp
  have two: "chunks block (xs @ ys) = [xs, ys]" if "length xs = block" "length ys = block" for xs ys
    using chunks_blocks [of block "[xs, ys]" "[]"] that limit by simp
  have padded: "md_pad block limit encode m = concat blocks @ tail @ [0x80]
      @ replicate (let used = Suc (length tail) mod block in
          if used \<le> limit then limit - used else block - used + limit) 0 @ e"
    by (simp add: md_pad_def Let_def used flip: e_def) (simp add: m(1))
  have pad: "chunks block (md_pad block limit encode m) = blocks @
    (if Suc (length tail) \<le> limit then [tail @ [0x80] @ replicate (limit - Suc (length tail)) 0 @ e]
     else [tail @ [0x80] @ replicate (block - Suc (length tail)) 0, replicate limit 0 @ e])"
  proof (cases "Suc (length tail) \<le> limit")
    case True
    then have "md_pad block limit encode m = concat blocks @ (tail @ [0x80] @ replicate (limit - Suc (length tail)) 0 @ e)"
      using limit by (simp add: padded Let_def)
    then show ?thesis using True limit elen chunks_blocks [OF _ m(2)] by (simp add: one)
  next
    case False
    have "replicate (block + limit - Suc (length tail)) (0::8 word)
      = replicate (block - Suc (length tail)) 0 @ replicate limit 0"
      using m(3) by (simp flip: replicate_add)
    with False have "md_pad block limit encode m = concat blocks
      @ ((tail @ [0x80] @ replicate (block - Suc (length tail)) 0) @ (replicate limit 0 @ e))"
      using m(3) limit by (cases "Suc (length tail) = block")
        (simp_all add: padded Let_def)
    moreover have "chunks block ((tail @ [0x80] @ replicate (block - Suc (length tail)) 0) @ (replicate limit 0 @ e))
      = [tail @ [0x80] @ replicate (block - Suc (length tail)) 0, replicate limit 0 @ e]"
      using limit elen m(3) by (intro two) simp_all
    ultimately show ?thesis using False limit by (simp add: chunks_blocks [OF _ m(2)])
  qed
  show ?thesis
    by (simp add: finish_blocks [OF buf m(5,3,6)] md_hash_def pad m(4) len Let_def flip: e_def)
qed

text \<open>Hashing in pieces of any lengths is hashing the padded message.\<close>

lemma hash_pieces:
  "hasher_finish compress block limit encode
     (foldl (hasher_update compress block)
       \<lparr>hs_state = init, hs_length_bytes = 0, hs_buffer = replicate block 0, hs_buffer_len = 0\<rparr> pieces)
   = md_hash compress block limit encode init (concat pieces)"
  using hashing_finish [OF hashing_pieces [OF hashing_new]] by simp

end

end
