(* ===== verification/Hash.thy ===== *)
theory Hash imports Hash_Stream begin

unbundle bit_operations_syntax

text \<open>
  SHA-1, SHA-256, SHA-384 and SHA-512 (\<^verbatim>\<open>crypto/hash.rs\<close>): the compression functions as the source
  writes them, the hashers over them, and the definitions of FIPS 180-4 they are compared with.
\<close>

section \<open>SHA-256\<close>

datatype 'w regs8 = Regs8 'w 'w 'w 'w 'w 'w 'w 'w

fun regs8_list :: "'w regs8 \<Rightarrow> 'w list" where
  "regs8_list (Regs8 a b c d e f g h) = [a, b, c, d, e, f, g, h]"

fun regs8_add :: "'w::plus regs8 \<Rightarrow> 'w regs8 \<Rightarrow> 'w regs8" where
  "regs8_add (Regs8 a b c d e f g h) (Regs8 a' b' c' d' e' f' g' h') =
     Regs8 (a + a') (b + b') (c + c') (d + d') (e + e') (f + f') (g + g') (h + h')"

definition SHA256_BLOCK_SIZE :: nat where "SHA256_BLOCK_SIZE = 64"
definition SHA512_BLOCK_SIZE :: nat where "SHA512_BLOCK_SIZE = 128"

definition sha256_K :: "u32 list" where
  "sha256_K = concat
       [[0x428a2f98, 0x71374491, 0xb5c0fbcf, 0xe9b5dba5, 0x3956c25b, 0x59f111f1, 0x923f82a4],
        [0xab1c5ed5, 0xd807aa98, 0x12835b01, 0x243185be, 0x550c7dc3, 0x72be5d74, 0x80deb1fe],
        [0x9bdc06a7, 0xc19bf174, 0xe49b69c1, 0xefbe4786, 0x0fc19dc6, 0x240ca1cc, 0x2de92c6f],
        [0x4a7484aa, 0x5cb0a9dc, 0x76f988da, 0x983e5152, 0xa831c66d, 0xb00327c8, 0xbf597fc7],
        [0xc6e00bf3, 0xd5a79147, 0x06ca6351, 0x14292967, 0x27b70a85, 0x2e1b2138, 0x4d2c6dfc],
        [0x53380d13, 0x650a7354, 0x766a0abb, 0x81c2c92e, 0x92722c85, 0xa2bfe8a1, 0xa81a664b],
        [0xc24b8b70, 0xc76c51a3, 0xd192e819, 0xd6990624, 0xf40e3585, 0x106aa070, 0x19a4c116],
        [0x1e376c08, 0x2748774c, 0x34b0bcb5, 0x391c0cb3, 0x4ed8aa4a, 0x5b9cca4f, 0x682e6ff3],
        [0x748f82ee, 0x78a5636f, 0x84c87814, 0x8cc70208, 0x90befffa, 0xa4506ceb, 0xbef9a3f7],
        [0xc67178f2]]"

fun sha256_round :: "u32 \<Rightarrow> u32 \<Rightarrow> u32 regs8 \<Rightarrow> u32 regs8" where
  "sha256_round k word (Regs8 a b c d e f g h) =
     (let s1 = word_rotr 6 e XOR word_rotr 11 e XOR word_rotr 25 e;
          choice = (e AND f) XOR (NOT e AND g);
          temp1 = h + s1 + choice + k + word;
          s0 = word_rotr 2 a XOR word_rotr 13 a XOR word_rotr 22 a;
          majority = (a AND b) XOR (a AND c) XOR (b AND c);
          temp2 = s0 + majority
      in Regs8 (temp1 + temp2) a b c (d + temp1) e f g)"

definition sha256_word :: "u32 list \<Rightarrow> nat \<Rightarrow> nat \<Rightarrow> nat \<Rightarrow> nat \<Rightarrow> u32" where
  "sha256_word words slot w15_slot w2_slot w7_slot =
     (let w15 = words ! w15_slot;
          w2 = words ! w2_slot;
          s0 = word_rotr 7 w15 XOR word_rotr 18 w15 XOR drop_bit 3 w15;
          s1 = word_rotr 17 w2 XOR word_rotr 19 w2 XOR drop_bit 10 w2
      in words ! slot + s0 + words ! w7_slot + s1)"

fun sha256_schedule_round ::
    "u32 list \<times> u32 regs8 \<Rightarrow> nat \<times> nat \<times> nat \<times> nat \<times> nat \<Rightarrow> u32 list \<times> u32 regs8" where
  "sha256_schedule_round (words, regs) (index, slot, w15_slot, w2_slot, w7_slot) =
     (let word = sha256_word words slot w15_slot w2_slot w7_slot
      in (words[slot := word], sha256_round (sha256_K ! index) word regs))"

definition sha256_schedule :: "(nat \<times> nat \<times> nat \<times> nat \<times> nat) list" where
  "sha256_schedule =
     [(16, 0, 1, 14, 9), (17, 1, 2, 15, 10), (18, 2, 3, 0, 11), (19, 3, 4, 1, 12),
      (20, 4, 5, 2, 13), (21, 5, 6, 3, 14), (22, 6, 7, 4, 15), (23, 7, 8, 5, 0),
      (24, 8, 9, 6, 1), (25, 9, 10, 7, 2), (26, 10, 11, 8, 3), (27, 11, 12, 9, 4),
      (28, 12, 13, 10, 5), (29, 13, 14, 11, 6), (30, 14, 15, 12, 7), (31, 15, 0, 13, 8),
      (32, 0, 1, 14, 9), (33, 1, 2, 15, 10), (34, 2, 3, 0, 11), (35, 3, 4, 1, 12),
      (36, 4, 5, 2, 13), (37, 5, 6, 3, 14), (38, 6, 7, 4, 15), (39, 7, 8, 5, 0),
      (40, 8, 9, 6, 1), (41, 9, 10, 7, 2), (42, 10, 11, 8, 3), (43, 11, 12, 9, 4),
      (44, 12, 13, 10, 5), (45, 13, 14, 11, 6), (46, 14, 15, 12, 7), (47, 15, 0, 13, 8),
      (48, 0, 1, 14, 9), (49, 1, 2, 15, 10), (50, 2, 3, 0, 11), (51, 3, 4, 1, 12),
      (52, 4, 5, 2, 13), (53, 5, 6, 3, 14), (54, 6, 7, 4, 15), (55, 7, 8, 5, 0),
      (56, 8, 9, 6, 1), (57, 9, 10, 7, 2), (58, 10, 11, 8, 3), (59, 11, 12, 9, 4),
      (60, 12, 13, 10, 5), (61, 13, 14, 11, 6), (62, 14, 15, 12, 7)]"

definition block_words32 :: "bytes \<Rightarrow> u32 list" where
  "block_words32 block = map (\<lambda>index. from_be32 (subslice block (index * 4) (index * 4 + 4))) [0..<16]"

definition sha256_compress :: "u32 regs8 \<Rightarrow> bytes \<Rightarrow> u32 regs8" where
  "sha256_compress state block =
     (let words = block_words32 block;
          regs = foldl (\<lambda>regs index. sha256_round (sha256_K ! index) (words ! index) regs) state [0..<16];
          (words, regs) = foldl sha256_schedule_round (words, regs) sha256_schedule;
          word = sha256_word words 15 0 13 8
      in regs8_add state (sha256_round (sha256_K ! 63) word regs))"

type_synonym Sha256 = "(u32 regs8, u64) hasher"

definition Sha256_with_initial_state :: "u32 regs8 \<Rightarrow> Sha256" where
  "Sha256_with_initial_state st =
     \<lparr>hs_state = st, hs_length_bytes = 0, hs_buffer = replicate SHA256_BLOCK_SIZE 0, hs_buffer_len = 0\<rparr>"

definition Sha256_new :: Sha256 where
  "Sha256_new =
     \<lparr>hs_state = Regs8 0x6a09e667 0xbb67ae85 0x3c6ef372 0xa54ff53a 0x510e527f 0x9b05688c 0x1f83d9ab 0x5be0cd19,
      hs_length_bytes = 0, hs_buffer = replicate SHA256_BLOCK_SIZE 0, hs_buffer_len = 0\<rparr>"

definition Sha256_update :: "Sha256 \<Rightarrow> bytes \<Rightarrow> Sha256" where
  "Sha256_update = hasher_update sha256_compress SHA256_BLOCK_SIZE"

definition Sha256_finish :: "Sha256 \<Rightarrow> bytes" where
  "Sha256_finish h = concat (map be32 (regs8_list (hasher_finish sha256_compress SHA256_BLOCK_SIZE 56 be64 h)))"

section \<open>SHA-1\<close>

datatype regs5 = Regs5 u32 u32 u32 u32 u32

fun regs5_list :: "regs5 \<Rightarrow> u32 list" where
  "regs5_list (Regs5 a b c d e) = [a, b, c, d, e]"

fun regs5_add :: "regs5 \<Rightarrow> regs5 \<Rightarrow> regs5" where
  "regs5_add (Regs5 a b c d e) (Regs5 a' b' c' d' e') = Regs5 (a + a') (b + b') (c + c') (d + d') (e + e')"

text \<open>The word of a round, with the window it leaves.\<close>

definition sha1_word :: "u32 list \<Rightarrow> nat \<Rightarrow> u32 list \<times> u32" where
  "sha1_word words index =
     (if index < 16 then (words, words ! index)
      else
        let slot = index mod 16;
            v = word_rotl 1 (words ! ((index - 3) mod 16) XOR words ! ((index - 8) mod 16)
                  XOR words ! ((index - 14) mod 16) XOR words ! slot)
        in (words[slot := v], v))"

definition sha1_fk :: "nat \<Rightarrow> u32 \<Rightarrow> u32 \<Rightarrow> u32 \<Rightarrow> u32 \<times> u32" where
  "sha1_fk index b c d =
     (if index \<le> 19 then ((b AND c) OR (NOT b AND d), 0x5a827999)
      else if index \<le> 39 then (b XOR c XOR d, 0x6ed9eba1)
      else if index \<le> 59 then ((b AND c) OR (b AND d) OR (c AND d), 0x8f1bbcdc)
      else (b XOR c XOR d, 0xca62c1d6))"

fun sha1_round :: "nat \<Rightarrow> u32 \<Rightarrow> regs5 \<Rightarrow> regs5" where
  "sha1_round index word (Regs5 a b c d e) =
     (let (f, k) = sha1_fk index b c d;
          temp = word_rotl 5 a + f + e + k + word
      in Regs5 temp a (word_rotl 30 b) c d)"

fun sha1_step :: "u32 list \<times> regs5 \<Rightarrow> nat \<Rightarrow> u32 list \<times> regs5" where
  "sha1_step (words, regs) index =
     (let (words, word) = sha1_word words index in (words, sha1_round index word regs))"

definition sha1_compress :: "regs5 \<Rightarrow> bytes \<Rightarrow> regs5" where
  "sha1_compress state block = regs5_add state (snd (foldl sha1_step (block_words32 block, state) [0..<80]))"

type_synonym Sha1 = "(regs5, u64) hasher"

definition Sha1_new :: Sha1 where
  "Sha1_new =
     \<lparr>hs_state = Regs5 0x67452301 0xefcdab89 0x98badcfe 0x10325476 0xc3d2e1f0,
      hs_length_bytes = 0, hs_buffer = replicate SHA256_BLOCK_SIZE 0, hs_buffer_len = 0\<rparr>"

definition Sha1_update :: "Sha1 \<Rightarrow> bytes \<Rightarrow> Sha1" where
  "Sha1_update = hasher_update sha1_compress SHA256_BLOCK_SIZE"

definition Sha1_finish :: "Sha1 \<Rightarrow> bytes" where
  "Sha1_finish h = concat (map be32 (regs5_list (hasher_finish sha1_compress SHA256_BLOCK_SIZE 56 be64 h)))"

section \<open>SHA-512 and SHA-384\<close>

definition sha512_K :: "u64 list" where
  "sha512_K = concat
       [[0x428a2f98d728ae22, 0x7137449123ef65cd, 0xb5c0fbcfec4d3b2f, 0xe9b5dba58189dbbc],
        [0x3956c25bf348b538, 0x59f111f1b605d019, 0x923f82a4af194f9b, 0xab1c5ed5da6d8118],
        [0xd807aa98a3030242, 0x12835b0145706fbe, 0x243185be4ee4b28c, 0x550c7dc3d5ffb4e2],
        [0x72be5d74f27b896f, 0x80deb1fe3b1696b1, 0x9bdc06a725c71235, 0xc19bf174cf692694],
        [0xe49b69c19ef14ad2, 0xefbe4786384f25e3, 0x0fc19dc68b8cd5b5, 0x240ca1cc77ac9c65],
        [0x2de92c6f592b0275, 0x4a7484aa6ea6e483, 0x5cb0a9dcbd41fbd4, 0x76f988da831153b5],
        [0x983e5152ee66dfab, 0xa831c66d2db43210, 0xb00327c898fb213f, 0xbf597fc7beef0ee4],
        [0xc6e00bf33da88fc2, 0xd5a79147930aa725, 0x06ca6351e003826f, 0x142929670a0e6e70],
        [0x27b70a8546d22ffc, 0x2e1b21385c26c926, 0x4d2c6dfc5ac42aed, 0x53380d139d95b3df],
        [0x650a73548baf63de, 0x766a0abb3c77b2a8, 0x81c2c92e47edaee6, 0x92722c851482353b],
        [0xa2bfe8a14cf10364, 0xa81a664bbc423001, 0xc24b8b70d0f89791, 0xc76c51a30654be30],
        [0xd192e819d6ef5218, 0xd69906245565a910, 0xf40e35855771202a, 0x106aa07032bbd1b8],
        [0x19a4c116b8d2d0c8, 0x1e376c085141ab53, 0x2748774cdf8eeb99, 0x34b0bcb5e19b48a8],
        [0x391c0cb3c5c95a63, 0x4ed8aa4ae3418acb, 0x5b9cca4f7763e373, 0x682e6ff3d6b2b8a3],
        [0x748f82ee5defb2fc, 0x78a5636f43172f60, 0x84c87814a1f0ab72, 0x8cc702081a6439ec],
        [0x90befffa23631e28, 0xa4506cebde82bde9, 0xbef9a3f7b2c67915, 0xc67178f2e372532b],
        [0xca273eceea26619c, 0xd186b8c721c0c207, 0xeada7dd6cde0eb1e, 0xf57d4f7fee6ed178],
        [0x06f067aa72176fba, 0x0a637dc5a2c898a6, 0x113f9804bef90dae, 0x1b710b35131c471b],
        [0x28db77f523047d84, 0x32caab7b40c72493, 0x3c9ebe0a15c9bebc, 0x431d67c49c100d4c],
        [0x4cc5d4becb3e42b6, 0x597f299cfc657e2a, 0x5fcb6fab3ad6faec, 0x6c44198c4a475817]]"

definition block_words64 :: "bytes \<Rightarrow> u64 list" where
  "block_words64 block = map (\<lambda>index. from_be64 (subslice block (index * 8) (index * 8 + 8))) [0..<16]"

definition sha512_expand :: "u64 list \<Rightarrow> nat \<Rightarrow> u64 list" where
  "sha512_expand words index =
     (let w15 = words ! (index - 15);
          w2 = words ! (index - 2);
          s0 = word_rotr 1 w15 XOR word_rotr 8 w15 XOR drop_bit 7 w15;
          s1 = word_rotr 19 w2 XOR word_rotr 61 w2 XOR drop_bit 6 w2
      in words[index := words ! (index - 16) + s0 + words ! (index - 7) + s1])"

fun sha512_round :: "u64 \<Rightarrow> u64 \<Rightarrow> u64 regs8 \<Rightarrow> u64 regs8" where
  "sha512_round k word (Regs8 a b c d e f g h) =
     (let s1 = word_rotr 14 e XOR word_rotr 18 e XOR word_rotr 41 e;
          choice = (e AND f) XOR (NOT e AND g);
          temp1 = h + s1 + choice + k + word;
          s0 = word_rotr 28 a XOR word_rotr 34 a XOR word_rotr 39 a;
          majority = (a AND b) XOR (a AND c) XOR (b AND c);
          temp2 = s0 + majority
      in Regs8 (temp1 + temp2) a b c (d + temp1) e f g)"

definition sha512_compress :: "u64 regs8 \<Rightarrow> bytes \<Rightarrow> u64 regs8" where
  "sha512_compress state block =
     (let words = foldl sha512_expand (block_words64 block @ replicate 64 0) [16..<80];
          regs = foldl (\<lambda>regs index. sha512_round (sha512_K ! index) (words ! index) regs) state [0..<80]
      in regs8_add state regs)"

type_synonym Sha512 = "(u64 regs8, 128 word) hasher"

definition Sha512_with_initial_state :: "u64 regs8 \<Rightarrow> Sha512" where
  "Sha512_with_initial_state st =
     \<lparr>hs_state = st, hs_length_bytes = 0, hs_buffer = replicate SHA512_BLOCK_SIZE 0, hs_buffer_len = 0\<rparr>"

definition Sha512_new :: Sha512 where
  "Sha512_new = Sha512_with_initial_state (Regs8
     0x6a09e667f3bcc908 0xbb67ae8584caa73b 0x3c6ef372fe94f82b 0xa54ff53a5f1d36f1 0x510e527fade682d1 0x9b05688c2b3e6c1f 0x1f83d9abfb41bd6b 0x5be0cd19137e2179)"

definition Sha512_sha384 :: Sha512 where
  "Sha512_sha384 = Sha512_with_initial_state (Regs8
     0xcbbb9d5dc1059ed8 0x629a292a367cd507 0x9159015a3070dd17 0x152fecd8f70e5939 0x67332667ffc00b31 0x8eb44a8768581511 0xdb0c2e0d64f98fa7 0x47b5481dbefa4fa4)"

definition Sha512_update :: "Sha512 \<Rightarrow> bytes \<Rightarrow> Sha512" where
  "Sha512_update = hasher_update sha512_compress SHA512_BLOCK_SIZE"

definition Sha512_finish :: "Sha512 \<Rightarrow> bytes" where
  "Sha512_finish h =
     concat (map be64 (regs8_list (hasher_finish sha512_compress SHA512_BLOCK_SIZE 112 (be_bytes 16) h)))"

section \<open>One-shot digests\<close>

definition sha1 :: "bytes \<Rightarrow> bytes" where
  "sha1 bs = Sha1_finish (Sha1_update Sha1_new bs)"

definition sha256 :: "bytes \<Rightarrow> bytes" where
  "sha256 bs = Sha256_finish (Sha256_update Sha256_new bs)"

definition sha512 :: "bytes \<Rightarrow> bytes" where
  "sha512 bs = Sha512_finish (Sha512_update Sha512_new bs)"

definition sha384 :: "bytes \<Rightarrow> bytes" where
  "sha384 bs = take 48 (Sha512_finish (Sha512_update Sha512_sha384 bs))"

section \<open>FIPS 180-4\<close>

definition Ch :: "'a::len word \<Rightarrow> 'a word \<Rightarrow> 'a word \<Rightarrow> 'a word" where
  "Ch x y z = (x AND y) XOR (NOT x AND z)"

definition Parity :: "'a::len word \<Rightarrow> 'a word \<Rightarrow> 'a word \<Rightarrow> 'a word" where
  "Parity x y z = x XOR y XOR z"

definition Maj :: "'a::len word \<Rightarrow> 'a word \<Rightarrow> 'a word \<Rightarrow> 'a word" where
  "Maj x y z = (x AND y) XOR (x AND z) XOR (y AND z)"

text \<open>The message schedules, as the recurrences the standard gives.\<close>

fun fips1_W :: "u32 list \<Rightarrow> nat \<Rightarrow> u32" where
  "fips1_W M t =
     (if t < 16 then M ! t
      else word_rotl 1 (fips1_W M (t - 3) XOR fips1_W M (t - 8) XOR fips1_W M (t - 14) XOR fips1_W M (t - 16)))"

fun fips256_W :: "u32 list \<Rightarrow> nat \<Rightarrow> u32" where
  "fips256_W M t =
     (if t < 16 then M ! t
      else (let x = fips256_W M (t - 2) in word_rotr 17 x XOR word_rotr 19 x XOR drop_bit 10 x)
             + fips256_W M (t - 7)
             + (let x = fips256_W M (t - 15) in word_rotr 7 x XOR word_rotr 18 x XOR drop_bit 3 x)
             + fips256_W M (t - 16))"

fun fips512_W :: "u64 list \<Rightarrow> nat \<Rightarrow> u64" where
  "fips512_W M t =
     (if t < 16 then M ! t
      else (let x = fips512_W M (t - 2) in word_rotr 19 x XOR word_rotr 61 x XOR drop_bit 6 x)
             + fips512_W M (t - 7)
             + (let x = fips512_W M (t - 15) in word_rotr 1 x XOR word_rotr 8 x XOR drop_bit 7 x)
             + fips512_W M (t - 16))"

declare fips1_W.simps [simp del] fips256_W.simps [simp del] fips512_W.simps [simp del]

fun fips1_round :: "nat \<Rightarrow> u32 \<Rightarrow> regs5 \<Rightarrow> regs5" where
  "fips1_round t W (Regs5 a b c d e) =
     (let f = (if t < 20 then Ch b c d else if t < 40 then Parity b c d else if t < 60 then Maj b c d else Parity b c d);
          K = (if t < 20 then 0x5a827999 else if t < 40 then 0x6ed9eba1 else if t < 60 then 0x8f1bbcdc else 0xca62c1d6)
      in Regs5 (word_rotl 5 a + f + e + K + W) a (word_rotl 30 b) c d)"

definition big_sigma :: "nat \<Rightarrow> nat \<Rightarrow> nat \<Rightarrow> 'a::len word \<Rightarrow> 'a word" where
  "big_sigma i j k x = word_rotr i x XOR word_rotr j x XOR word_rotr k x"

fun fips2_round ::
    "('a::len word \<Rightarrow> 'a word) \<Rightarrow> ('a word \<Rightarrow> 'a word) \<Rightarrow> 'a word \<Rightarrow> 'a word \<Rightarrow> 'a word regs8 \<Rightarrow> 'a word regs8" where
  "fips2_round S0 S1 K W (Regs8 a b c d e f g h) =
     (let T1 = h + S1 e + Ch e f g + K + W; T2 = S0 a + Maj a b c in Regs8 (T1 + T2) a b c (d + T1) e f g)"

definition fips1_compress :: "regs5 \<Rightarrow> bytes \<Rightarrow> regs5" where
  "fips1_compress H block =
     (let M = map from_be32 (chunks 4 block)
      in regs5_add H (foldl (\<lambda>r t. fips1_round t (fips1_W M t) r) H [0..<80]))"

definition fips256_compress :: "u32 regs8 \<Rightarrow> bytes \<Rightarrow> u32 regs8" where
  "fips256_compress H block =
     (let M = map from_be32 (chunks 4 block)
      in regs8_add H (foldl (\<lambda>r t. fips2_round (big_sigma 2 13 22) (big_sigma 6 11 25) (sha256_K ! t) (fips256_W M t) r)
           H [0..<64]))"

definition fips512_compress :: "u64 regs8 \<Rightarrow> bytes \<Rightarrow> u64 regs8" where
  "fips512_compress H block =
     (let M = map from_be64 (chunks 8 block)
      in regs8_add H (foldl (\<lambda>r t. fips2_round (big_sigma 28 34 39) (big_sigma 14 18 41) (sha512_K ! t) (fips512_W M t) r)
           H [0..<80]))"

text \<open>The digests: the padded message, in blocks, through the compression function.\<close>

definition fips_sha1 :: "bytes \<Rightarrow> bytes" where
  "fips_sha1 m = concat (map be32 (regs5_list (md_hash fips1_compress 64 56 be64
     (Regs5 0x67452301 0xefcdab89 0x98badcfe 0x10325476 0xc3d2e1f0) m)))"

definition fips_sha256 :: "bytes \<Rightarrow> bytes" where
  "fips_sha256 m = concat (map be32 (regs8_list (md_hash fips256_compress 64 56 be64 (hs_state Sha256_new) m)))"

definition fips_sha512_from :: "u64 regs8 \<Rightarrow> bytes \<Rightarrow> bytes" where
  "fips_sha512_from H m = concat (map be64 (regs8_list (md_hash fips512_compress 128 112
     (be_bytes 16 :: 128 word \<Rightarrow> bytes) H m)))"

section \<open>The compression functions are the standard's\<close>

lemma chunks_words:
  "length block = k * n \<Longrightarrow> 0 < k \<Longrightarrow> chunks k block = map (\<lambda>i. subslice block (i * k) (i * k + k)) [0..<n]"
proof (induction n arbitrary: block)
  case (Suc n)
  then have "chunks k (drop k block) = map (\<lambda>i. subslice (drop k block) (i * k) (i * k + k)) [0..<n]" by simp
  moreover have "chunks k block = take k block # chunks k (drop k block)"
    using Suc.prems by (intro chunks_step) auto
  ultimately show ?case
    by (simp add: slice_drop upt_conv_Cons map_Suc_upt [symmetric] del: upt_Suc)
       (simp add: subslice_def add.commute add.left_commute)
qed simp

lemma block_words32: "length block = 64 \<Longrightarrow> block_words32 block = map from_be32 (chunks 4 block)"
  using chunks_words [of block 4 16] by (simp add: block_words32_def)

lemma block_words64: "length block = 128 \<Longrightarrow> block_words64 block = map from_be64 (chunks 8 block)"
  using chunks_words [of block 8 16] by (simp add: block_words64_def)

text \<open>
  A window of sixteen words that is overwritten in place: when \<open>t\<close> words have been overwritten it holds
  the words \<open>t\<close> to \<open>t + 15\<close> of the schedule, each at its index modulo sixteen.
\<close>

definition window :: "'w list \<Rightarrow> (nat \<Rightarrow> 'w) \<Rightarrow> nat \<Rightarrow> bool" where
  "window ws W t \<longleftrightarrow> length ws = 16 \<and> (\<forall>j<16. ws ! ((t + j) mod 16) = W (t + j))"

lemma window_at: "window ws W t \<Longrightarrow> j < 16 \<Longrightarrow> ws ! ((t + j) mod 16) = W (t + j)"
  by (simp add: window_def)

lemma window_step:
  assumes "window ws W t"
  shows "window (ws[t mod 16 := W (t + 16)]) W (Suc t)"
proof -
  have "ws[t mod 16 := W (t + 16)] ! ((Suc t + j) mod 16) = W (Suc t + j)" if "j < 16" for j
  proof (cases "j = 15")
    case True
    with assms show ?thesis by (simp add: window_def add.commute)
  next
    case False
    have "(Suc t + j) mod 16 \<noteq> t mod 16"
    proof
      assume "(Suc t + j) mod 16 = t mod 16"
      then have "16 dvd Suc j" using mod_eq_dvd_iff_nat [of t "Suc t + j" 16] by simp
      with that False show False by (auto dest: dvd_imp_le)
    qed
    moreover have "ws ! ((t + Suc j) mod 16) = W (t + Suc j)" using that False by (intro window_at [OF assms]) simp
    ultimately show ?thesis using assms by simp
  qed
  with assms show ?thesis by (simp add: window_def)
qed

lemma sha256_round_fips: "sha256_round = fips2_round (big_sigma 2 13 22) (big_sigma 6 11 25)"
proof (intro ext)
  fix k w regs
  show "sha256_round k w regs = fips2_round (big_sigma 2 13 22) (big_sigma 6 11 25) k w regs"
    by (cases regs) (simp add: big_sigma_def Ch_def Maj_def Let_def)
qed

lemma sha512_round_fips: "sha512_round = fips2_round (big_sigma 28 34 39) (big_sigma 14 18 41)"
proof (intro ext)
  fix k w regs
  show "sha512_round k w regs = fips2_round (big_sigma 28 34 39) (big_sigma 14 18 41) k w regs"
    by (cases regs) (simp add: big_sigma_def Ch_def Maj_def Let_def)
qed

lemma Ch_or: "(x AND y) OR (NOT x AND z) = Ch x y z"
  unfolding Ch_def by (auto simp: bit_eq_iff bit_simps)

lemma Maj_or: "(x AND y) OR (x AND z) OR (y AND z) = Maj x y z"
  unfolding Maj_def by (auto simp: bit_eq_iff bit_simps)

lemma sha1_round_fips: "sha1_round = fips1_round"
proof (intro ext)
  fix t w regs
  show "sha1_round t w regs = fips1_round t w regs"
    by (cases regs) (simp add: sha1_fk_def Ch_or Maj_or Parity_def Let_def less_eq_Suc_le)
qed

lemma fips_schedule_step:
  "fips1_W M (t + 16) = word_rotl 1 (fips1_W M (t + 13) XOR fips1_W M (t + 8) XOR fips1_W M (t + 2) XOR fips1_W M t)"
  "fips256_W M (t + 16) = (let x = fips256_W M (t + 14) in word_rotr 17 x XOR word_rotr 19 x XOR drop_bit 10 x)
     + fips256_W M (t + 9)
     + (let x = fips256_W M (t + 1) in word_rotr 7 x XOR word_rotr 18 x XOR drop_bit 3 x) + fips256_W M t"
  "fips512_W N (t + 16) = (let x = fips512_W N (t + 14) in word_rotr 19 x XOR word_rotr 61 x XOR drop_bit 6 x)
     + fips512_W N (t + 9)
     + (let x = fips512_W N (t + 1) in word_rotr 1 x XOR word_rotr 8 x XOR drop_bit 7 x) + fips512_W N t"
  by (simp_all add: fips1_W.simps [of M "t + 16"] fips256_W.simps [of M "t + 16"] fips512_W.simps [of N "t + 16"] add.commute)

lemma sha256_word_fips:
  assumes "window ws (fips256_W M) t"
  shows "sha256_word ws (t mod 16) ((t + 1) mod 16) ((t + 14) mod 16) ((t + 9) mod 16) = fips256_W M (t + 16)"
  using window_at [OF assms, of 0] window_at [OF assms, of 1] window_at [OF assms, of 14] window_at [OF assms, of 9]
  unfolding sha256_word_def fips_schedule_step(2) Let_def by (simp add: algebra_simps)

lemma sha256_schedule_formula:
  "sha256_schedule = map (\<lambda>t. (t + 16, t mod 16, (t + 1) mod 16, (t + 14) mod 16, (t + 9) mod 16)) [0..<47]"
  by code_simp

lemma upt_next: "[16..<Suc n + 16] = [16..<n + 16] @ [n + 16]"
  by (simp only: add_Suc upt_Suc_append le_add2)

lemma sha256_rolling:
  assumes "window ws (fips256_W M) 0"
  shows "\<exists>ws'. foldl sha256_schedule_round (ws, regs)
        (map (\<lambda>t. (t + 16, t mod 16, (t + 1) mod 16, (t + 14) mod 16, (t + 9) mod 16)) [0..<n])
      = (ws', foldl (\<lambda>r t. sha256_round (sha256_K ! t) (fips256_W M t) r) regs [16..<n + 16])
      \<and> window ws' (fips256_W M) n"
proof (induction n)
  case 0
  with assms show ?case by simp
next
  case (Suc n)
  then obtain ws' where "window ws' (fips256_W M) n"
    "foldl sha256_schedule_round (ws, regs)
        (map (\<lambda>t. (t + 16, t mod 16, (t + 1) mod 16, (t + 14) mod 16, (t + 9) mod 16)) [0..<n])
      = (ws', foldl (\<lambda>r t. sha256_round (sha256_K ! t) (fips256_W M t) r) regs [16..<n + 16])" by blast
  moreover note upt_next [of n]
  ultimately show ?case
    using window_step [of ws' "fips256_W M" n] sha256_word_fips [of ws' M n] by (simp add: Let_def del: add_Suc)
qed

lemma window_start: "length ws = 16 \<Longrightarrow> (\<And>j. j < 16 \<Longrightarrow> W j = ws ! j) \<Longrightarrow> window ws W 0"
  by (simp add: window_def)

lemma foldl_cong_upt: "(\<And>r t. m \<le> t \<Longrightarrow> t < n \<Longrightarrow> f r t = g r t) \<Longrightarrow> foldl f r [m..<n] = foldl g r [m..<n]"
  by (rule foldl_cong) auto

lemma sha256_compress_fips:
  assumes "length block = 64"
  shows "sha256_compress H block = fips256_compress H block"
proof -
  define M where "M = block_words32 block"
  let ?step = "\<lambda>r t. sha256_round (sha256_K ! t) (fips256_W M t) r"
  have M: "length M = 16" by (simp add: M_def block_words32_def)
  have first: "fips256_W M t = M ! t" if "t < 16" for t using that by (simp add: fips256_W.simps [of M t])
  then have start: "window M (fips256_W M) 0" using M by (intro window_start) simp_all
  have head: "foldl (\<lambda>regs t. sha256_round (sha256_K ! t) (M ! t) regs) H [0..<16] = foldl ?step H [0..<16]"
    by (rule foldl_cong_upt) (simp add: first)
  obtain ws where roll: "foldl sha256_schedule_round (M, foldl ?step H [0..<16]) sha256_schedule
      = (ws, foldl ?step (foldl ?step H [0..<16]) [16..<63])" and win: "window ws (fips256_W M) 47"
    using sha256_rolling [OF start, of "foldl ?step H [0..<16]" 47] unfolding sha256_schedule_formula by auto
  have last: "sha256_word ws 15 0 13 8 = fips256_W M 63" using sha256_word_fips [OF win] by simp
  have "[0..<64] = [0..<16] @ [16..<63] @ [63]" by code_simp
  then have "sha256_compress H block = regs8_add H (foldl ?step H [0..<64])"
    by (simp add: sha256_compress_def Let_def head roll last flip: M_def del: upt_rec_numeral)
  then show ?thesis
    by (simp only: fips256_compress_def Let_def sha256_round_fips M_def block_words32 [OF assms])
qed

lemma sha1_rolling:
  assumes "window ws (fips1_W M) 0"
  shows "\<exists>ws'. foldl sha1_step (ws, regs) [16..<n + 16]
      = (ws', foldl (\<lambda>r t. sha1_round t (fips1_W M t) r) regs [16..<n + 16]) \<and> window ws' (fips1_W M) n"
proof (induction n)
  case 0
  with assms show ?case by simp
next
  case (Suc n)
  then obtain ws' where win: "window ws' (fips1_W M) n" and "foldl sha1_step (ws, regs) [16..<n + 16]
      = (ws', foldl (\<lambda>r t. sha1_round t (fips1_W M t) r) regs [16..<n + 16])" by blast
  moreover have "sha1_word ws' (n + 16) = (ws'[n mod 16 := fips1_W M (n + 16)], fips1_W M (n + 16))"
    using window_at [OF win, of 0] window_at [OF win, of 2] window_at [OF win, of 8] window_at [OF win, of 13]
    unfolding sha1_word_def fips_schedule_step(1) Let_def by (simp add: add.commute)
  moreover note upt_next [of n]
  ultimately show ?case
    using window_step [of ws' "fips1_W M" n] by (simp add: Let_def del: add_Suc)
qed

lemma sha1_compress_fips:
  assumes "length block = 64"
  shows "sha1_compress H block = fips1_compress H block"
proof -
  define M where "M = block_words32 block"
  let ?step = "\<lambda>r t. sha1_round t (fips1_W M t) r"
  have M: "length M = 16" by (simp add: M_def block_words32_def)
  have first: "fips1_W M t = M ! t" if "t < 16" for t using that by (simp add: fips1_W.simps [of M t])
  then have start: "window M (fips1_W M) 0" using M by (intro window_start) simp_all
  have head: "foldl sha1_step (M, H) [0..<n] = (M, foldl ?step H [0..<n])" if "n \<le> 16" for n
    using that by (induction n) (simp_all add: sha1_word_def first)
  have "[0..<80] = [0..<16] @ [16..<64 + 16]" by code_simp
  with sha1_rolling [OF start, of "foldl ?step H [0..<16]" 64] head [of 16]
  have "sha1_compress H block = regs5_add H (foldl ?step H [0..<80])"
    by (auto simp: sha1_compress_def simp flip: M_def simp del: upt_rec_numeral)
  then show ?thesis
    by (simp only: fips1_compress_def Let_def sha1_round_fips M_def block_words32 [OF assms])
qed

lemma sha512_expansion:
  assumes "length M = 16" "n \<le> 64"
  shows "length (foldl sha512_expand (M @ replicate 64 0) [16..<n + 16]) = 80
    \<and> (\<forall>t<n + 16. foldl sha512_expand (M @ replicate 64 0) [16..<n + 16] ! t = fips512_W M t)"
  using assms(2)
proof (induction n)
  case 0
  with assms show ?case by (simp add: nth_append fips512_W.simps [of M])
next
  case (Suc n)
  define ws where "ws = foldl sha512_expand (M @ replicate 64 0) [16..<n + 16]"
  have ws: "length ws = 80" "\<And>t. t < n + 16 \<Longrightarrow> ws ! t = fips512_W M t" using Suc by (simp_all add: ws_def)
  from upt_next [of n] have "foldl sha512_expand (M @ replicate 64 0) [16..<Suc n + 16] = sha512_expand ws (n + 16)"
    by (simp add: ws_def del: add_Suc)
  moreover have "sha512_expand ws (n + 16) = ws[n + 16 := fips512_W M (n + 16)]"
    using ws unfolding sha512_expand_def fips_schedule_step(3) Let_def by (simp add: algebra_simps)
  ultimately show ?case using ws Suc.prems by (auto simp: nth_list_update less_Suc_eq)
qed

lemma sha512_compress_fips:
  assumes "length block = 128"
  shows "sha512_compress H block = fips512_compress H block"
proof -
  define M where "M = block_words64 block"
  define ws where "ws = foldl sha512_expand (M @ replicate 64 0) [16..<80]"
  have "length M = 16" by (simp add: M_def block_words64_def)
  from sha512_expansion [OF this, of 64] have "\<And>t. t < 80 \<Longrightarrow> ws ! t = fips512_W M t" by (simp add: ws_def)
  then have "foldl (\<lambda>r t. sha512_round (sha512_K ! t) (ws ! t) r) H [0..<80]
    = foldl (\<lambda>r t. sha512_round (sha512_K ! t) (fips512_W M t) r) H [0..<80]"
    by (intro foldl_cong_upt) simp
  then show ?thesis
    by (simp only: sha512_compress_def fips512_compress_def Let_def sha512_round_fips block_words64 [OF assms] M_def ws_def)
qed

section \<open>The hashers\<close>

interpretation hash_sha1: block_hash sha1_compress 64 56 be64
  by unfold_locales simp_all

interpretation hash_sha256: block_hash sha256_compress 64 56 be64
  by unfold_locales simp_all

interpretation hash_sha512: block_hash sha512_compress 128 112 "be_bytes 16 :: 128 word \<Rightarrow> bytes"
  by unfold_locales simp_all

text \<open>Padding ends on a block boundary, so every block a digest is made of is whole.\<close>

lemma length_md_pad_dvd:
  assumes "limit < block" "\<And>n. length (encode n) = block - limit"
  shows "block dvd length (md_pad block limit encode m)"
proof -
  define u where "u = Suc (length m) mod block"
  obtain q where q: "Suc (length m) = block * q + u" unfolding u_def by (metis mult_div_mod_eq)
  have u: "u < block" using assms(1) by (simp add: u_def)
  have "length (md_pad block limit encode m)
    = Suc (length m) + (if u \<le> limit then limit - u else block - u + limit) + (block - limit)"
    using assms(2) by (simp add: md_pad_def Let_def flip: u_def)
  also have "\<dots> = block * q + u + (if u \<le> limit then limit - u else block - u + limit) + (block - limit)"
    by (simp only: q)
  also have "\<dots> = block * (q + (if u \<le> limit then 1 else 2))" using u assms(1) by (simp add: algebra_simps)
  finally show ?thesis by simp
qed

lemma whole_chunks: "0 < n \<Longrightarrow> length xs = n * k \<Longrightarrow> \<forall>c\<in>set (chunks n xs). length c = n"
proof (induction k arbitrary: xs)
  case (Suc k)
  then have "chunks n xs = take n xs # chunks n (drop n xs)" by (intro chunks_step) auto
  moreover have "\<forall>c\<in>set (chunks n (drop n xs)). length c = n"
    using Suc.prems by (intro Suc.IH) simp_all
  ultimately show ?case using Suc.prems by simp
qed simp

lemma md_hash_cong:
  assumes "limit < block" "\<And>n. length (encode n) = block - limit"
    and "\<And>H b. length b = block \<Longrightarrow> f H b = g H b"
  shows "md_hash f block limit encode H m = md_hash g block limit encode H m"
proof -
  have "\<forall>c\<in>set (chunks block (md_pad block limit encode m)). length c = block"
    using length_md_pad_dvd [of limit block encode m, OF assms(1,2)] assms(1) by (auto elim!: dvdE dest: whole_chunks [rotated])
  then show ?thesis unfolding md_hash_def by (intro foldl_cong) (auto simp: assms(3))
qed


text \<open>The lengths of the digests.\<close>

lemma length_digests [simp]:
  "length (sha1 m) = 20" "length (sha256 m) = 32" "length (sha512 m) = 64" "length (sha384 m) = 48"
proof -
  have l8: "length (concat (map be32 (regs8_list r))) = 32" "length (concat (map be64 (regs8_list r'))) = 64" for r r'
    by (cases r; cases r'; simp)+
  have l5: "length (concat (map be32 (regs5_list r))) = 20" for r by (cases r) simp
  show "length (sha1 m) = 20" "length (sha256 m) = 32" "length (sha512 m) = 64" "length (sha384 m) = 48"
    by (simp_all add: sha1_def sha256_def sha512_def sha384_def Sha1_finish_def Sha256_finish_def Sha512_finish_def l8 l5)
qed

end
