(* ===== verification/Fdr_Trust.thy ===== *)
theory Fdr_Trust imports Der Hash begin

text \<open>
  The element reader of the FDR trust object (\<^verbatim>\<open>ramrod/fdr_trust.rs\<close>): it splits a file into its
  top-level DER elements without reading their bodies and digests each of them.
\<close>

section \<open>Operations\<close>

definition MAX_LENGTH_BYTES :: nat where "MAX_LENGTH_BYTES = 4"

datatype FdrTrustObjectError =
    FdrTruncated nat
  | BadLength nat
  | FdrEmpty

text \<open>The tag number in the high form: every byte but the last has its top bit set.\<close>

function skip_high_tag :: "bytes \<Rightarrow> nat \<Rightarrow> FdrTrustObjectError + nat" where
  "skip_high_tag bs cursor =
     (if length bs \<le> cursor then Inl (FdrTruncated cursor)
      else if bs ! cursor AND 0x80 = 0 then Inr (cursor + 1)
      else skip_high_tag bs (cursor + 1))"
  by pat_completeness auto
termination
  by (relation "measure (\<lambda>(bs, cursor). length bs - cursor)") auto

declare skip_high_tag.simps [simp del]

fun read_length_bytes :: "bytes \<Rightarrow> nat \<Rightarrow> nat \<Rightarrow> u64 \<Rightarrow> FdrTrustObjectError + u64" where
  "read_length_bytes bs at 0 v = Inr v"
| "read_length_bytes bs at (Suc n) v =
     bindE (ok_or (FdrTruncated at) (get_at bs at)) (\<lambda>byte.
       read_length_bytes bs (at + 1) n (push_bit 8 v OR ucast byte))"

text \<open>The length field at the cursor: the length it announces and the offset behind it.\<close>

definition read_length :: "bytes \<Rightarrow> nat \<Rightarrow> FdrTrustObjectError + nat \<times> nat" where
  "read_length bs cursor =
     bindE (ok_or (FdrTruncated cursor) (get_at bs cursor)) (\<lambda>first_length.
       if first_length AND 0x80 = 0 then Inr (unat first_length, cursor + 1)
       else
         let count = unat (first_length AND 0x7f) in
         if count = 0 \<or> count > MAX_LENGTH_BYTES then Inl (BadLength cursor)
         else bindE (read_length_bytes bs (cursor + 1) count 0) (\<lambda>v. Inr (unat v, cursor + 1 + count)))"

definition read_top_level_element :: "bytes \<Rightarrow> nat \<Rightarrow> FdrTrustObjectError + nat \<times> nat" where
  "read_top_level_element bs at =
     bindE (ok_or (FdrTruncated at) (get_at bs at)) (\<lambda>identifier.
     bindE (if identifier AND HIGH_TAG_NUMBER_FORM = HIGH_TAG_NUMBER_FORM
            then skip_high_tag bs (at + 1) else Inr (at + 1)) (\<lambda>cursor.
     bindE (read_length bs cursor) (\<lambda>(len, cursor).
       if int cursor + int len \<ge> 2 ^ 64 then Inl (BadLength at)
       else if cursor + len > length bs then Inl (BadLength at)
       else Inr (at, cursor + len))))"

lemma skip_high_tag_advance: "skip_high_tag bs cursor = Inr c \<Longrightarrow> cursor < c"
  by (induction bs cursor rule: skip_high_tag.induct)
    (subst (asm) (2) skip_high_tag.simps, auto split: if_splits)

lemma read_length_advance: "read_length bs cursor = Inr (len, c) \<Longrightarrow> cursor < c"
  by (auto simp: read_length_def bindE_eq_Inr Let_def split: if_splits)

lemma read_element_span:
  assumes "read_top_level_element bs at = Inr (a, e)"
  shows "a = at" "at < e" "e \<le> length bs"
  using assms
  by (auto simp: read_top_level_element_def bindE_eq_Inr split: if_splits
      dest!: skip_high_tag_advance read_length_advance)

function elements_from :: "bytes \<Rightarrow> nat \<Rightarrow> FdrTrustObjectError + (nat \<times> nat) list" where
  "elements_from bs cursor =
     (if length bs \<le> cursor then Inr []
      else
        bindE (read_top_level_element bs cursor) (\<lambda>span.
        bindE (elements_from bs (snd span)) (\<lambda>spans. Inr (span # spans))))"
  by pat_completeness auto
termination
  by (relation "measure (\<lambda>(bs, cursor). length bs - cursor)") (auto dest!: read_element_span(2))

declare elements_from.simps [simp del]

definition top_level_elements :: "bytes \<Rightarrow> FdrTrustObjectError + (nat \<times> nat) list" where
  "top_level_elements bs = (if bs = [] then Inl FdrEmpty else elements_from bs 0)"

definition digest_top_level_elements :: "bytes \<Rightarrow> FdrTrustObjectError + bytes list" where
  "digest_top_level_elements bs =
     bindE (top_level_elements bs) (\<lambda>spans.
       Inr (map (\<lambda>(a, e). Sha256_finish (Sha256_update Sha256_new (subslice bs a e))) spans))"

definition primary_trust_object_digest :: "bytes \<Rightarrow> FdrTrustObjectError + bytes \<times> nat" where
  "primary_trust_object_digest bs =
     bindE (digest_top_level_elements bs) (\<lambda>digests.
     bindE (ok_or FdrEmpty (get_at digests 0)) (\<lambda>first. Inr (first, length digests)))"

section \<open>Specification\<close>

text \<open>The spans of consecutive elements, and what they cut out of the file.\<close>

fun spans_of :: "nat \<Rightarrow> bytes list \<Rightarrow> (nat \<times> nat) list" where
  "spans_of cursor [] = []"
| "spans_of cursor (e # es) = (cursor, cursor + length e) # spans_of (cursor + length e) es"

definition cut :: "bytes \<Rightarrow> (nat \<times> nat) list \<Rightarrow> bytes list" where
  "cut bs spans = map (\<lambda>(a, e). subslice bs a e) spans"

section \<open>Lemmas\<close>

lemma cut_spans_of: "cut (pre @ concat es @ post) (spans_of (length pre) es) = es"
proof (induction es arbitrary: pre)
  case (Cons e es)
  from Cons.IH [of "pre @ e"] show ?case by (simp add: cut_def subslice_def)
qed (simp add: cut_def)

lemma elements_from_partition:
  "elements_from bs cursor = Inr spans \<Longrightarrow> cursor \<le> length bs \<Longrightarrow>
   concat (cut bs spans) = drop cursor bs \<and> spans = spans_of cursor (cut bs spans) \<and> [] \<notin> set (cut bs spans)"
proof (induction bs cursor arbitrary: spans rule: elements_from.induct)
  case (1 bs cursor)
  show ?case
  proof (cases "length bs \<le> cursor")
    case True
    with 1(2) have "spans = []" by (subst (asm) elements_from.simps) simp
    with True show ?thesis by (simp add: cut_def)
  next
    case False
    with 1(2) obtain a e rest where el: "read_top_level_element bs cursor = Inr (a, e)"
      and rest: "elements_from bs e = Inr rest" and spans: "spans = (a, e) # rest"
      by (subst (asm) elements_from.simps) (auto simp: bindE_eq_Inr)
    note sp = read_element_span [OF el]
    have ih: "concat (cut bs rest) = drop e bs \<and> rest = spans_of e (cut bs rest) \<and> [] \<notin> set (cut bs rest)"
      using 1(1) [OF False el, of rest] rest sp by simp
    have "subslice bs cursor e @ drop e bs = drop cursor bs"
      using sp slice_append_slice [of cursor e "length bs" bs] by (simp add: subslice_def)
    moreover have "subslice bs cursor e \<noteq> []" using sp by (simp add: subslice_def)
    ultimately show ?thesis
      using ih sp by (auto simp: spans cut_def)
  qed
qed

lemma skip_high_tag_groups:
  assumes "list_all (\<lambda>g. g AND 0x80 \<noteq> 0) gs" "l AND 0x80 = 0"
  shows "skip_high_tag (pre @ gs @ l # post) (length pre) = Inr (length pre + length gs + 1)"
  using assms(1)
proof (induction gs arbitrary: pre)
  case Nil
  with assms(2) show ?case by (subst skip_high_tag.simps) simp
next
  case (Cons g gs)
  from Cons.IH [of "pre @ [g]"] Cons.prems show ?case
    by (subst skip_high_tag.simps) simp
qed

lemma read_length_bytes_fold:
  "read_length_bytes (pre @ ds @ post) (length pre) (length ds) v
     = Inr (foldl (\<lambda>a b. push_bit 8 a OR ucast b) v ds)"
proof (induction ds arbitrary: pre v)
  case (Cons d ds)
  from Cons [of "pre @ [d]" "push_bit 8 v OR ucast d"] show ?case by (simp add: get_at_def)
qed simp

lemma short_length_byte:
  assumes "n < 128"
  shows "(word_of_nat n :: u8) AND 0x80 = 0" "unat (word_of_nat n :: u8) = n"
proof -
  have "unat (word_of_nat n :: u8) = n" using assms by (simp add: unsigned_of_nat take_bit_nat_eq_self)
  then show "unat (word_of_nat n :: u8) = n" .
  have "list_all (\<lambda>n. (word_of_nat n :: u8) AND 0x80 = 0) [0..<128]" by code_simp
  with assms show "(word_of_nat n :: u8) AND 0x80 = 0" by (simp add: list_all_iff)
qed

lemma long_length_byte:
  assumes "n \<le> 4"
  shows "(0x80 OR word_of_nat n :: u8) AND 0x80 \<noteq> 0" "unat ((0x80 OR word_of_nat n :: u8) AND 0x7f) = n"
proof -
  have "list_all (\<lambda>n. (0x80 OR word_of_nat n :: u8) AND 0x80 \<noteq> 0
      \<and> unat ((0x80 OR word_of_nat n :: u8) AND 0x7f) = n) [0..<5]" by code_simp
  with assms show "(0x80 OR word_of_nat n :: u8) AND 0x80 \<noteq> 0"
    "unat ((0x80 OR word_of_nat n :: u8) AND 0x7f) = n" by (simp_all add: list_all_iff)
qed

lemma tlv_split: "\<exists>lens. tlv identifier body = identifier @ lens @ body \<and> tlv [] body = lens @ body"
  by (simp add: tlv_def Let_def)

lemma read_length_tlv:
  assumes "length body < 2 ^ 32"
  shows "read_length (pre @ tlv [] body @ post) (length pre)
    = Inr (length body, length pre + length (tlv [] body) - length body)"
proof (cases "length body < 0x80")
  case True
  with short_length_byte [of "length body"] show ?thesis
    by (simp add: read_length_def tlv_def get_at_def nth_append)
next
  case False
  let ?w = "word_of_nat (length body) :: u64"
  let ?ds = "significant (be64 ?w)"
  let ?n = "0x80 OR word_of_nat (length ?ds) :: u8"
  have len: "unat ?w = length body" using assms by (simp add: unsigned_of_nat take_bit_nat_eq_self)
  then have nz: "?w \<noteq> 0" using False by (metis not_less unat_0 zero_less_numeral)
  have ds: "length ?ds \<le> 4" "?ds \<noteq> []"
    using significant_short [OF nz] significant_eq [OF nz] assms len by simp_all
  have tlv: "tlv [] body = ?n # ?ds @ body" using False by (simp add: tlv_def Let_def)
  have "read_length_bytes ((pre @ [?n]) @ ?ds @ body @ post) (length (pre @ [?n])) (length ?ds) 0 = Inr ?w"
    unfolding read_length_bytes_fold
    using significant_eq(1) [OF nz] of_be_dropWhile [of "be64 ?w"] by (simp add: of_be_def [symmetric])
  with ds long_length_byte [OF ds(1)] len show ?thesis
    unfolding tlv by (simp add: read_length_def get_at_def nth_append Let_def MAX_LENGTH_BYTES_def)
qed

lemma read_element_tlv:
  assumes "wf_identifier identifier" "length body < 2 ^ 32"
    and "length (pre @ tlv identifier body @ post) < 2 ^ 64"
  shows "read_top_level_element (pre @ tlv identifier body @ post) (length pre)
    = Inr (length pre, length pre + length (tlv identifier body))"
proof -
  obtain lens where lens: "tlv identifier body = identifier @ lens @ body" "tlv [] body = lens @ body"
    using tlv_split by blast
  let ?bs = "pre @ tlv identifier body @ post"
  obtain b rest where id: "identifier = b # rest" using assms(1) by (metis neq_Nil_conv wf_identifier.simps(1))
  have tag: "(if b AND HIGH_TAG_NUMBER_FORM = HIGH_TAG_NUMBER_FORM
      then skip_high_tag ?bs (length pre + 1) else Inr (length pre + 1)) = Inr (length pre + length identifier)"
  proof (cases "b AND HIGH_TAG_NUMBER_FORM = HIGH_TAG_NUMBER_FORM")
    case True
    with assms(1) id have "rest \<noteq> []" by simp
    then obtain gs l where rest: "rest = gs @ [l]" by (cases rest rule: rev_exhaust) auto
    with True assms(1) id have gs: "list_all (\<lambda>g. g AND 0x80 \<noteq> 0) gs" "l AND 0x80 = 0" by simp_all
    show ?thesis
      using skip_high_tag_groups [OF gs, of "pre @ [b]" "lens @ body @ post"] True
      unfolding lens(1) by (simp add: id rest)
  next
    case False
    with assms(1) id show ?thesis by simp
  qed
  have at: "get_at ?bs (length pre) = Some b" unfolding lens(1) by (simp add: id get_at_def)
  have rl: "read_length ?bs (length pre + length identifier)
      = Inr (length body, length pre + length identifier + length lens)"
    using read_length_tlv [OF assms(2), of "pre @ identifier" post] by (simp add: lens)
  have fits: "length pre + length identifier + length lens + length body \<le> length ?bs"
    "length pre + length identifier + length lens + length body = length pre + length (tlv identifier body)"
    unfolding lens(1) by simp_all
  show ?thesis
    unfolding read_top_level_element_def at ok_or_simps bindE_simps tag rl prod.case
    using fits assms(3) by simp
qed

lemma length_tlv_pos: "tlv identifier body \<noteq> [] \<and> 0 < length (tlv identifier body)"
  by (simp add: tlv_def Let_def)

lemma elements_from_tlvs:
  assumes "\<forall>(ident, body) \<in> set es. wf_identifier ident \<and> length body < 2 ^ 32"
    and "length (pre @ concat (map (\<lambda>(ident, body). tlv ident body) es)) < 2 ^ 64"
  shows "elements_from (pre @ concat (map (\<lambda>(ident, body). tlv ident body) es)) (length pre)
    = Inr (spans_of (length pre) (map (\<lambda>(ident, body). tlv ident body) es))"
  using assms
proof (induction es arbitrary: pre)
  case Nil
  then show ?case by (subst elements_from.simps) simp
next
  case (Cons e es)
  obtain ident body where e: "e = (ident, body)" by (cases e)
  let ?t = "tlv ident body" and ?rest = "concat (map (\<lambda>(ident, body). tlv ident body) es)"
  have el: "read_top_level_element (pre @ ?t @ ?rest) (length pre) = Inr (length pre, length pre + length ?t)"
    using Cons.prems e by (intro read_element_tlv) auto
  have "elements_from ((pre @ ?t) @ ?rest) (length (pre @ ?t))
      = Inr (spans_of (length (pre @ ?t)) (map (\<lambda>(ident, body). tlv ident body) es))"
    using Cons.prems e by (intro Cons.IH) auto
  with el length_tlv_pos [of ident body] show ?case
    by (subst elements_from.simps) (simp add: e)
qed

lemma writer_identifiers_wf:
  "b AND HIGH_TAG_NUMBER_FORM \<noteq> HIGH_TAG_NUMBER_FORM \<Longrightarrow> wf_identifier [b]"
  "wf_identifier (context_identifier tag constructed)"
  "fourcc_private code = Inr identifier \<Longrightarrow> wf_identifier identifier"
proof -
  show "b AND HIGH_TAG_NUMBER_FORM \<noteq> HIGH_TAG_NUMBER_FORM \<Longrightarrow> wf_identifier [b]" by simp
  have "list_all (\<lambda>n. (0xa0 OR word_of_nat n :: u8) AND 0x1f \<noteq> 0x1f
      \<and> (0x80 OR word_of_nat n :: u8) AND 0x1f \<noteq> 0x1f) [0..<31]" by code_simp
  note all = this [unfolded list_all_iff]
  have low: "(0xa0 OR tag) AND 0x1f \<noteq> 0x1f" "(0x80 OR tag) AND 0x1f \<noteq> 0x1f" if "tag \<le> 30" for tag :: u8
  proof -
    have "unat tag \<in> set [0..<31]" using that by (simp add: word_le_nat_alt)
    from bspec [OF all this] show "(0xa0 OR tag) AND 0x1f \<noteq> 0x1f" "(0x80 OR tag) AND 0x1f \<noteq> 0x1f"
      by simp_all
  qed
  show "wf_identifier (context_identifier tag constructed)"
    using low [of tag] base128_shape
    by (auto simp: context_identifier_def Let_def CLASS_CONTEXT_def CONSTRUCTED_def HIGH_TAG_NUMBER_FORM_def
        LOW_TAG_NUMBER_MAX_def)
  show "fourcc_private code = Inr identifier \<Longrightarrow> wf_identifier identifier"
    using base128_shape
    by (auto simp: fourcc_private_def Let_def CLASS_PRIVATE_def CONSTRUCTED_def HIGH_TAG_NUMBER_FORM_def
        split: if_splits)
qed

section \<open>Properties\<close>

text \<open>
  Claim C25. The reader partitions the file: the spans it reports are consecutive and never empty,
  and the pieces they cut out put together are exactly the file, so no byte is skipped, shared or
  left over.
\<close>

theorem top_level_elements_partition:
  assumes "top_level_elements bs = Inr spans"
  shows "concat (cut bs spans) = bs \<and> spans = spans_of 0 (cut bs spans) \<and> [] \<notin> set (cut bs spans)
    \<and> spans \<noteq> []"
proof -
  from assms have ne: "bs \<noteq> []" and el: "elements_from bs 0 = Inr spans"
    by (simp_all add: top_level_elements_def split: if_splits)
  from elements_from_partition [OF el] have "concat (cut bs spans) = bs \<and> spans = spans_of 0 (cut bs spans)
      \<and> [] \<notin> set (cut bs spans)" by simp
  with ne show ?thesis by (auto simp: cut_def)
qed

theorem top_level_elements_partition_witness:
  "concat (cut [0x30, 1, 9, 5, 0] [(0, 3), (3, 5)]) = [0x30, 1, 9, 5, 0]
    \<and> [(0, 3), (3, 5)] = spans_of 0 (cut [0x30, 1, 9, 5, 0] [(0, 3), (3, 5)])
    \<and> [] \<notin> set (cut [0x30, 1, 9, 5, 0] [(0, 3), (3, 5)]) \<and> [(0 :: nat, 3 :: nat), (3, 5)] \<noteq> []"
proof (rule top_level_elements_partition)
  show "top_level_elements [0x30, 1, 9, 5, 0] = Inr [(0, 3), (3, 5)]" by code_simp
qed

text \<open>
  Claim C24. The reader finds exactly the elements the DER writer produced: a file of elements
  whose identifiers a reader can delimit, with bodies below 4 GiB, is split where one element
  ends and the next begins, whatever the bodies contain. The digests are the SHA-256 of each whole
  element, in order, and the primary digest is the first one with their number.
\<close>

theorem top_level_elements_of_tlvs:
  assumes "es \<noteq> []" "\<forall>(ident, body) \<in> set es. wf_identifier ident \<and> length body < 2 ^ 32"
    and "length (concat (map (\<lambda>(ident, body). tlv ident body) es)) < 2 ^ 64"
  shows "top_level_elements (concat (map (\<lambda>(ident, body). tlv ident body) es))
      = Inr (spans_of 0 (map (\<lambda>(ident, body). tlv ident body) es))
    \<and> digest_top_level_elements (concat (map (\<lambda>(ident, body). tlv ident body) es))
      = Inr (map (\<lambda>(ident, body). sha256 (tlv ident body)) es)
    \<and> primary_trust_object_digest (concat (map (\<lambda>(ident, body). tlv ident body) es))
      = Inr (sha256 (tlv (fst (hd es)) (snd (hd es))), length es)"
proof -
  let ?els = "map (\<lambda>(ident, body). tlv ident body) es"
  obtain ident body rest where "es = (ident, body) # rest" using assms(1) by (cases es) auto
  then have "concat (map (\<lambda>(ident, body). tlv ident body) es) \<noteq> []"
    using length_tlv_pos [of ident body] by simp
  then have spans: "top_level_elements (concat ?els) = Inr (spans_of 0 ?els)"
    using elements_from_tlvs [of es "[]"] assms(2,3) by (simp add: top_level_elements_def)
  have "map (\<lambda>(a, e). sha256 (subslice (concat ?els) a e)) (spans_of 0 ?els) = map sha256 (cut (concat ?els) (spans_of 0 ?els))"
    by (simp add: cut_def case_prod_beta)
  also have "\<dots> = map sha256 ?els" using cut_spans_of [of "[]" ?els "[]"] by simp
  finally have digests: "digest_top_level_elements (concat ?els) = Inr (map sha256 ?els)"
    by (simp add: digest_top_level_elements_def spans sha256_def)
  then show ?thesis
    using assms(1) spans
    by (cases es) (auto simp: primary_trust_object_digest_def get_at_def case_prod_beta comp_def)
qed

theorem top_level_elements_of_tlvs_witness:
  "top_level_elements (concat (map (\<lambda>(ident, body). tlv ident body) [([0x30], [0x1f, 0x80]), ([0xff, 0x81, 0x05], [])]))
    = Inr (spans_of 0 (map (\<lambda>(ident, body). tlv ident body) [([0x30], [0x1f, 0x80]), ([0xff, 0x81, 0x05], [])]))"
  by (rule top_level_elements_of_tlvs [THEN conjunct1])
    (simp_all add: HIGH_TAG_NUMBER_FORM_def tlv_def)

text \<open>
  Claim C28. Every identifier the writer builds can be delimited by the reader: single bytes in
  the low form, context tags of any number, and the private tags of four-character codes, whose
  number can be read back from its groups.
\<close>

theorem der_identifiers_delimited:
  "(b AND HIGH_TAG_NUMBER_FORM = HIGH_TAG_NUMBER_FORM \<or> wf_identifier [b])
   \<and> wf_identifier (context_identifier tag constructed)
   \<and> (case fourcc_private code of
        Inl e \<Rightarrow> e = NotAFourCharacterCode (length code) \<and> length code \<noteq> 4
      | Inr ident \<Rightarrow> wf_identifier ident \<and> base128_value (tl ident) = unat (from_be32 code))"
proof -
  have "case fourcc_private code of
        Inl e \<Rightarrow> e = NotAFourCharacterCode (length code) \<and> length code \<noteq> 4
      | Inr ident \<Rightarrow> wf_identifier ident \<and> base128_value (tl ident) = unat (from_be32 code)"
  proof (cases "fourcc_private code")
    case (Inl e)
    then show ?thesis by (auto simp: fourcc_private_def Let_def FOURCC_BYTES_def split: if_splits)
  next
    case (Inr ident)
    then have "tl ident = base128 (ucast (from_be32 code))"
      by (auto simp: fourcc_private_def Let_def split: if_splits)
    moreover have "unat (ucast (from_be32 code) :: u64) = unat (from_be32 code)"
    proof -
      have "unat (from_be32 code) < 2 ^ 32" using unsigned_less [of "from_be32 code", where 'a = nat] by simp
      then show ?thesis by (simp add: unsigned_ucast_eq take_bit_nat_eq_self)
    qed
    ultimately show ?thesis using writer_identifiers_wf(3) [OF Inr] Inr by (simp add: base128_decode)
  qed
  then show ?thesis using writer_identifiers_wf(1,2) by blast
qed

end
