(* ===== verification/Cpio.thy ===== *)
theory Cpio imports Prelude begin

text \<open>
  The cpio archive writer (\<^verbatim>\<open>ramrod/cpio.rs\<close>). The stream it writes to is a parameter: \<open>write_all\<close>
  and \<open>flush\<close> stand for the \<^verbatim>\<open>Write\<close> implementation, take the sink and return it with a result.
  A source of file contents is the list of what its \<^verbatim>\<open>read\<close> calls return, then end of file.
  Strings are their UTF-8 bytes.
\<close>

section \<open>Data\<close>

definition CPIO_MAGIC :: bytes where "CPIO_MAGIC = ascii ''070707''"
definition CPIO_HEADER_BYTES :: nat where "CPIO_HEADER_BYTES = 76"
definition CPIO_TRAILER_PATH :: bytes where "CPIO_TRAILER_PATH = ascii ''TRAILER!!!''"
definition MODE_TYPE_REGULAR :: u32 where "MODE_TYPE_REGULAR = 0x8000"
definition MODE_TYPE_DIRECTORY :: u32 where "MODE_TYPE_DIRECTORY = 0x4000"
definition MODE_TYPE_SYMLINK :: u32 where "MODE_TYPE_SYMLINK = 0xa000"
definition MODE_PERMISSION_MASK :: u32 where "MODE_PERMISSION_MASK = 0xfff"
definition COPY_BUFFER_BYTES :: nat where "COPY_BUFFER_BYTES = 64 * 1024"
definition NARROW_FIELD :: nat where "NARROW_FIELD = 6"
definition WIDE_FIELD :: nat where "WIDE_FIELD = 11"

datatype CpioFileType = Directory | RegularFile | Symlink

fun mode_type_bits :: "CpioFileType \<Rightarrow> u32" where
  "mode_type_bits Directory = MODE_TYPE_DIRECTORY"
| "mode_type_bits RegularFile = MODE_TYPE_REGULAR"
| "mode_type_bits Symlink = MODE_TYPE_SYMLINK"

fun type_describe :: "CpioFileType \<Rightarrow> string" where
  "type_describe Directory = ''directory''"
| "type_describe RegularFile = ''regular file''"
| "type_describe Symlink = ''symlink''"

definition link_count :: "CpioFileType \<Rightarrow> u32" where "link_count t = 1"

record CpioFileMeta =
  cm_mode :: u32
  cm_uid :: u32
  cm_gid :: u32
  cm_mtime :: u64

datatype CpioBody = EmptyBody | LinkTarget bytes | Contents bytes

fun body_describe :: "CpioBody \<Rightarrow> string" where
  "body_describe EmptyBody = ''an empty body''"
| "body_describe (LinkTarget t) = ''a link target''"
| "body_describe (Contents c) = ''file contents''"

fun declared_size :: "CpioBody \<Rightarrow> u64" where
  "declared_size EmptyBody = 0"
| "declared_size (LinkTarget target) = word_of_nat (length target)"
| "declared_size (Contents bs) = word_of_nat (length bs)"

record CpioEntry =
  ce_path :: bytes
  ce_file_type :: CpioFileType
  ce_mode :: u32
  ce_uid :: u32
  ce_gid :: u32
  ce_mtime :: u64
  ce_body :: CpioBody

definition entry_directory :: "bytes \<Rightarrow> u32 \<Rightarrow> u32 \<Rightarrow> u32 \<Rightarrow> u64 \<Rightarrow> CpioEntry" where
  "entry_directory path mode uid gid mtime =
     \<lparr>ce_path = path, ce_file_type = Directory, ce_mode = mode, ce_uid = uid, ce_gid = gid,
      ce_mtime = mtime, ce_body = EmptyBody\<rparr>"

definition entry_symlink :: "bytes \<Rightarrow> bytes \<Rightarrow> u32 \<Rightarrow> u32 \<Rightarrow> u32 \<Rightarrow> u64 \<Rightarrow> CpioEntry" where
  "entry_symlink path target mode uid gid mtime =
     \<lparr>ce_path = path, ce_file_type = Symlink, ce_mode = mode, ce_uid = uid, ce_gid = gid,
      ce_mtime = mtime, ce_body = LinkTarget target\<rparr>"

definition entry_regular_file :: "bytes \<Rightarrow> bytes \<Rightarrow> u32 \<Rightarrow> u32 \<Rightarrow> u32 \<Rightarrow> u64 \<Rightarrow> CpioEntry" where
  "entry_regular_file path contents mode uid gid mtime =
     \<lparr>ce_path = path, ce_file_type = RegularFile, ce_mode = mode, ce_uid = uid, ce_gid = gid,
      ce_mtime = mtime, ce_body = Contents contents\<rparr>"

text \<open>An I/O error is opaque to the writer, which carries it out unread: its message stands for it.\<close>

type_synonym io_error = string

datatype CpioError =
    FieldTooLarge string u64 nat
  | EmptyPath
  | NulInPath bytes nat
  | NulInLinkTarget bytes bytes nat
  | ModeOutsidePermissionMask bytes u32
  | BodyMismatch bytes CpioFileType string
  | SourceTooShort bytes nat nat
  | SourceTooLong bytes nat
  | CpioIo io_error

datatype read_event =
    Bytes bytes
  | Interrupted
  | ReadFailed io_error

type_synonym reader = "read_event list"

fun read_some :: "nat \<Rightarrow> reader \<Rightarrow> reader \<times> read_event" where
  "read_some want [] = ([], Bytes [])"
| "read_some want (Bytes bs # es) =
     (if length bs \<le> want then (es, Bytes bs) else (Bytes (drop want bs) # es, Bytes (take want bs)))"
| "read_some want (e # es) = (es, e)"

section \<open>Headers\<close>

fun octal_digits :: "nat \<Rightarrow> bytes" where
  "octal_digits n =
     (if n < 8 then [0x30 + word_of_nat n] else octal_digits (n div 8) @ [0x30 + word_of_nat (n mod 8)])"

declare octal_digits.simps [simp del]

definition push_octal :: "bytes \<Rightarrow> string \<Rightarrow> u64 \<Rightarrow> nat \<Rightarrow> CpioError + bytes" where
  "push_octal header field v width =
     (let digits = octal_digits (unat v) in
      if length digits > width then Inl (FieldTooLarge field v width)
      else Inr (header @ replicate (width - length digits) 0x30 @ digits))"

text \<open>For evaluation the digits are taken from the word itself.\<close>

function octal_word :: "u64 \<Rightarrow> bytes" where
  "octal_word v = (if v < 8 then [0x30 + ucast v] else octal_word (v div 8) @ [0x30 + ucast (v mod 8)])"
  by pat_completeness auto
termination
  by (relation "measure unat") (auto simp: unat_div word_less_nat_alt)

declare octal_word.simps [simp del]

lemma octal_word: "octal_digits (unat v) = octal_word v"
proof (induction v rule: octal_word.induct)
  case (1 v)
  have small: "v < 8 \<longleftrightarrow> unat v < 8" by (simp add: word_less_nat_alt)
  have div8: "unat v div 8 = unat (v div 8)" and mod8: "unat v mod 8 = unat (v mod 8)"
    by (simp_all add: unat_div unat_mod)
  from 1 show ?case
    by (cases "v < 8")
       (simp_all only: octal_digits.simps [of "unat v"] octal_word.simps [of v] small div8 mod8 of_nat_unat if_True if_False not_False_eq_True)
qed

lemma push_octal_code [code]:
  "push_octal header field v width =
     (let digits = octal_word v in
      if length digits > width then Inl (FieldTooLarge field v width)
      else Inr (header @ replicate (width - length digits) 0x30 @ digits))"
  by (simp add: push_octal_def octal_word)

definition position :: "('a \<Rightarrow> bool) \<Rightarrow> 'a list \<Rightarrow> nat option" where
  "position P xs = (let n = length (takeWhile (\<lambda>x. \<not> P x) xs) in if n < length xs then Some n else None)"

definition validate_path :: "bytes \<Rightarrow> CpioError + u64" where
  "validate_path path =
     (if path = [] then Inl EmptyPath
      else case position (\<lambda>byte. byte = 0) path of
             Some offset \<Rightarrow> Inl (NulInPath path offset)
           | None \<Rightarrow> Inr (word_of_nat (length path) + 1))"

definition build_header :: "bytes \<Rightarrow> u64 \<Rightarrow> CpioFileMeta \<Rightarrow> u32 \<Rightarrow> u64 \<Rightarrow> CpioError + bytes" where
  "build_header path ino meta nlink filesize =
     bindE (validate_path path) (\<lambda>namesize.
     bindE (push_octal CPIO_MAGIC ''dev'' 0 NARROW_FIELD) (\<lambda>h.
     bindE (push_octal h ''ino'' ino NARROW_FIELD) (\<lambda>h.
     bindE (push_octal h ''mode'' (ucast (cm_mode meta)) NARROW_FIELD) (\<lambda>h.
     bindE (push_octal h ''uid'' (ucast (cm_uid meta)) NARROW_FIELD) (\<lambda>h.
     bindE (push_octal h ''gid'' (ucast (cm_gid meta)) NARROW_FIELD) (\<lambda>h.
     bindE (push_octal h ''nlink'' (ucast nlink) NARROW_FIELD) (\<lambda>h.
     bindE (push_octal h ''rdev'' 0 NARROW_FIELD) (\<lambda>h.
     bindE (push_octal h ''mtime'' (cm_mtime meta) WIDE_FIELD) (\<lambda>h.
     bindE (push_octal h ''namesize'' namesize NARROW_FIELD) (\<lambda>h.
     push_octal h ''filesize'' filesize WIDE_FIELD))))))))))"

section \<open>The writer\<close>

record 'w CpioWriter =
  cw_out :: 'w
  bytes_written :: u64
  entries_written :: u64
  next_inode :: u64

type_synonym 'w write_op = "'w \<Rightarrow> bytes \<Rightarrow> 'w \<times> (io_error + unit)"

definition CpioWriter_new :: "'w \<Rightarrow> 'w CpioWriter" where
  "CpioWriter_new out = \<lparr>cw_out = out, bytes_written = 0, entries_written = 0, next_inode = 1\<rparr>"

definition emit ::
    "'w write_op \<Rightarrow> 'w CpioWriter \<Rightarrow> bytes \<Rightarrow> 'w CpioWriter \<times> (CpioError + unit)" where
  "emit write_all w bs =
     (case write_all (cw_out w) bs of
        (out, Inl io) \<Rightarrow> (w\<lparr>cw_out := out\<rparr>, Inl (CpioIo io))
      | (out, Inr u) \<Rightarrow>
          (w\<lparr>cw_out := out, bytes_written := bytes_written w + word_of_nat (length bs)\<rparr>, Inr ()))"

definition write_member ::
    "'w write_op \<Rightarrow> 'w CpioWriter \<Rightarrow> bytes \<Rightarrow> CpioFileType \<Rightarrow> CpioFileMeta \<Rightarrow> u64
      \<Rightarrow> 'w CpioWriter \<times> (CpioError + unit)" where
  "write_member write_all w path file_type meta filesize =
     (if cm_mode meta AND NOT MODE_PERMISSION_MASK \<noteq> 0
      then (w, Inl (ModeOutsidePermissionMask path (cm_mode meta)))
      else
        bindS (w, build_header path (next_inode w)
            (meta\<lparr>cm_mode := mode_type_bits file_type OR cm_mode meta\<rparr>) (link_count file_type) filesize)
          (\<lambda>w header.
        bindS (emit write_all w header) (\<lambda>w _.
        bindS (emit write_all w path) (\<lambda>w _.
        bindS (emit write_all w [0]) (\<lambda>w _.
          (w\<lparr>next_inode := next_inode w + 1, entries_written := entries_written w + 1\<rparr>, Inr ()))))))"

definition write_directory ::
    "'w write_op \<Rightarrow> 'w CpioWriter \<Rightarrow> bytes \<Rightarrow> CpioFileMeta \<Rightarrow> 'w CpioWriter \<times> (CpioError + unit)" where
  "write_directory write_all w path meta = write_member write_all w path Directory meta 0"

definition write_symlink ::
    "'w write_op \<Rightarrow> 'w CpioWriter \<Rightarrow> bytes \<Rightarrow> bytes \<Rightarrow> CpioFileMeta
      \<Rightarrow> 'w CpioWriter \<times> (CpioError + unit)" where
  "write_symlink write_all w path target meta =
     (case position (\<lambda>byte. byte = 0) target of
        Some offset \<Rightarrow> (w, Inl (NulInLinkTarget path target offset))
      | None \<Rightarrow>
          bindS (write_member write_all w path Symlink meta (word_of_nat (length target))) (\<lambda>w _.
            emit write_all w target))"

text \<open>The copy loop of \<^verbatim>\<open>write_file\<close> and the probe for bytes past the declared length.\<close>

definition reader_size :: "reader \<Rightarrow> nat" where
  "reader_size es = sum_list (map (\<lambda>e. case e of Bytes bs \<Rightarrow> Suc (length bs) | _ \<Rightarrow> 1) es)"

lemma read_some_shrinks:
  "read_some want es = (es', e) \<Longrightarrow> 0 < want \<Longrightarrow> e \<noteq> Bytes [] \<Longrightarrow> reader_size es' < reader_size es"
  by (cases es; cases "hd es") (auto simp: reader_size_def split: if_splits)

definition reader_bytes :: "reader \<Rightarrow> bytes" where
  "reader_bytes es = concat (map (\<lambda>e. case e of Bytes bs \<Rightarrow> bs | _ \<Rightarrow> []) es)"

lemma read_some_bytes:
  "read_some want es = (es', Bytes bs) \<Longrightarrow> reader_bytes es = bs @ reader_bytes es' \<and> length bs \<le> want"
  "read_some want es = (es', Interrupted) \<Longrightarrow> reader_bytes es' = reader_bytes es"
  by (cases es; cases "hd es"; force simp: reader_bytes_def split: if_splits)+

function copy_contents ::
    "'w write_op \<Rightarrow> bytes \<Rightarrow> nat \<Rightarrow> nat \<Rightarrow> reader \<Rightarrow> 'w CpioWriter
      \<Rightarrow> 'w CpioWriter \<times> (CpioError + reader)" where
  "copy_contents write_all path len remaining data w =
     (if remaining = 0 then (w, Inr data)
      else
        case read_some (min remaining COPY_BUFFER_BYTES) data of
          (data', Bytes bs) \<Rightarrow>
            if bs = [] then (w, Inl (SourceTooShort path len (len - remaining)))
            else
              bindS (emit write_all w bs) (\<lambda>w _.
                copy_contents write_all path len (remaining - length bs) data' w)
        | (data', Interrupted) \<Rightarrow> copy_contents write_all path len remaining data' w
        | (data', ReadFailed io) \<Rightarrow> (w, Inl (CpioIo io)))"
  by pat_completeness auto
termination
  by (relation "measure (\<lambda>(write_all, path, len, remaining, data, w). reader_size data)")
     (auto intro!: read_some_shrinks [OF sym] simp: COPY_BUFFER_BYTES_def)

declare copy_contents.simps [simp del]

text \<open>For evaluation the buffer size is compared as an integer, whose numerals are binary.\<close>

lemma copy_contents_code [code]:
  "copy_contents write_all path len remaining data w =
     (if remaining = 0 then (w, Inr data)
      else let r = read_some (nat (min (int remaining) 65536)) data in
        case snd r of
          Bytes bs \<Rightarrow>
            if bs = [] then (w, Inl (SourceTooShort path len (len - remaining)))
            else
              bindS (emit write_all w bs) (\<lambda>w _.
                copy_contents write_all path len (remaining - length bs) (fst r) w)
        | Interrupted \<Rightarrow> copy_contents write_all path len remaining (fst r) w
        | ReadFailed io \<Rightarrow> (w, Inl (CpioIo io)))"
proof -
  have "nat (min (int remaining) 65536) = min remaining COPY_BUFFER_BYTES"
    by (simp add: COPY_BUFFER_BYTES_def min_def)
  then show ?thesis
    by (simp only: copy_contents.simps [of write_all path len remaining data w])
       (simp only: Let_def prod.case_eq_if)
qed

lemma copy_contents_0 [simp]: "copy_contents write_all path len 0 data w = (w, Inr data)"
  by (simp add: copy_contents.simps)

fun probe_overrun ::
    "bytes \<Rightarrow> nat \<Rightarrow> reader \<Rightarrow> 'w CpioWriter \<Rightarrow> 'w CpioWriter \<times> (CpioError + unit)" where
  "probe_overrun path len [] w = (w, Inr ())"
| "probe_overrun path len (Bytes bs # es) w =
     (if bs = [] then (w, Inr ()) else (w, Inl (SourceTooLong path len)))"
| "probe_overrun path len (Interrupted # es) w = probe_overrun path len es w"
| "probe_overrun path len (ReadFailed io # es) w = (w, Inl (CpioIo io))"

definition write_file ::
    "'w write_op \<Rightarrow> 'w CpioWriter \<Rightarrow> bytes \<Rightarrow> u64 \<Rightarrow> reader \<Rightarrow> CpioFileMeta
      \<Rightarrow> 'w CpioWriter \<times> (CpioError + unit)" where
  "write_file write_all w path len data meta =
     bindS (write_member write_all w path RegularFile meta len) (\<lambda>w _.
     bindS (copy_contents write_all path (unat len) (unat len) data w) (\<lambda>w data.
       probe_overrun path (unat len) data w))"

definition write_entry ::
    "'w write_op \<Rightarrow> 'w CpioWriter \<Rightarrow> CpioEntry \<Rightarrow> 'w CpioWriter \<times> (CpioError + unit)" where
  "write_entry write_all w entry =
     (let meta = \<lparr>cm_mode = ce_mode entry, cm_uid = ce_uid entry, cm_gid = ce_gid entry,
                  cm_mtime = ce_mtime entry\<rparr>
      in case (ce_file_type entry, ce_body entry) of
           (Directory, EmptyBody) \<Rightarrow> write_directory write_all w (ce_path entry) meta
         | (Symlink, LinkTarget target) \<Rightarrow> write_symlink write_all w (ce_path entry) target meta
         | (RegularFile, Contents contents) \<Rightarrow>
             write_file write_all w (ce_path entry) (word_of_nat (length contents)) [Bytes contents] meta
         | (file_type, body) \<Rightarrow> (w, Inl (BodyMismatch (ce_path entry) file_type (body_describe body))))"

definition finish ::
    "'w write_op \<Rightarrow> ('w \<Rightarrow> 'w \<times> (io_error + unit)) \<Rightarrow> 'w CpioWriter
      \<Rightarrow> 'w CpioWriter \<times> (CpioError + unit)" where
  "finish write_all flush w =
     bindS (w, build_header CPIO_TRAILER_PATH 0 \<lparr>cm_mode = 0, cm_uid = 0, cm_gid = 0, cm_mtime = 0\<rparr> 1 0)
       (\<lambda>w header.
     bindS (emit write_all w header) (\<lambda>w _.
     bindS (emit write_all w CPIO_TRAILER_PATH) (\<lambda>w _.
     bindS (emit write_all w [0]) (\<lambda>w _.
       case flush (cw_out w) of
         (out, Inl io) \<Rightarrow> (w\<lparr>cw_out := out\<rparr>, Inl (CpioIo io))
       | (out, Inr u) \<Rightarrow> (w\<lparr>cw_out := out\<rparr>, Inr ())))))"

fun write_entries ::
    "'w write_op \<Rightarrow> 'w CpioWriter \<Rightarrow> CpioEntry list \<Rightarrow> 'w CpioWriter \<times> (CpioError + unit)" where
  "write_entries write_all w [] = (w, Inr ())"
| "write_entries write_all w (e # es) =
     bindS (write_entry write_all w e) (\<lambda>w _. write_entries write_all w es)"

text \<open>\<^verbatim>\<open>Vec<u8>\<close> as a sink: writing appends and never fails.\<close>

definition vec_write :: "bytes \<Rightarrow> bytes \<Rightarrow> bytes \<times> (io_error + unit)" where
  "vec_write out bs = (out @ bs, Inr ())"

definition vec_flush :: "bytes \<Rightarrow> bytes \<times> (io_error + unit)" where
  "vec_flush out = (out, Inr ())"

section \<open>What an extractor reads\<close>

text \<open>
  A reader of the portable ASCII format, as the one in the tests of \<^verbatim>\<open>cpio.rs\<close>: it insists on the
  magic, on octal fields, on the terminating NUL and on nothing after the trailer.
\<close>

definition octal_value :: "bytes \<Rightarrow> nat" where
  "octal_value ds = foldl (\<lambda>n d. 8 * n + unat (d - 0x30)) 0 ds"

definition parse_octal :: "bytes \<Rightarrow> nat option" where
  "parse_octal ds =
     (if list_all (\<lambda>d. 0x30 \<le> d \<and> d \<le> 0x37) ds
      then Some (octal_value ds) else None)"

record ParsedEntry =
  pe_path :: bytes
  pe_ino :: nat
  pe_mode :: nat
  pe_uid :: nat
  pe_gid :: nat
  pe_nlink :: nat
  pe_mtime :: nat
  pe_body :: bytes

definition octal_at :: "bytes \<Rightarrow> nat \<Rightarrow> nat \<Rightarrow> nat option" where
  "octal_at header at width = parse_octal (take width (drop at header))"

definition read_member :: "bytes \<Rightarrow> (ParsedEntry \<times> bytes) option" where
  "read_member bs =
     (if length bs < 76 \<or> take 6 bs \<noteq> CPIO_MAGIC \<or> octal_at bs 6 6 \<noteq> Some 0 \<or> octal_at bs 42 6 \<noteq> Some 0
      then None
      else
        case (octal_at bs 12 6, octal_at bs 18 6, octal_at bs 24 6, octal_at bs 30 6, octal_at bs 36 6,
              octal_at bs 48 11, octal_at bs 59 6, octal_at bs 65 11) of
          (Some ino, Some mode, Some uid, Some gid, Some nlink, Some mtime, Some namesize, Some filesize) \<Rightarrow>
            (let rest = drop 76 bs in
             if namesize = 0 \<or> length rest < namesize + filesize \<or> rest ! (namesize - 1) \<noteq> 0 then None
             else Some (\<lparr>pe_path = take (namesize - 1) rest, pe_ino = ino, pe_mode = mode, pe_uid = uid,
                         pe_gid = gid, pe_nlink = nlink, pe_mtime = mtime,
                         pe_body = take filesize (drop namesize rest)\<rparr>,
                        drop (namesize + filesize) rest))
        | _ \<Rightarrow> None)"

lemma read_member_shrinks: "read_member bs = Some (e, rest) \<Longrightarrow> length rest < length bs"
  by (auto simp: read_member_def Let_def split: if_splits option.splits)

function parse_archive :: "bytes \<Rightarrow> ParsedEntry list option" where
  "parse_archive bs =
     (case read_member bs of
        None \<Rightarrow> None
      | Some (e, rest) \<Rightarrow>
          if pe_path e = CPIO_TRAILER_PATH then if rest = [] then Some [] else None
          else map_option (\<lambda>es. e # es) (parse_archive rest))"
  by pat_completeness auto
termination
  by (relation "measure length") (auto dest: read_member_shrinks)

declare parse_archive.simps [simp del]

text \<open>The member an entry becomes under an inode number.\<close>

fun body_bytes :: "CpioBody \<Rightarrow> bytes" where
  "body_bytes EmptyBody = []"
| "body_bytes (LinkTarget t) = t"
| "body_bytes (Contents c) = c"

definition entry_image :: "nat \<Rightarrow> CpioEntry \<Rightarrow> ParsedEntry" where
  "entry_image ino e =
     \<lparr>pe_path = ce_path e, pe_ino = ino, pe_mode = unat (mode_type_bits (ce_file_type e) OR ce_mode e),
      pe_uid = unat (ce_uid e), pe_gid = unat (ce_gid e), pe_nlink = 1, pe_mtime = unat (ce_mtime e),
      pe_body = body_bytes (ce_body e)\<rparr>"

fun archive_images :: "nat \<Rightarrow> CpioEntry list \<Rightarrow> ParsedEntry list" where
  "archive_images ino [] = []"
| "archive_images ino (e # es) = entry_image ino e # archive_images (Suc ino) es"

text \<open>Which entries the format can hold; lengths are below Rust's allocation limit.\<close>

fun body_matches :: "CpioFileType \<Rightarrow> CpioBody \<Rightarrow> bool" where
  "body_matches Directory EmptyBody \<longleftrightarrow> True"
| "body_matches Symlink (LinkTarget t) \<longleftrightarrow> 0 \<notin> set t"
| "body_matches RegularFile (Contents c) \<longleftrightarrow> True"
| "body_matches _ _ \<longleftrightarrow> False"

definition entry_sized :: "CpioEntry \<Rightarrow> bool" where
  "entry_sized e \<longleftrightarrow> length (ce_path e) < 2 ^ 63 \<and> length (body_bytes (ce_body e)) < 2 ^ 63"

definition entry_fits :: "nat \<Rightarrow> CpioEntry \<Rightarrow> bool" where
  "entry_fits ino e \<longleftrightarrow>
     body_matches (ce_file_type e) (ce_body e) \<and> ce_path e \<noteq> [] \<and> 0 \<notin> set (ce_path e)
     \<and> ce_mode e \<le> MODE_PERMISSION_MASK \<and> ino < 8 ^ 6 \<and> unat (ce_uid e) < 8 ^ 6 \<and> unat (ce_gid e) < 8 ^ 6
     \<and> unat (ce_mtime e) < 8 ^ 11 \<and> Suc (length (ce_path e)) < 8 ^ 6
     \<and> length (body_bytes (ce_body e)) < 8 ^ 11"

section \<open>Octal fields\<close>

definition octal_field :: "nat \<Rightarrow> nat \<Rightarrow> bytes" where
  "octal_field width n = replicate (width - length (octal_digits n)) 0x30 @ octal_digits n"

lemma octal_value_snoc: "octal_value (ds @ [d]) = 8 * octal_value ds + unat (d - 0x30)"
  by (simp add: octal_value_def)

lemma octal_value_single: "octal_value [d] = unat (d - 0x30)"
  by (simp add: octal_value_def)

lemma octal_value_zeros: "octal_value (replicate k 0x30 @ ds) = octal_value ds"
  by (induction k) (simp_all add: octal_value_def)

lemma unat_octal_digit: "n < 8 \<Longrightarrow> unat (word_of_nat n :: 8 word) = n"
  by (simp add: unat_of_nat take_bit_eq_mod)

lemma octal_digits_value: "octal_value (octal_digits n) = n"
proof (induction n rule: octal_digits.induct)
  case (1 n)
  then show ?case
    by (cases "n < 8")
       (simp_all add: octal_digits.simps [of n] octal_value_snoc unat_octal_digit octal_value_single)
qed

lemma octal_digit_range: "n < 8 \<Longrightarrow> 0x30 \<le> (0x30 + word_of_nat n :: 8 word) \<and> (0x30 + word_of_nat n :: 8 word) \<le> 0x37"
  using unat_of_nat [where 'a = 8, of "48 + n"] by (simp add: word_le_nat_alt take_bit_eq_mod)

lemma octal_digits_octal: "list_all (\<lambda>d. 0x30 \<le> d \<and> d \<le> 0x37) (octal_digits n)"
proof (induction n rule: octal_digits.induct)
  case (1 n)
  then show ?case
    by (cases "n < 8") (simp_all add: octal_digits.simps [of n] octal_digit_range)
qed

lemma octal_digits_length: "0 < k \<Longrightarrow> length (octal_digits n) \<le> k \<longleftrightarrow> n < 8 ^ k"
proof (induction n arbitrary: k rule: octal_digits.induct)
  case (1 n)
  show ?case
  proof (cases "n < 8")
    case True
    then have "n < 8 ^ k" using "1.prems" power_increasing [of 1 k "8::nat"] by simp
    with True "1.prems" show ?thesis by (simp add: octal_digits.simps [of n])
  next
    case False
    then have "0 < length (octal_digits (n div 8))" by (simp add: octal_digits.simps [of "n div 8"])
    moreover have "n div 8 < 8 ^ j \<longleftrightarrow> n < 8 ^ Suc j" for j
      by (simp add: div_less_iff_less_mult mult.commute)
    moreover obtain j where "k = Suc j" using "1.prems" by (cases k) simp_all
    ultimately show ?thesis
      using False "1.IH" [of j] by (cases "j = 0") (auto simp: octal_digits.simps [of n])
  qed
qed

lemma length_octal_field: "0 < width \<Longrightarrow> n < 8 ^ width \<Longrightarrow> length (octal_field width n) = width"
  by (simp add: octal_field_def octal_digits_length [THEN iffD2])

lemma parse_octal_field: "parse_octal (octal_field width n) = Some n"
  using octal_digits_octal [of n]
  by (auto simp: parse_octal_def octal_field_def octal_digits_value octal_value_zeros list_all_iff)

lemma push_octal_eq:
  "0 < width \<Longrightarrow> push_octal h field v width =
     (if unat v < 8 ^ width then Inr (h @ octal_field width (unat v)) else Inl (FieldTooLarge field v width))"
  using octal_digits_length [of width "unat v"]
  by (auto simp: push_octal_def octal_field_def Let_def)

section \<open>Headers and members\<close>

definition header_image :: "nat \<Rightarrow> nat \<Rightarrow> nat \<Rightarrow> nat \<Rightarrow> nat \<Rightarrow> nat \<Rightarrow> nat \<Rightarrow> nat \<Rightarrow> bytes" where
  "header_image ino mode uid gid nlink mtime namesize filesize =
     CPIO_MAGIC @ octal_field 6 0 @ octal_field 6 ino @ octal_field 6 mode @ octal_field 6 uid
       @ octal_field 6 gid @ octal_field 6 nlink @ octal_field 6 0 @ octal_field 11 mtime
       @ octal_field 6 namesize @ octal_field 11 filesize"

definition header_fits :: "nat \<Rightarrow> nat \<Rightarrow> nat \<Rightarrow> nat \<Rightarrow> nat \<Rightarrow> nat \<Rightarrow> nat \<Rightarrow> nat \<Rightarrow> bool" where
  "header_fits ino mode uid gid nlink mtime namesize filesize \<longleftrightarrow>
     ino < 8 ^ 6 \<and> mode < 8 ^ 6 \<and> uid < 8 ^ 6 \<and> gid < 8 ^ 6 \<and> nlink < 8 ^ 6 \<and> mtime < 8 ^ 11
     \<and> namesize < 8 ^ 6 \<and> filesize < 8 ^ 11"

lemma position_None: "position P xs = None \<longleftrightarrow> (\<forall>x\<in>set xs. \<not> P x)"
proof -
  have "length (takeWhile (\<lambda>x. \<not> P x) xs) < length xs \<longleftrightarrow> takeWhile (\<lambda>x. \<not> P x) xs \<noteq> xs"
    by (metis length_takeWhile_le nat_less_le takeWhile_eq_take take_all_iff)
  then show ?thesis by (simp add: position_def Let_def takeWhile_eq_all_conv)
qed

lemma position_zero: "position (\<lambda>b. b = 0) xs = Some n \<Longrightarrow> 0 \<in> set xs"
  using position_None [of "\<lambda>b. b = 0" xs] by auto

lemma validate_path_Inr:
  "validate_path path = Inr n \<longleftrightarrow> path \<noteq> [] \<and> 0 \<notin> set path \<and> n = word_of_nat (length path) + 1"
  using position_None [of "\<lambda>b. b = 0" path]
  by (auto simp: validate_path_def split: option.splits)

lemma unat_namesize: "length path < 2 ^ 63 \<Longrightarrow> unat (word_of_nat (length path) + 1 :: u64) = Suc (length path)"
  using unat_of_nat_small [where 'a = 64, of "length path + 1"]
  by (simp add: add.commute [of "1 :: u64"])

lemma unat_length: "length xs < 2 ^ 63 \<Longrightarrow> unat (word_of_nat (length xs) :: u64) = length xs"
  by (simp add: unat_of_nat_small)

lemma unat_ucast_u32: "unat (ucast (x :: u32) :: u64) = unat x"
  using unsigned_less [of x, where 'a = nat] by (simp add: unsigned_ucast_eq take_bit_nat_eq_self)

lemma build_header_Inr:
  "length path < 2 ^ 63 \<Longrightarrow>
   build_header path ino meta nlink filesize = Inr h \<longleftrightarrow>
     path \<noteq> [] \<and> 0 \<notin> set path
     \<and> header_fits (unat ino) (unat (cm_mode meta)) (unat (cm_uid meta)) (unat (cm_gid meta)) (unat nlink)
         (unat (cm_mtime meta)) (Suc (length path)) (unat filesize)
     \<and> h = header_image (unat ino) (unat (cm_mode meta)) (unat (cm_uid meta)) (unat (cm_gid meta)) (unat nlink)
         (unat (cm_mtime meta)) (Suc (length path)) (unat filesize)"
  unfolding build_header_def header_fits_def header_image_def NARROW_FIELD_def WIDE_FIELD_def
  by (auto simp: bindE_eq_Inr push_octal_eq validate_path_Inr unat_ucast_u32 unat_namesize split: if_splits)

lemma header_image_length:
  "header_fits ino mode uid gid nlink mtime namesize filesize \<Longrightarrow>
   length (header_image ino mode uid gid nlink mtime namesize filesize) = CPIO_HEADER_BYTES"
  by (simp add: header_fits_def header_image_def length_octal_field CPIO_MAGIC_def ascii_def CPIO_HEADER_BYTES_def)

lemma header_image_fields:
  assumes fits: "header_fits ino mode uid gid nlink mtime namesize filesize"
    and h: "h = header_image ino mode uid gid nlink mtime namesize filesize"
  shows "take 6 (h @ t) = CPIO_MAGIC" "octal_at (h @ t) 6 6 = Some 0" "octal_at (h @ t) 12 6 = Some ino"
    "octal_at (h @ t) 18 6 = Some mode" "octal_at (h @ t) 24 6 = Some uid" "octal_at (h @ t) 30 6 = Some gid"
    "octal_at (h @ t) 36 6 = Some nlink" "octal_at (h @ t) 42 6 = Some 0" "octal_at (h @ t) 48 11 = Some mtime"
    "octal_at (h @ t) 59 6 = Some namesize" "octal_at (h @ t) 65 11 = Some filesize" "drop 76 (h @ t) = t"
proof -
  have len: "length CPIO_MAGIC = 6" "length (octal_field 6 0) = 6" "length (octal_field 6 ino) = 6"
    "length (octal_field 6 mode) = 6" "length (octal_field 6 uid) = 6" "length (octal_field 6 gid) = 6"
    "length (octal_field 6 nlink) = 6" "length (octal_field 11 mtime) = 11"
    "length (octal_field 6 namesize) = 6" "length (octal_field 11 filesize) = 11"
    using fits by (simp_all add: header_fits_def length_octal_field CPIO_MAGIC_def ascii_def)
  show "take 6 (h @ t) = CPIO_MAGIC" "octal_at (h @ t) 6 6 = Some 0" "octal_at (h @ t) 12 6 = Some ino"
    "octal_at (h @ t) 18 6 = Some mode" "octal_at (h @ t) 24 6 = Some uid" "octal_at (h @ t) 30 6 = Some gid"
    "octal_at (h @ t) 36 6 = Some nlink" "octal_at (h @ t) 42 6 = Some 0" "octal_at (h @ t) 48 11 = Some mtime"
    "octal_at (h @ t) 59 6 = Some namesize" "octal_at (h @ t) 65 11 = Some filesize" "drop 76 (h @ t) = t"
    by (simp_all add: h header_image_def octal_at_def len parse_octal_field)
qed

lemma read_member_image:
  assumes fits: "header_fits ino mode uid gid nlink mtime (Suc (length path)) (length body)"
    and h: "h = header_image ino mode uid gid nlink mtime (Suc (length path)) (length body)"
  shows "read_member (h @ path @ 0 # body @ t) =
    Some (\<lparr>pe_path = path, pe_ino = ino, pe_mode = mode, pe_uid = uid, pe_gid = gid, pe_nlink = nlink,
           pe_mtime = mtime, pe_body = body\<rparr>, t)"
  using header_image_fields [OF fits h, of "path @ 0 # body @ t"] header_image_length [OF fits]
  by (simp add: read_member_def h CPIO_HEADER_BYTES_def)

text \<open>The header of a member, and when there is one.\<close>

definition member_header :: "u64 \<Rightarrow> bytes \<Rightarrow> CpioFileType \<Rightarrow> CpioFileMeta \<Rightarrow> u64 \<Rightarrow> bytes" where
  "member_header ino path t meta filesize =
     header_image (unat ino) (unat (mode_type_bits t OR cm_mode meta)) (unat (cm_uid meta)) (unat (cm_gid meta))
       (unat (link_count t)) (unat (cm_mtime meta)) (Suc (length path)) (unat filesize)"

definition member_fits :: "u64 \<Rightarrow> bytes \<Rightarrow> CpioFileType \<Rightarrow> CpioFileMeta \<Rightarrow> u64 \<Rightarrow> bool" where
  "member_fits ino path t meta filesize \<longleftrightarrow>
     cm_mode meta AND NOT MODE_PERMISSION_MASK = 0 \<and> path \<noteq> [] \<and> 0 \<notin> set path
     \<and> header_fits (unat ino) (unat (mode_type_bits t OR cm_mode meta)) (unat (cm_uid meta)) (unat (cm_gid meta))
         (unat (link_count t)) (unat (cm_mtime meta)) (Suc (length path)) (unat filesize)"

definition entry_meta :: "CpioEntry \<Rightarrow> CpioFileMeta" where
  "entry_meta e = \<lparr>cm_mode = ce_mode e, cm_uid = ce_uid e, cm_gid = ce_gid e, cm_mtime = ce_mtime e\<rparr>"

lemma read_entry_member:
  assumes "member_fits ino (ce_path e) (ce_file_type e) (entry_meta e) filesize"
    and "unat filesize = length (body_bytes (ce_body e))"
  shows "read_member (member_header ino (ce_path e) (ce_file_type e) (entry_meta e) filesize
           @ ce_path e @ 0 # body_bytes (ce_body e) @ t) = Some (entry_image (unat ino) e, t)"
  using read_member_image [OF _ refl] assms
  by (simp add: member_fits_def member_header_def entry_meta_def entry_image_def link_count_def)

section \<open>Writing to a sink\<close>

text \<open>
  What the archive's format relies on in the stream: an accepted write appends exactly its bytes,
  and a flush adds none.
\<close>

locale byte_sink =
  fixes write_all :: "'w write_op"
    and flush :: "'w \<Rightarrow> 'w \<times> (io_error + unit)"
    and contents :: "'w \<Rightarrow> bytes"
  assumes write_appends: "write_all out bs = (out', Inr u) \<Longrightarrow> contents out' = contents out @ bs"
    and flush_keeps: "flush out = (out', Inr u) \<Longrightarrow> contents out' = contents out"
begin

text \<open>\<open>grew w w' bs n\<close>: the writer emitted exactly \<open>bs\<close>, as \<open>n\<close> members.\<close>

definition grew :: "'w CpioWriter \<Rightarrow> 'w CpioWriter \<Rightarrow> bytes \<Rightarrow> nat \<Rightarrow> bool" where
  "grew w w' bs n \<longleftrightarrow> contents (cw_out w') = contents (cw_out w) @ bs
     \<and> bytes_written w' = bytes_written w + word_of_nat (length bs)
     \<and> entries_written w' = entries_written w + word_of_nat n
     \<and> next_inode w' = next_inode w + word_of_nat n"

lemma grew_refl: "grew w w [] 0"
  by (simp add: grew_def)

lemma grew_trans: "grew w w' bs n \<Longrightarrow> grew w' w'' cs m \<Longrightarrow> grew w w'' (bs @ cs) (n + m)"
  by (simp add: grew_def)

lemma emit_grew: "emit write_all w bs = (w', Inr u) \<Longrightarrow> grew w w' bs 0"
  by (auto simp: emit_def grew_def split: prod.splits sum.splits dest: write_appends)

lemma write_member_grew:
  assumes "write_member write_all w path t meta filesize = (w', Inr u)" "length path < 2 ^ 63"
  shows "member_fits (next_inode w) path t meta filesize
    \<and> grew w w' (member_header (next_inode w) path t meta filesize @ path @ [0]) 1"
proof -
  obtain h w1 w2 w3 where mask: "cm_mode meta AND NOT MODE_PERMISSION_MASK = 0"
    and h: "(build_header path (next_inode w) (meta\<lparr>cm_mode := mode_type_bits t OR cm_mode meta\<rparr>) (link_count t) filesize) = Inr h"
    and e: "emit write_all w h = (w1, Inr ())" "emit write_all w1 path = (w2, Inr ())" "emit write_all w2 [0] = (w3, Inr ())"
    and w': "w' = w3\<lparr>next_inode := next_inode w3 + 1, entries_written := entries_written w3 + 1\<rparr>"
    using assms(1) unfolding write_member_def by (simp add: bindS_eq_Inr split: if_splits) blast
  have "grew w w3 (h @ path @ [0]) 0"
    using grew_trans [OF emit_grew [OF e(1)] grew_trans [OF emit_grew [OF e(2)] emit_grew [OF e(3)]]] by simp
  then have "grew w w' (h @ path @ [0]) 1" by (simp add: w' grew_def)
  with mask h show ?thesis
    by (simp add: build_header_Inr [OF assms(2)] member_fits_def member_header_def)
qed

lemma copy_contents_grew:
  "copy_contents write_all path len remaining data w = (w', Inr data') \<Longrightarrow>
   \<exists>bs. grew w w' bs 0 \<and> length bs = remaining \<and> reader_bytes data = bs @ reader_bytes data'"
proof (induction "reader_size data" arbitrary: remaining data w rule: less_induct)
  case less
  obtain data1 e where read: "read_some (min remaining COPY_BUFFER_BYTES) data = (data1, e)" by fastforce
  consider "remaining = 0" | "remaining > 0" "e = Bytes []"
    | "remaining > 0" "reader_size data1 < reader_size data" "e \<noteq> Bytes []"
    using read_some_shrinks [OF read] by (cases "remaining = 0") (auto simp: COPY_BUFFER_BYTES_def)
  then show ?case
  proof cases
    case 3
    show ?thesis
    proof (cases e)
      case (Bytes bs)
      with less.prems 3 read obtain w1 where e1: "emit write_all w bs = (w1, Inr ())"
        and rest: "copy_contents write_all path len (remaining - length bs) data1 w1 = (w', Inr data')"
        by (auto simp: copy_contents.simps [of _ _ _ remaining data] bindS_eq_Inr split: if_splits)
      from less.hyps [OF 3(2) rest] obtain cs where "grew w1 w' cs 0" "length cs = remaining - length bs"
        "reader_bytes data1 = cs @ reader_bytes data'" by blast
      with grew_trans [OF emit_grew [OF e1]] read_some_bytes(1) [OF read [unfolded Bytes]] show ?thesis
        by (intro exI [of _ "bs @ cs"]) fastforce
    next
      case Interrupted
      with less.prems 3 read have "copy_contents write_all path len remaining data1 w = (w', Inr data')"
        by (simp add: copy_contents.simps [of _ _ _ remaining data])
      from less.hyps [OF 3(2) this] read_some_bytes(2) [OF read [unfolded Interrupted]] show ?thesis by simp
    qed (use less.prems 3 read in \<open>simp add: copy_contents.simps [of _ _ _ remaining data]\<close>)
  qed (use less.prems read in \<open>simp_all add: copy_contents.simps [of _ _ _ remaining data] grew_refl\<close>)
qed

lemma probe_overrun_ok:
  "probe_overrun path len data w = (w', Inr u) \<Longrightarrow> w' = w \<and> (\<forall>e\<in>set (takeWhile (\<lambda>e. e \<noteq> Bytes []) data). e = Interrupted)"
  by (induction path len data w rule: probe_overrun.induct) (auto split: if_splits)

lemma write_file_grew:
  assumes "write_file write_all w path len data meta = (w', Inr u)" "length path < 2 ^ 63"
  shows "\<exists>bs rest. member_fits (next_inode w) path RegularFile meta len \<and> length bs = unat len
    \<and> reader_bytes data = bs @ reader_bytes rest
    \<and> (\<forall>e\<in>set (takeWhile (\<lambda>e. e \<noteq> Bytes []) rest). e = Interrupted)
    \<and> grew w w' (member_header (next_inode w) path RegularFile meta len @ path @ [0] @ bs) 1"
proof -
  obtain w1 rest where m: "write_member write_all w path RegularFile meta len = (w1, Inr ())"
    and c: "copy_contents write_all path (unat len) (unat len) data w1 = (w', Inr rest)"
    and p: "probe_overrun path (unat len) rest w' = (w', Inr u)"
    using assms(1) by (auto simp: write_file_def bindS_eq_Inr dest: probe_overrun_ok)
  from copy_contents_grew [OF c] obtain bs where
    g: "grew w1 w' bs 0" and bs: "length bs = unat len" "reader_bytes data = bs @ reader_bytes rest" by blast
  from write_member_grew [OF m assms(2)]
  have fits: "member_fits (next_inode w) path RegularFile meta len"
    and "grew w w1 (member_header (next_inode w) path RegularFile meta len @ path @ [0]) 1" by simp_all
  from grew_trans [OF this(2) g]
  have "grew w w' (member_header (next_inode w) path RegularFile meta len @ path @ [0] @ bs) 1" by simp
  with fits bs probe_overrun_ok [OF p] show ?thesis by blast
qed

lemma write_entry_grew:
  assumes ok: "write_entry write_all w e = (w', Inr u)" and sized: "entry_sized e"
  shows "\<exists>enc. grew w w' enc 1 \<and> (\<forall>t. read_member (enc @ t) = Some (entry_image (unat (next_inode w)) e, t))"
proof -
  have path: "length (ce_path e) < 2 ^ 63" and body: "length (body_bytes (ce_body e)) < 2 ^ 63"
    using sized by (simp_all add: entry_sized_def)
  note member = write_member_grew [where path = "ce_path e" and meta = "entry_meta e", OF _ path]
  have image: ?thesis if "member_fits (next_inode w) (ce_path e) (ce_file_type e) (entry_meta e) n"
    "unat n = length (body_bytes (ce_body e))"
    "grew w w' (member_header (next_inode w) (ce_path e) (ce_file_type e) (entry_meta e) n
        @ ce_path e @ 0 # body_bytes (ce_body e)) 1" for n
    using read_entry_member [OF that(1,2)] that(3) by fastforce
  show ?thesis
  proof (cases "ce_file_type e"; cases "ce_body e")
    assume t: "ce_file_type e = Directory" "ce_body e = EmptyBody"
    with ok have "write_member write_all w (ce_path e) Directory (entry_meta e) 0 = (w', Inr u)"
      by (simp add: write_entry_def write_directory_def entry_meta_def)
    from member [OF this] show ?thesis by (intro image [of 0]) (simp_all add: t)
  next
    fix target
    assume t: "ce_file_type e = Symlink" "ce_body e = LinkTarget target"
    with ok obtain w1 where
      m: "write_member write_all w (ce_path e) Symlink (entry_meta e) (word_of_nat (length target)) = (w1, Inr ())"
      and em: "emit write_all w1 target = (w', Inr u)"
      by (auto simp: write_entry_def write_symlink_def entry_meta_def bindS_eq_Inr split: option.splits)
    have "unat (word_of_nat (length target) :: u64) = length target"
      using body t by (intro unat_length) simp
    with member [OF m] grew_trans [OF conjunct2 [OF member [OF m]] emit_grew [OF em]] show ?thesis
      by (intro image [of "word_of_nat (length target)"]) (simp_all add: t)
  next
    fix c
    assume t: "ce_file_type e = RegularFile" "ce_body e = Contents c"
    with ok have f: "write_file write_all w (ce_path e) (word_of_nat (length c)) [Bytes c] (entry_meta e) = (w', Inr u)"
      by (simp add: write_entry_def entry_meta_def)
    have n: "unat (word_of_nat (length c) :: u64) = length c"
      using body t by (intro unat_length) simp
    from write_file_grew [OF f path] obtain bs where
      "member_fits (next_inode w) (ce_path e) RegularFile (entry_meta e) (word_of_nat (length c))"
      and bs: "length bs = length c" "\<exists>rest :: reader. c = bs @ reader_bytes rest"
      and g: "grew w w' (member_header (next_inode w) (ce_path e) RegularFile (entry_meta e) (word_of_nat (length c))
        @ ce_path e @ [0] @ bs) 1"
      unfolding n by (auto simp: reader_bytes_def)
    moreover have "bs = c" using bs by auto
    ultimately show ?thesis by (intro image [of "word_of_nat (length c)"]) (simp_all add: t n)
  qed (use ok in \<open>simp_all add: write_entry_def\<close>)
qed

lemma write_entries_grew:
  assumes "write_entries write_all w es = (w', Inr u)" "\<forall>e\<in>set es. entry_sized e \<and> ce_path e \<noteq> CPIO_TRAILER_PATH"
    "unat (next_inode w) + length es < 2 ^ 64"
  shows "\<exists>enc. grew w w' enc (length es)
    \<and> (\<forall>t. parse_archive (enc @ t) = map_option (\<lambda>ms. archive_images (unat (next_inode w)) es @ ms) (parse_archive t))"
  using assms
proof (induction es arbitrary: w)
  case Nil
  then show ?case by (auto simp: option.map_ident intro!: exI [of _ "[]"] grew_refl)
next
  case (Cons e es)
  then obtain w1 where e: "write_entry write_all w e = (w1, Inr ())"
    and es: "write_entries write_all w1 es = (w', Inr u)" by (auto simp: bindS_eq_Inr)
  from write_entry_grew [OF e] Cons.prems obtain enc where g: "grew w w1 enc 1"
    and r: "\<And>t. read_member (enc @ t) = Some (entry_image (unat (next_inode w)) e, t)" by auto
  have ino: "unat (next_inode w1) = Suc (unat (next_inode w))"
    using g Cons.prems(3) unat_add_lem [of "next_inode w" 1] by (simp add: grew_def)
  with Cons.IH [OF es] Cons.prems obtain enc' where g': "grew w1 w' enc' (length es)"
    and p: "\<And>t. parse_archive (enc' @ t)
      = map_option (\<lambda>ms. archive_images (Suc (unat (next_inode w))) es @ ms) (parse_archive t)" by auto
  have "parse_archive (enc @ enc' @ t)
      = map_option (\<lambda>ms. archive_images (unat (next_inode w)) (e # es) @ ms) (parse_archive t)" for t
    using Cons.prems(2) by (simp add: parse_archive.simps [of "enc @ enc' @ t"] r p option.map_comp comp_def entry_image_def)
  with grew_trans [OF g g'] show ?case by (intro exI [of _ "enc @ enc'"]) simp
qed

lemma finish_grew:
  assumes "finish write_all flush w = (w', Inr u)"
  shows "\<exists>enc. grew w w' enc 0 \<and> parse_archive enc = Some []"
proof -
  define meta where "meta = \<lparr>cm_mode = 0, cm_uid = 0, cm_gid = 0, cm_mtime = 0 :: u64\<rparr>"
  have len: "length CPIO_TRAILER_PATH < 2 ^ 63" by (simp add: CPIO_TRAILER_PATH_def ascii_def)
  obtain h w1 w2 w3 where
    h: "(build_header CPIO_TRAILER_PATH 0 meta 1 0 :: CpioError + bytes) = Inr h"
    and e: "emit write_all w h = (w1, Inr ())" "emit write_all w1 CPIO_TRAILER_PATH = (w2, Inr ())"
      "emit write_all w2 [0] = (w3, Inr ())"
    and f: "(case flush (cw_out w3) of (out, Inl io) \<Rightarrow> (w3\<lparr>cw_out := out\<rparr>, Inl (CpioIo io))
       | (out, Inr u) \<Rightarrow> (w3\<lparr>cw_out := out\<rparr>, Inr ())) = (w', Inr u)"
    using assms unfolding finish_def meta_def [symmetric] by (simp add: bindS_eq_Inr) blast
  have "grew w w3 (h @ CPIO_TRAILER_PATH @ [0]) 0"
    using grew_trans [OF emit_grew [OF e(1)] grew_trans [OF emit_grew [OF e(2)] emit_grew [OF e(3)]]] by simp
  then have "grew w w' (h @ CPIO_TRAILER_PATH @ [0]) 0"
    using f by (auto simp: grew_def split: prod.splits sum.splits dest: flush_keeps)
  moreover have "read_member (h @ CPIO_TRAILER_PATH @ 0 # [] @ []) =
    Some (\<lparr>pe_path = CPIO_TRAILER_PATH, pe_ino = 0, pe_mode = 0, pe_uid = 0, pe_gid = 0, pe_nlink = 1,
           pe_mtime = 0, pe_body = []\<rparr>, [])"
    using h by (intro read_member_image) (simp_all add: build_header_Inr [OF len] meta_def)
  ultimately show ?thesis by (intro exI [of _ "h @ CPIO_TRAILER_PATH @ [0]"]) (simp add: parse_archive.simps)
qed

lemma archive_grew:
  assumes "write_entries write_all (CpioWriter_new out) es = (w, Inr ())" "finish write_all flush w = (w', Inr ())"
    "\<forall>e\<in>set es. entry_sized e \<and> ce_path e \<noteq> CPIO_TRAILER_PATH" "length es < 2 ^ 63"
  shows "\<exists>enc. grew (CpioWriter_new out) w' enc (length es) \<and> parse_archive enc = Some (archive_images 1 es)"
proof -
  have "unat (next_inode (CpioWriter_new out)) = 1" by (simp add: CpioWriter_new_def)
  with write_entries_grew [OF assms(1,3)] assms(4) obtain enc where g: "grew (CpioWriter_new out) w enc (length es)"
    and p: "\<And>t. parse_archive (enc @ t) = map_option (\<lambda>ms. archive_images 1 es @ ms) (parse_archive t)" by auto
  from finish_grew [OF assms(2)] obtain fin where "grew w w' fin 0" "parse_archive fin = Some []" by blast
  with grew_trans [OF g] p show ?thesis by (intro exI [of _ "enc @ fin"]) fastforce
qed

end

interpretation vec_sink: byte_sink vec_write vec_flush "\<lambda>out. out"
  by unfold_locales (simp_all add: vec_write_def vec_flush_def)

section \<open>Archives in memory\<close>

lemma emit_vec:
  "emit vec_write w bs
    = (w\<lparr>cw_out := cw_out w @ bs, bytes_written := bytes_written w + word_of_nat (length bs)\<rparr>, Inr ())"
  by (simp add: emit_def vec_write_def)

lemma write_member_vec:
  assumes "length path < 2 ^ 63"
  shows "case write_member vec_write w path t meta n of
      (w', Inl err) \<Rightarrow> w' = w \<and> \<not> member_fits (next_inode w) path t meta n
    | (w', Inr u) \<Rightarrow> member_fits (next_inode w) path t meta n"
  using build_header_Inr [OF assms, of "next_inode w" "meta\<lparr>cm_mode := mode_type_bits t OR cm_mode meta\<rparr>" "link_count t" n]
  by (cases "build_header path (next_inode w) (meta\<lparr>cm_mode := mode_type_bits t OR cm_mode meta\<rparr>) (link_count t) n")
     (auto simp: write_member_def member_fits_def emit_vec)

lemma copy_contents_vec:
  "\<exists>w' d. copy_contents vec_write path len (length c) [Bytes c] w = (w', Inr d) \<and> (d = [] \<or> d = [Bytes []])"
proof (induction "length c" arbitrary: c w rule: less_induct)
  case less
  note step = copy_contents.simps [of vec_write path len "length c" "[Bytes c]" w]
  consider "c = []" | "c \<noteq> []" "length c \<le> COPY_BUFFER_BYTES" | "COPY_BUFFER_BYTES < length c" by linarith
  then show ?case
  proof cases
    case 3
    have pos: "0 < COPY_BUFFER_BYTES" by (simp add: COPY_BUFFER_BYTES_def)
    with 3 have "length (drop COPY_BUFFER_BYTES c) < length c" by simp
    from less [OF this] 3 pos show ?thesis
      by (subst step) (auto simp: emit_vec min_absorb2)
  qed (simp, subst step, simp add: emit_vec)
qed

lemma mode_masked: "m AND NOT MODE_PERMISSION_MASK = 0 \<longleftrightarrow> m \<le> MODE_PERMISSION_MASK"
proof -
  have mask: "MODE_PERMISSION_MASK = mask 12" by (simp add: MODE_PERMISSION_MASK_def mask_eq_exp_minus_1)
  have "m AND NOT (mask 12) = 0 \<longleftrightarrow> take_bit 12 m = m"
    by (auto simp: bit_eq_iff bit_simps)
  also have "\<dots> \<longleftrightarrow> unat m \<le> 4095" by (auto simp: take_bit_eq_self_iff_less)
  finally show ?thesis by (simp add: mask) (simp add: mask_eq_exp_minus_1 word_le_nat_alt)
qed

lemma mode_fits:
  assumes "m \<le> MODE_PERMISSION_MASK"
  shows "unat (mode_type_bits t OR m) < 8 ^ 6"
proof -
  have "take_bit 16 m = m"
    using assms by (simp add: take_bit_eq_self_iff_less MODE_PERMISSION_MASK_def word_le_nat_alt)
  moreover have "take_bit 16 (mode_type_bits t) = mode_type_bits t"
    by (cases t) (simp_all add: MODE_TYPE_DIRECTORY_def MODE_TYPE_REGULAR_def MODE_TYPE_SYMLINK_def)
  ultimately have "take_bit 16 (mode_type_bits t OR m) = mode_type_bits t OR m" by simp
  then have "unat (mode_type_bits t OR m) < 2 ^ 16" by (simp only: take_bit_eq_self_iff_less)
  then show ?thesis by simp
qed

lemma write_file_vec:
  assumes "length path < 2 ^ 63" "length c < 2 ^ 63"
  shows "case write_file vec_write w path (word_of_nat (length c)) [Bytes c] meta of
      (w', Inl err) \<Rightarrow> w' = w \<and> \<not> member_fits (next_inode w) path RegularFile meta (word_of_nat (length c))
    | (w', Inr u) \<Rightarrow> member_fits (next_inode w) path RegularFile meta (word_of_nat (length c))"
proof (cases "write_member vec_write w path RegularFile meta (word_of_nat (length c)) :: _ \<times> (CpioError + unit)")
  case (Pair w1 r)
  obtain w2 d where "copy_contents vec_write path (length c) (length c) [Bytes c] w1 = (w2, Inr d :: CpioError + reader)"
    "d = [] \<or> d = [Bytes []]" using copy_contents_vec by blast
  with Pair write_member_vec [OF assms(1), of w RegularFile meta "word_of_nat (length c)"] show ?thesis
    by (cases r) (auto simp: write_file_def unat_length [OF assms(2)] split: sum.splits)
qed

lemma entry_fits_member:
  assumes "entry_sized e"
  shows "entry_fits (unat ino) e \<longleftrightarrow> body_matches (ce_file_type e) (ce_body e)
    \<and> member_fits ino (ce_path e) (ce_file_type e) (entry_meta e) (declared_size (ce_body e))"
proof -
  have "unat (declared_size (ce_body e)) = length (body_bytes (ce_body e))"
    using assms by (cases "ce_body e") (simp_all add: entry_sized_def unat_length)
  with mode_fits [of "ce_mode e" "ce_file_type e"] show ?thesis
    by (auto simp: entry_fits_def member_fits_def header_fits_def entry_meta_def mode_masked link_count_def)
qed

section \<open>Properties\<close>


definition ex_entries :: "CpioEntry list" where
  "ex_entries = [entry_directory (ascii ''etc'') 0x1ed 0 0 7,
                 entry_symlink (ascii ''tmp'') (ascii ''var/tmp'') 0x1ed 0 0 8,
                 entry_regular_file (ascii ''etc/rc'') [1, 2, 3] 0x1a4 0x1f5 0x14 9]"

lemma ex_entries_sized: "\<forall>e\<in>set ex_entries. entry_sized e \<and> ce_path e \<noteq> CPIO_TRAILER_PATH"
  by (simp add: ex_entries_def entry_directory_def entry_symlink_def entry_regular_file_def entry_sized_def
      CPIO_TRAILER_PATH_def ascii_def)


text \<open>
  Claim C30. An entry is accepted exactly when the format can hold it: its body is of its type, its path
  is not empty, neither path nor link target holds a NUL, its mode is within the permission mask and every
  number fits the octal digits of its field. A refused entry leaves the archive and the counters as they
  were.
\<close>

theorem cpio_entry_accepted_or_untouched:
  assumes "entry_sized e"
  shows "case write_entry vec_write w e of
      (w', Inl err) \<Rightarrow> w' = w \<and> \<not> entry_fits (unat (next_inode w)) e
    | (w', Inr u) \<Rightarrow> entry_fits (unat (next_inode w)) e"
proof -
  have len: "length (ce_path e) < 2 ^ 63" "length (body_bytes (ce_body e)) < 2 ^ 63"
    using assms by (simp_all add: entry_sized_def)
  note defs = write_entry_def entry_fits_member [OF assms] entry_meta_def [symmetric]
    write_directory_def write_symlink_def emit_vec position_None
  show ?thesis
    using write_member_vec [OF len(1), of w "ce_file_type e" "entry_meta e" "declared_size (ce_body e)"]
      write_file_vec [OF len(1), of "body_bytes (ce_body e)" w "entry_meta e"] len(2)
    by (cases "ce_file_type e"; cases "ce_body e") (auto simp: defs bindS_def split: prod.splits sum.splits option.splits dest: position_zero)
qed

theorem cpio_entry_accepted_or_untouched_witness:
  "write_entry vec_write (CpioWriter_new []) (entry_symlink (ascii ''tmp'') [0x76, 0] 0x1ed 0 0 8)
     = (CpioWriter_new [], Inl (NulInLinkTarget (ascii ''tmp'') [0x76, 0] 1))
   \<and> \<not> entry_fits 1 (entry_symlink (ascii ''tmp'') [0x76, 0] 0x1ed 0 0 8)"
proof -
  have "write_entry vec_write (CpioWriter_new []) (entry_symlink (ascii ''tmp'') [0x76, 0] 0x1ed 0 0 8)
     = (CpioWriter_new [], Inl (NulInLinkTarget (ascii ''tmp'') [0x76, 0] 1))"
    by (simp add: write_entry_def entry_symlink_def write_symlink_def position_def)
  moreover have "entry_sized (entry_symlink (ascii ''tmp'') [0x76, 0] 0x1ed 0 0 8)"
    by (simp add: entry_sized_def entry_symlink_def ascii_def)
  ultimately show ?thesis
    using cpio_entry_accepted_or_untouched
      [of "entry_symlink (ascii ''tmp'') [0x76, 0] 0x1ed 0 0 8" "CpioWriter_new []"]
    by (simp add: CpioWriter_new_def)
qed

text \<open>
  Claim C31. Streaming a file: whatever sizes its source's reads come in and however often they are
  interrupted, a successful \<^verbatim>\<open>write_file\<close> emits the header, the path and exactly the declared number of
  bytes, which are the first ones of the source, and the source had no byte after them.
\<close>

theorem cpio_file_is_declared_length:
  assumes "write_file vec_write w path len data meta = (w', Inr ())" and "length path < 2 ^ 63"
  shows "\<exists>bs rest. cw_out w' = cw_out w @ member_header (next_inode w) path RegularFile meta len @ path @ [0] @ bs
    \<and> length bs = unat len \<and> reader_bytes data = bs @ reader_bytes rest
    \<and> list_all (\<lambda>e. e = Interrupted) (takeWhile (\<lambda>e. e \<noteq> Bytes []) rest)
    \<and> entries_written w' = entries_written w + 1"
  using vec_sink.write_file_grew [OF assms] unfolding vec_sink.grew_def list_all_iff by auto

theorem cpio_file_is_declared_length_witness:
  "\<exists>w' bs rest. write_file vec_write (CpioWriter_new []) [0x61] 3 [Bytes [1], Interrupted, Bytes [2, 3]]
     \<lparr>cm_mode = 0x1a4, cm_uid = 0, cm_gid = 0, cm_mtime = 0\<rparr> = (w', Inr ())
   \<and> length bs = 3 \<and> reader_bytes [Bytes [1], Interrupted, Bytes [2, 3]] = bs @ reader_bytes rest"
proof -
  define meta where "meta = \<lparr>cm_mode = 0x1a4, cm_uid = 0, cm_gid = 0, cm_mtime = 0 :: u64\<rparr>"
  define r where "r = write_file vec_write (CpioWriter_new []) [0x61] 3 [Bytes [1], Interrupted, Bytes [2, 3]] meta"
  have "snd r = Inr ()" unfolding r_def meta_def by code_simp
  then have ok: "write_file vec_write (CpioWriter_new []) [0x61] 3 [Bytes [1], Interrupted, Bytes [2, 3]] meta
    = (fst r, Inr ())" by (simp add: r_def prod_eq_iff)
  from cpio_file_is_declared_length [OF ok] obtain bs rest where
    "length bs = 3" "reader_bytes [Bytes [1], Interrupted, Bytes [2, 3]] = bs @ reader_bytes rest" by auto
  with ok show ?thesis unfolding meta_def by blast
qed

text \<open>
  Nothing keeps an entry from being called \<^verbatim>\<open>TRAILER!!!\<close>: it is written like any other, and an
  extractor takes it for the end of the archive, with bytes left over.
\<close>

lemma cpio_trailer_name_ends_archive:
  assumes "write_entry vec_write (CpioWriter_new []) e = (w, Inr ())" "finish vec_write vec_flush w = (w', Inr ())"
    and "entry_sized e" "ce_path e = CPIO_TRAILER_PATH"
  shows "parse_archive (cw_out w') = None"
proof -
  from vec_sink.write_entry_grew [OF assms(1,3)] obtain enc where "cw_out w = enc"
    and r: "\<And>t. read_member (enc @ t) = Some (entry_image 1 e, t)"
    by (auto simp: vec_sink.grew_def CpioWriter_new_def)
  with vec_sink.finish_grew [OF assms(2)] obtain fin where out: "cw_out w' = enc @ fin" and fin: "parse_archive fin = Some []"
    by (auto simp: vec_sink.grew_def)
  have "parse_archive [] = None" by (simp add: parse_archive.simps [of "[]"] read_member_def [of "[]"])
  with fin have "fin \<noteq> []" by auto
  with assms(4) show ?thesis by (simp add: out parse_archive.simps [of "enc @ fin"] r entry_image_def)
qed

end
