(* ===== verification/Stream_Parser.thy ===== *)
theory Stream_Parser imports Prelude begin

text \<open>
  Cutting a byte stream into frames. A parser looks at the bytes received so far and asks for more,
  refuses them, or returns a frame and the number of bytes it takes. The locale holds the laws that
  make the frames independent of how the stream was cut into reads.
\<close>

locale stream_parser =
  fixes next_frame :: "bytes \<Rightarrow> 'e + ('f \<times> nat) option"
  assumes progress: "next_frame bs = Inr (Some (f, n)) \<Longrightarrow> 0 < n \<and> n \<le> length bs"
    and stable_frame: "next_frame bs = Inr (Some (f, n)) \<Longrightarrow> next_frame (bs @ more) = Inr (Some (f, n))"
    and stable_error: "next_frame bs = Inl e \<Longrightarrow> next_frame (bs @ more) = Inl e"
begin

text \<open>The frames of a byte string, what is left, and the error that stopped it, if one did.\<close>

inductive parses :: "bytes \<Rightarrow> 'f list \<Rightarrow> bytes \<Rightarrow> 'e option \<Rightarrow> bool" where
  more: "next_frame bs = Inr None \<Longrightarrow> parses bs [] bs None"
| refuse: "next_frame bs = Inl e \<Longrightarrow> parses bs [] bs (Some e)"
| frame: "next_frame bs = Inr (Some (f, n)) \<Longrightarrow> parses (drop n bs) fs rest e \<Longrightarrow> parses bs (f # fs) rest e"

lemma parses_total: "\<exists>fs rest e. parses bs fs rest e"
proof (induction "length bs" arbitrary: bs rule: less_induct)
  case less
  consider "next_frame bs = Inr None" | e where "next_frame bs = Inl e" | f n where "next_frame bs = Inr (Some (f, n))"
    by (metis not_None_eq old.sum.exhaust surj_pair)
  then show ?case
  proof cases
    case 3
    with progress have "length (drop n bs) < length bs" by fastforce
    from less [OF this] 3 show ?thesis by (blast intro: frame)
  qed (blast intro: more refuse)+
qed

lemma parses_unique: "parses bs fs rest e \<Longrightarrow> parses bs fs' rest' e' \<Longrightarrow> fs' = fs \<and> rest' = rest \<and> e' = e"
proof (induction arbitrary: fs' rule: parses.induct)
  case (more bs)
  from more.prems more.hyps show ?case by cases simp_all
next
  case (refuse bs e)
  from refuse.prems refuse.hyps show ?case by cases simp_all
next
  case (frame bs f n fs rest e)
  from frame.prems frame.hyps(1) obtain gs where "fs' = f # gs" "parses (drop n bs) gs rest' e'" by cases auto
  with frame.IH show ?case by simp
qed

lemma parses_rest: "parses bs fs rest None \<Longrightarrow> next_frame rest = Inr None"
  by (induction bs fs rest "None :: 'e option" rule: parses.induct) simp_all

text \<open>Bytes that arrive later are parsed after what the earlier ones left.\<close>

lemma parses_append:
  "parses bs fs rest None \<Longrightarrow> parses (rest @ more) gs rest' e \<Longrightarrow> parses (bs @ more) (fs @ gs) rest' e"
proof (induction bs fs rest "None :: 'e option" rule: parses.induct)
  case (frame bs f n fs rest)
  from frame.hyps(1) have "next_frame (bs @ more) = Inr (Some (f, n))" by (rule stable_frame)
  moreover have "n \<le> length bs" using progress [OF frame.hyps(1)] by simp
  ultimately show ?case using frame by (auto intro: parses.frame)
qed simp_all

lemma parses_append_error: "parses bs fs rest (Some e) \<Longrightarrow> parses (bs @ more) fs (rest @ more) (Some e)"
proof (induction bs fs rest "Some e" rule: parses.induct)
  case (refuse bs)
  then show ?case by (intro parses.refuse stable_error)
next
  case (frame bs f n fs rest)
  from frame.hyps(1) have "next_frame (bs @ more) = Inr (Some (f, n))" by (rule stable_frame)
  moreover have "n \<le> length bs" using progress [OF frame.hyps(1)] by simp
  ultimately show ?case using frame by (auto intro: parses.frame)
qed

end

end
