(* ===== verification/Bridge_Record.thy ===== *)
theory Bridge_Record imports Stream_Parser begin

text \<open>
  The record layer of the restore bridge (\<^verbatim>\<open>bridge_protocol.rs\<close>): record kinds, headers and the
  assembler that cuts the byte stream of a connection into records. A size that is only compared
  is an integer; an error carries the text of the message without the values formatted into it.
\<close>

section \<open>Records\<close>

definition MAGIC :: bytes where "MAGIC = ascii ''RBRG''"
definition VERSION :: u16 where "VERSION = 1"
definition HEADER_LEN :: nat where "HEADER_LEN = 40"
definition MAX_JSON_BYTES :: int where "MAX_JSON_BYTES = 64 * 1024"
definition MAX_PACKET_BYTES :: int where "MAX_PACKET_BYTES = 0x8000"
definition MAX_TRANSFER_BYTES :: int where "MAX_TRANSFER_BYTES = 0x7ffc"
definition MAX_BOOT_CONTEXT_BYTES :: int where "MAX_BOOT_CONTEXT_BYTES = 4 * 1024 * 1024"
definition MAX_SIGNED_BODY_BYTES :: int where "MAX_SIGNED_BODY_BYTES = 4 * 1024 * 1024"

datatype BridgeError = InvalidInput string | InvalidData string

datatype RecordKind =
    Hello | ServerHello | List | Device | ListEnd | Watch | Claim
  | Claimed | PacketToDevice | PacketFromDevice | Credit | Stats | Gone | Detach
  | Detached | Ping | Pong | Error | GetBootContext | BootContext | SignFdrManifest
  | FdrManifestSignature | GetApNonce | ApNonce | GetSepNonce | SepNonce | GetSignerPublicKey | SignerPublicKey

definition from_wire :: "u16 \<Rightarrow> BridgeError + RecordKind" where
  "from_wire v =
     (if v = 1 then Inr Hello
      else if v = 2 then Inr ServerHello
      else if v = 3 then Inr List
      else if v = 4 then Inr Device
      else if v = 5 then Inr ListEnd
      else if v = 6 then Inr Watch
      else if v = 7 then Inr Claim
      else if v = 8 then Inr Claimed
      else if v = 9 then Inr PacketToDevice
      else if v = 10 then Inr PacketFromDevice
      else if v = 11 then Inr Credit
      else if v = 12 then Inr Stats
      else if v = 13 then Inr Gone
      else if v = 14 then Inr Detach
      else if v = 15 then Inr Detached
      else if v = 16 then Inr Ping
      else if v = 17 then Inr Pong
      else if v = 18 then Inr Error
      else if v = 19 then Inr GetBootContext
      else if v = 20 then Inr BootContext
      else if v = 21 then Inr SignFdrManifest
      else if v = 22 then Inr FdrManifestSignature
      else if v = 23 then Inr GetApNonce
      else if v = 24 then Inr ApNonce
      else if v = 25 then Inr GetSepNonce
      else if v = 26 then Inr SepNonce
      else if v = 27 then Inr GetSignerPublicKey
      else if v = 28 then Inr SignerPublicKey
      else Inl (InvalidData ''unknown Restore Bridge v1 record kind''))"

fun wire_value :: "RecordKind \<Rightarrow> u16" where
  "wire_value Hello = 1"
| "wire_value ServerHello = 2"
| "wire_value List = 3"
| "wire_value Device = 4"
| "wire_value ListEnd = 5"
| "wire_value Watch = 6"
| "wire_value Claim = 7"
| "wire_value Claimed = 8"
| "wire_value PacketToDevice = 9"
| "wire_value PacketFromDevice = 10"
| "wire_value Credit = 11"
| "wire_value Stats = 12"
| "wire_value Gone = 13"
| "wire_value Detach = 14"
| "wire_value Detached = 15"
| "wire_value Ping = 16"
| "wire_value Pong = 17"
| "wire_value Error = 18"
| "wire_value GetBootContext = 19"
| "wire_value BootContext = 20"
| "wire_value SignFdrManifest = 21"
| "wire_value FdrManifestSignature = 22"
| "wire_value GetApNonce = 23"
| "wire_value ApNonce = 24"
| "wire_value GetSepNonce = 25"
| "wire_value SepNonce = 26"
| "wire_value GetSignerPublicKey = 27"
| "wire_value SignerPublicKey = 28"

fun payload_limit :: "RecordKind \<Rightarrow> int" where
  "payload_limit Hello = MAX_JSON_BYTES"
| "payload_limit ServerHello = MAX_JSON_BYTES"
| "payload_limit List = 0"
| "payload_limit Device = MAX_JSON_BYTES"
| "payload_limit ListEnd = MAX_JSON_BYTES"
| "payload_limit Watch = MAX_JSON_BYTES"
| "payload_limit Claim = MAX_JSON_BYTES"
| "payload_limit Claimed = MAX_JSON_BYTES"
| "payload_limit PacketToDevice = MAX_PACKET_BYTES"
| "payload_limit PacketFromDevice = MAX_TRANSFER_BYTES"
| "payload_limit Credit = 8"
| "payload_limit Stats = 64"
| "payload_limit Gone = MAX_JSON_BYTES"
| "payload_limit Detach = MAX_JSON_BYTES"
| "payload_limit Detached = MAX_JSON_BYTES"
| "payload_limit Ping = 8"
| "payload_limit Pong = 8"
| "payload_limit Error = MAX_JSON_BYTES"
| "payload_limit GetBootContext = 0"
| "payload_limit BootContext = MAX_BOOT_CONTEXT_BYTES"
| "payload_limit SignFdrManifest = MAX_SIGNED_BODY_BYTES + 8"
| "payload_limit FdrManifestSignature = 185"
| "payload_limit GetApNonce = 0"
| "payload_limit ApNonce = 32"
| "payload_limit GetSepNonce = 0"
| "payload_limit SepNonce = 20"
| "payload_limit GetSignerPublicKey = 0"
| "payload_limit SignerPublicKey = 65"

record RecordHeader =
  rh_version :: u16
  rh_kind :: RecordKind
  rh_flags :: u32
  rh_payload_len :: u32
  rh_request_id :: u64
  rh_generation :: u64
  rh_lease_id :: u64

definition header_encode :: "RecordHeader \<Rightarrow> bytes \<Rightarrow> bytes" where
  "header_encode h out =
     out @ MAGIC @ be16 (rh_version h) @ be16 (wire_value (rh_kind h)) @ be32 (rh_flags h)
       @ be32 (rh_payload_len h) @ be64 (rh_request_id h) @ be64 (rh_generation h) @ be64 (rh_lease_id h)"

definition header_decode :: "bytes \<Rightarrow> BridgeError + RecordHeader" where
  "header_decode bs =
     (if length bs \<noteq> HEADER_LEN then Inl (InvalidData ''Restore Bridge v1 header length'')
      else if subslice bs 0 4 \<noteq> MAGIC then Inl (InvalidData ''Restore Bridge v1 magic mismatch'')
      else
        let version = from_be16 (subslice bs 4 6)
        in if version \<noteq> VERSION then Inl (InvalidData ''unsupported Restore Bridge version'')
           else
             bindE (from_wire (from_be16 (subslice bs 6 8))) (\<lambda>kind.
               let flags = from_be32 (subslice bs 8 12)
               in if flags \<noteq> 0 then Inl (InvalidData ''Restore Bridge v1 flags must be zero'')
                  else Inr \<lparr>rh_version = version, rh_kind = kind, rh_flags = flags,
                    rh_payload_len = from_be32 (subslice bs 12 16),
                    rh_request_id = from_be64 (subslice bs 16 24),
                    rh_generation = from_be64 (subslice bs 24 32),
                    rh_lease_id = from_be64 (subslice bs 32 40)\<rparr>))"

record RawRecord =
  rr_header :: RecordHeader
  rr_payload :: bytes

section \<open>The assembler\<close>

record FrameAssembler =
  fa_buffer :: bytes
  fa_consumed :: nat

definition FrameAssembler_default :: FrameAssembler where
  "FrameAssembler_default = \<lparr>fa_buffer = [], fa_consumed = 0\<rparr>"

definition compact :: "FrameAssembler \<Rightarrow> FrameAssembler" where
  "compact fa =
     (if fa_consumed fa = 0 then fa
      else if fa_consumed fa = length (fa_buffer fa) then \<lparr>fa_buffer = [], fa_consumed = 0\<rparr>
      else if int (fa_consumed fa) \<ge> 4096 \<or> fa_consumed fa * 2 \<ge> length (fa_buffer fa)
      then \<lparr>fa_buffer = drop (fa_consumed fa) (fa_buffer fa), fa_consumed = 0\<rparr>
      else fa)"

definition try_take :: "FrameAssembler \<Rightarrow> FrameAssembler \<times> (BridgeError + RawRecord option)" where
  "try_take fa =
     (let available = drop (fa_consumed fa) (fa_buffer fa)
      in if length available < HEADER_LEN then (fa, Inr None)
         else
           case header_decode (subslice available 0 HEADER_LEN) of
             Inl e \<Rightarrow> (fa, Inl e)
           | Inr header \<Rightarrow>
               let payload_len = uint (rh_payload_len header)
               in if rh_kind header = ApNonce \<and> payload_len \<noteq> 32
                  then (fa, Inl (InvalidData ''AP_NONCE payload must be exactly 32 bytes''))
                  else if rh_kind header = SepNonce \<and> payload_len \<noteq> 20
                  then (fa, Inl (InvalidData ''SEP_NONCE payload must be exactly 20 bytes''))
                  else if payload_len > payload_limit (rh_kind header)
                  then (fa, Inl (InvalidData ''payload exceeds limit''))
                  else
                    let total = HEADER_LEN + nat payload_len
                    in if length available < total then (fa, Inr None)
                       else (compact (fa\<lparr>fa_consumed := fa_consumed fa + total\<rparr>),
                             Inr (Some \<lparr>rr_header = header, rr_payload = subslice available HEADER_LEN total\<rparr>)))"

definition pending :: "FrameAssembler \<Rightarrow> bytes" where
  "pending fa = drop (fa_consumed fa) (fa_buffer fa)"

lemma pending_compact: "pending (compact fa) = pending fa"
  by (simp add: compact_def pending_def)

lemma try_take_shrinks: "try_take fa = (fa', Inr (Some r)) \<Longrightarrow> length (pending fa') < length (pending fa)"
  by (auto simp: try_take_def Let_def pending_compact split: if_splits sum.splits)
     (auto simp: pending_def HEADER_LEN_def)

text \<open>
  The loop of \<^verbatim>\<open>push\<close>; an error ends it and the records taken before it in the same call are
  dropped with the vector that holds them.
\<close>

function take_loop :: "FrameAssembler \<Rightarrow> RawRecord list \<Rightarrow> FrameAssembler \<times> (BridgeError + RawRecord list)" where
  "take_loop fa frames =
     (case try_take fa of
        (fa', Inl e) \<Rightarrow> (fa', Inl e)
      | (fa', Inr None) \<Rightarrow> (fa', Inr frames)
      | (fa', Inr (Some frame)) \<Rightarrow> take_loop fa' (frames @ [frame]))"
  by pat_completeness auto
termination
  by (relation "measure (\<lambda>(fa, frames). length (pending fa))") (auto dest: try_take_shrinks [OF sym])

declare take_loop.simps [simp del]

definition push :: "FrameAssembler \<Rightarrow> bytes \<Rightarrow> FrameAssembler \<times> (BridgeError + RawRecord list)" where
  "push fa bs = take_loop (fa\<lparr>fa_buffer := fa_buffer fa @ bs\<rparr>) []"

fun push_all :: "FrameAssembler \<Rightarrow> bytes list \<Rightarrow> FrameAssembler \<times> (BridgeError + RawRecord list)" where
  "push_all fa [] = (fa, Inr [])"
| "push_all fa (chunk # later) =
     bindS (push fa chunk) (\<lambda>fa frames.
     bindS (push_all fa later) (\<lambda>fa more. (fa, Inr (frames @ more))))"

section \<open>Headers\<close>

lemma wire_roundtrip: "from_wire (wire_value k) = Inr k"
  by (cases k) (simp_all add: from_wire_def)

lemma from_wire_Inr: "from_wire v = Inr k \<Longrightarrow> wire_value k = v"
  by (simp add: from_wire_def split: if_splits)

definition header_image :: "RecordHeader \<Rightarrow> bytes" where
  "header_image h = MAGIC @ be16 (rh_version h) @ be16 (wire_value (rh_kind h)) @ be32 (rh_flags h)
     @ be32 (rh_payload_len h) @ be64 (rh_request_id h) @ be64 (rh_generation h) @ be64 (rh_lease_id h)"

lemma length_MAGIC: "length MAGIC = 4"
  by (simp add: MAGIC_def ascii_def)

lemma length_header_image: "length (header_image h) = HEADER_LEN"
  by (simp add: header_image_def length_MAGIC HEADER_LEN_def)

lemma header_encode_image: "header_encode h out = out @ header_image h"
  by (simp add: header_encode_def header_image_def)

lemma header_fields:
  shows "subslice (header_image h) 0 4 = MAGIC"
    and "from_be16 (subslice (header_image h) 4 6) = rh_version h"
    and "from_be16 (subslice (header_image h) 6 8) = wire_value (rh_kind h)"
    and "from_be32 (subslice (header_image h) 8 12) = rh_flags h"
    and "from_be32 (subslice (header_image h) 12 16) = rh_payload_len h"
    and "from_be64 (subslice (header_image h) 16 24) = rh_request_id h"
    and "from_be64 (subslice (header_image h) 24 32) = rh_generation h"
    and "from_be64 (subslice (header_image h) 32 40) = rh_lease_id h"
  by (simp_all add: header_image_def subslice_def length_MAGIC)

lemma header_decode_image:
  "rh_version h = VERSION \<Longrightarrow> rh_flags h = 0 \<Longrightarrow> header_decode (header_image h) = Inr h"
  unfolding header_decode_def length_header_image header_fields wire_roundtrip by simp

section \<open>The next record\<close>

definition record_size :: "RecordHeader \<Rightarrow> BridgeError + nat" where
  "record_size header =
     (let payload_len = uint (rh_payload_len header)
      in if rh_kind header = ApNonce \<and> payload_len \<noteq> 32
         then Inl (InvalidData ''AP_NONCE payload must be exactly 32 bytes'')
         else if rh_kind header = SepNonce \<and> payload_len \<noteq> 20
         then Inl (InvalidData ''SEP_NONCE payload must be exactly 20 bytes'')
         else if payload_len > payload_limit (rh_kind header)
         then Inl (InvalidData ''payload exceeds limit'')
         else Inr (HEADER_LEN + nat payload_len))"

definition next_record :: "bytes \<Rightarrow> BridgeError + (RawRecord \<times> nat) option" where
  "next_record available =
     (if length available < HEADER_LEN then Inr None
      else
        bindE (header_decode (take HEADER_LEN available)) (\<lambda>header.
        bindE (record_size header) (\<lambda>total.
          if length available < total then Inr None
          else Inr (Some (\<lparr>rr_header = header, rr_payload = subslice available HEADER_LEN total\<rparr>, total)))))"

lemma record_size_ge: "record_size header = Inr n \<Longrightarrow> HEADER_LEN \<le> n"
  by (auto simp: record_size_def Let_def split: if_splits)

lemma next_record_SomeD:
  assumes "next_record bs = Inr (Some (f, n))"
  shows "HEADER_LEN \<le> n \<and> n \<le> length bs"
  using assms by (auto simp: next_record_def bindE_eq_Inr dest: record_size_ge split: if_splits)

lemma next_record_append:
  assumes "next_record bs \<noteq> Inr None"
  shows "next_record (bs @ extra) = next_record bs"
proof -
  have len: "\<not> length bs < HEADER_LEN" using assms by (auto simp: next_record_def)
  show ?thesis
  proof (cases "header_decode (take HEADER_LEN bs)")
    case (Inr header)
    with len assms show ?thesis
      by (cases "record_size header") (auto simp: next_record_def subslice_def split: if_splits)
  qed (use len in \<open>simp add: next_record_def\<close>)
qed

interpretation record_stream: stream_parser next_record
proof
  fix bs f n extra e
  show "0 < n \<and> n \<le> length bs" if "next_record bs = Inr (Some (f, n))"
    using next_record_SomeD [OF that] by (simp add: HEADER_LEN_def)
  show "next_record (bs @ extra) = Inr (Some (f, n))" if "next_record bs = Inr (Some (f, n))"
    using next_record_append [of bs extra] that by simp
  show "next_record (bs @ extra) = Inl e" if "next_record bs = Inl e"
    using next_record_append [of bs extra] that by simp
qed

lemma try_take_next:
  "try_take fa = (case next_record (pending fa) of
     Inl e \<Rightarrow> (fa, Inl e)
   | Inr None \<Rightarrow> (fa, Inr None)
   | Inr (Some (r, n)) \<Rightarrow> (compact (fa\<lparr>fa_consumed := fa_consumed fa + n\<rparr>), Inr (Some r)))"
  unfolding try_take_def next_record_def record_size_def pending_def [symmetric] Let_def
  by (simp add: subslice_def [of _ 0] split: sum.split)

lemma take_loop_step:
  "take_loop fa frames = (case next_record (pending fa) of
     Inl e \<Rightarrow> (fa, Inl e)
   | Inr None \<Rightarrow> (fa, Inr frames)
   | Inr (Some (r, n)) \<Rightarrow> take_loop (compact (fa\<lparr>fa_consumed := fa_consumed fa + n\<rparr>)) (frames @ [r]))"
  unfolding take_loop.simps [of fa frames] try_take_next by (simp split: sum.split option.split)

definition fa_ok :: "FrameAssembler \<Rightarrow> bool" where
  "fa_ok fa \<longleftrightarrow> fa_consumed fa \<le> length (fa_buffer fa)"

lemma fa_ok_compact: "fa_ok fa \<Longrightarrow> fa_ok (compact fa)"
  by (simp add: fa_ok_def compact_def)

lemma fa_ok_advance: "fa_ok fa \<Longrightarrow> n \<le> length (pending fa) \<Longrightarrow> fa_ok (fa\<lparr>fa_consumed := fa_consumed fa + n\<rparr>)"
  by (simp add: fa_ok_def pending_def)

text \<open>What a loop or a call that ends in \<open>r\<close> has to do with the frames of the bytes it had.\<close>

definition assembled ::
    "RawRecord list \<Rightarrow> bytes \<Rightarrow> BridgeError option \<Rightarrow> FrameAssembler \<times> (BridgeError + RawRecord list) \<Rightarrow> bool" where
  "assembled fs rest err r \<longleftrightarrow> fa_ok (fst r) \<and> pending (fst r) = rest
     \<and> snd r = (case err of None \<Rightarrow> Inr fs | Some e \<Rightarrow> Inl e)"

lemma take_loop_parses:
  "record_stream.parses bs fs rest err \<Longrightarrow> pending fa = bs \<Longrightarrow> fa_ok fa \<Longrightarrow>
   assembled (frames @ fs) rest err (take_loop fa frames)"
proof (induction arbitrary: fa frames rule: record_stream.parses.induct)
  case (more bs)
  then show ?case by (simp add: take_loop_step [of fa] assembled_def)
next
  case (refuse bs e)
  then show ?case by (simp add: take_loop_step [of fa] assembled_def)
next
  case (frame bs f n fs rest e)
  let ?fa = "compact (fa\<lparr>fa_consumed := fa_consumed fa + n\<rparr>)"
  have "pending ?fa = drop n bs"
    unfolding pending_compact frame.prems(1) [symmetric] by (simp add: pending_def add.commute)
  moreover have "fa_ok ?fa"
    using frame.prems record_stream.progress [OF frame.hyps(1)] by (intro fa_ok_compact fa_ok_advance) simp_all
  moreover have "take_loop fa frames = take_loop ?fa (frames @ [f])"
    using frame.hyps(1) frame.prems by (simp add: take_loop_step [of fa frames])
  ultimately show ?case
    using frame.IH [of ?fa "frames @ [f]"] by (simp only: append_assoc append_Cons append_Nil)
qed

lemma push_parses:
  assumes "record_stream.parses (pending fa @ bs) fs rest err" "fa_ok fa"
  shows "assembled fs rest err (push fa bs)"
proof -
  have "pending (fa\<lparr>fa_buffer := fa_buffer fa @ bs\<rparr>) = pending fa @ bs" "fa_ok (fa\<lparr>fa_buffer := fa_buffer fa @ bs\<rparr>)"
    using assms(2) by (simp_all add: pending_def fa_ok_def)
  from take_loop_parses [OF assms(1) this, of "[]"] show ?thesis by (simp only: push_def append_Nil)
qed

lemma push_all_parses:
  assumes "record_stream.parses (pending fa @ concat later) fs rest err" "fa_ok fa" "next_record (pending fa) = Inr None"
  shows "snd (push_all fa later) = (case err of None \<Rightarrow> Inr fs | Some e \<Rightarrow> Inl e)
    \<and> (err = None \<longrightarrow> pending (fst (push_all fa later)) = rest)"
  using assms
proof (induction later arbitrary: fa fs)
  case Nil
  then have "fs = [] \<and> rest = pending fa \<and> err = None"
    using record_stream.parses_unique [OF record_stream.parses.more] by fastforce
  then show ?case by simp
next
  case (Cons chunk later)
  obtain fs1 rest1 err1 where p1: "record_stream.parses (pending fa @ chunk) fs1 rest1 err1"
    using record_stream.parses_total by blast
  have a1: "assembled fs1 rest1 err1 (push fa chunk)" by (rule push_parses [OF p1 Cons.prems(2)])
  show ?case
  proof (cases err1)
    case (Some e)
    from record_stream.parses_append_error [OF p1 [unfolded Some], of "concat later"]
    have "record_stream.parses (pending fa @ concat (chunk # later)) fs1 (rest1 @ concat later) (Some e)" by simp
    with Cons.prems(1) have "err = Some e" using record_stream.parses_unique by blast
    with a1 \<open>err1 = Some e\<close> show ?thesis by (cases "push fa chunk") (simp add: assembled_def)
  next
    case None
    obtain fs2 rest2 err2 where p2: "record_stream.parses (rest1 @ concat later) fs2 rest2 err2"
      using record_stream.parses_total by blast
    have "record_stream.parses (pending fa @ concat (chunk # later)) (fs1 @ fs2) rest2 err2"
      using record_stream.parses_append [OF p1 [unfolded None] p2] by simp
    with Cons.prems(1) have eq: "fs = fs1 @ fs2" "rest = rest2" "err = err2"
      using record_stream.parses_unique by blast+
    obtain fa1 where push: "push fa chunk = (fa1, Inr fs1)" "fa_ok fa1" "pending fa1 = rest1"
      using a1 None by (cases "push fa chunk") (simp add: assembled_def)
    have "next_record rest1 = Inr None"
      using record_stream.parses_rest [OF p1 [unfolded None]] .
    with Cons.IH [of fa1 fs2] p2 push eq show ?thesis
      by (cases "push_all fa1 later"; cases err2) (auto simp: bindS_def)
  qed
qed

section \<open>Properties\<close>

text \<open>
  Claim C33. The assembler refines a parser that sees the whole stream: whatever sizes the reads come
  in, and whatever its buffer has kept, moved or dropped between them, it returns exactly the records of
  the bytes received so far, in order, holds back exactly the bytes of the record that is still
  incomplete, and refuses the stream with the error the whole of it has.
\<close>

theorem assembler_refines_stream:
  assumes "record_stream.parses (concat reads) fs rest err"
  shows "snd (push_all FrameAssembler_default reads) = (case err of None \<Rightarrow> Inr fs | Some e \<Rightarrow> Inl e)
    \<and> (case err of None \<Rightarrow> pending (fst (push_all FrameAssembler_default reads)) = rest | Some e \<Rightarrow> True)"
proof -
  have "pending FrameAssembler_default = []" "fa_ok FrameAssembler_default"
    by (simp_all add: FrameAssembler_default_def pending_def fa_ok_def)
  moreover have "next_record [] = Inr None" by (simp add: next_record_def HEADER_LEN_def)
  ultimately show ?thesis
    using push_all_parses [of FrameAssembler_default reads fs rest err] assms by (cases err) simp_all
qed

definition ex_ping :: RecordHeader where
  "ex_ping = \<lparr>rh_version = 1, rh_kind = Ping, rh_flags = 0, rh_payload_len = 8, rh_request_id = 7,
     rh_generation = 0, rh_lease_id = 0\<rparr>"

lemma ex_ping_parses:
  "record_stream.parses (header_image ex_ping @ be64 9 @ [0x52])
     [\<lparr>rr_header = ex_ping, rr_payload = be64 9\<rparr>] [0x52] None"
proof (rule record_stream.parses.frame)
  have "header_decode (header_image ex_ping) = Inr ex_ping"
    by (rule header_decode_image) (simp_all add: ex_ping_def VERSION_def)
  moreover have "record_size ex_ping = Inr 48" by (simp add: record_size_def ex_ping_def HEADER_LEN_def)
  ultimately show "next_record (header_image ex_ping @ be64 9 @ [0x52])
      = Inr (Some (\<lparr>rr_header = ex_ping, rr_payload = be64 9\<rparr>, 48))"
    using length_header_image [of ex_ping] by (simp add: next_record_def subslice_def HEADER_LEN_def)
  show "record_stream.parses (drop 48 (header_image ex_ping @ be64 9 @ [0x52])) [] [0x52] None"
    using length_header_image [of ex_ping]
    by (simp add: HEADER_LEN_def) (rule record_stream.parses.more, simp add: next_record_def HEADER_LEN_def)
qed

theorem assembler_refines_stream_witness:
  "snd (push_all FrameAssembler_default [take 13 (header_image ex_ping), drop 13 (header_image ex_ping) @ be64 9 @ [0x52]])
     = Inr [\<lparr>rr_header = ex_ping, rr_payload = be64 9\<rparr>]"
  using assembler_refines_stream
    [of "[take 13 (header_image ex_ping), drop 13 (header_image ex_ping) @ be64 9 @ [0x52]]"
      "[\<lparr>rr_header = ex_ping, rr_payload = be64 9\<rparr>]" "[0x52]" None] ex_ping_parses
  by (simp flip: append_assoc)

end
