(* ===== verification/Der_Length.thy ===== *)
theory Der_Length imports Fdr_Trust begin

text \<open>
  The length octets the DER writer produces, as a function of the length, and the facts a strict reader
  needs to recognise exactly those: the value of a string of digits and when its first digit makes the
  encoding the shortest one.
\<close>

unbundle bit_operations_syntax

text \<open>The number a big-endian string of bytes stands for.\<close>

fun be_value :: "bytes \<Rightarrow> nat" where
  "be_value [] = 0"
| "be_value (b # bs) = unat b * 256 ^ length bs + be_value bs"

definition length_octets :: "nat \<Rightarrow> bytes" where
  "length_octets n =
     (if n < 0x80 then [word_of_nat n]
      else let digits = significant (be64 (word_of_nat n)) in (0x80 OR word_of_nat (length digits)) # digits)"

lemma be_value_snoc: "be_value (bs @ [b]) = 256 * be_value bs + unat b"
  by (induction bs) (simp_all add: algebra_simps)

lemma be_value_less: "be_value bs < 256 ^ length bs"
proof (induction bs)
  case (Cons b bs)
  define P :: nat where "P = 256 ^ length bs"
  have "Suc (unat b) * P \<le> 256 * P" using unsigned_less [of b, where 'a = nat] by (intro mult_le_mono1) simp
  then have "P + unat b * P \<le> 256 * P" by (simp only: mult_Suc)
  moreover have "be_value bs < P" using Cons.IH by (simp add: P_def)
  ultimately have "unat b * P + be_value bs < 256 * P" by linarith
  then show ?case by (simp add: P_def)
qed simp

lemma be_value_ge: "hd bs \<noteq> 0 \<Longrightarrow> bs \<noteq> [] \<Longrightarrow> unat (hd bs) * 256 ^ (length bs - 1) \<le> be_value bs"
  by (cases bs) simp_all

lemma unat_push_or:
  assumes "unat (v :: u64) < 2 ^ 56"
  shows "unat (push_bit 8 v OR ucast (b :: u8)) = 256 * unat v + unat b"
proof -
  have "push_bit 8 v AND ucast b = 0"
    by (rule bit_eqI) (auto simp: bit_simps dest: bit_imp_le_length)
  then have "push_bit 8 v OR ucast b = push_bit 8 v + ucast b" by (simp add: disjunctive_add_eq_or)
  moreover have "unat (push_bit 8 v) = 256 * unat v"
    using assms unfolding unsigned_push_bit_eq by (simp add: take_bit_nat_eq_self push_bit_eq_mult)
  moreover have "unat (ucast b :: u64) = unat b"
    using unsigned_less [of b, where 'a = nat] by (simp add: unsigned_ucast_eq take_bit_nat_eq_self)
  moreover have "256 * unat v + unat b < 2 ^ 64"
    using assms unsigned_less [of b, where 'a = nat] by simp
  ultimately show ?thesis by (simp add: unat_word_ariths)
qed

lemma unat_of_be: "length ds \<le> 8 \<Longrightarrow> unat (from_be64 ds) = be_value ds"
proof (induction ds rule: rev_induct)
  case (snoc b ds)
  have "be_value ds < 256 ^ length ds" by (rule be_value_less)
  also have "\<dots> \<le> 256 ^ 7" using snoc.prems by (intro power_increasing) simp_all
  finally have "unat (from_be64 ds) < 2 ^ 56" using snoc by simp
  from unat_push_or [OF this, of b] snoc show ?case by (simp add: of_be_def be_value_snoc)
qed (simp add: of_be_def)

lemma significant_digits:
  assumes "ds \<noteq> []" "hd ds \<noteq> 0" "length ds \<le> 8"
  shows "significant (be64 (from_be64 ds)) = ds"
proof -
  let ?z = "replicate (8 - length ds) (0 :: u8)"
  have drop: "dropWhile (\<lambda>d. d = 0) (?z @ ds) = ds"
    using assms(1,2) by (subst dropWhile_append2) (auto simp: dropWhile_eq_self_iff)
  have "from_be64 ds = from_be64 (?z @ ds)" using of_be_dropWhile [of "?z @ ds"] by (simp add: drop)
  then have "be64 (from_be64 ds) = ?z @ ds" using assms(3) by (simp add: be_bytes_of_be)
  then show ?thesis using assms(1) unfolding significant_def by (simp only: drop) (simp split: list.split)
qed


lemma tlv_octets: "tlv identifier body = identifier @ length_octets (length body) @ body"
  by (simp add: tlv_def length_octets_def Let_def)

lemma short_first:
  assumes "(b :: u8) AND 0x80 = 0"
  shows "unat b < 128"
proof -
  have "list_all (\<lambda>n. (word_of_nat n :: u8) AND 0x80 = 0 \<longrightarrow> n < 128) [0..<256]" by code_simp
  then show ?thesis using assms unsigned_less [of b, where 'a = nat] by (force simp: list_all_iff)
qed

lemma long_first:
  assumes "(b :: u8) AND 0x80 \<noteq> 0"
  shows "b = 0x80 OR word_of_nat (unat (b AND 0x7f))"
proof -
  have "list_all (\<lambda>n. (word_of_nat n :: u8) AND 0x80 \<noteq> 0 \<longrightarrow>
      word_of_nat n = 0x80 OR (word_of_nat (unat ((word_of_nat n :: u8) AND 0x7f)) :: u8)) [0..<256]" by code_simp
  then show ?thesis using assms unsigned_less [of b, where 'a = nat] by (force simp: list_all_iff)
qed


lemma long_octets:
  assumes "ds \<noteq> []" "hd ds \<noteq> 0" "length ds \<le> 4" "length ds = 1 \<Longrightarrow> \<not> hd ds < 0x80"
  shows "length_octets (unat (from_be64 ds)) = (0x80 OR word_of_nat (length ds)) # ds"
    and "unat (from_be64 ds) < 2 ^ 32"
proof -
  have v: "unat (from_be64 ds) = be_value ds" using assms(3) by (intro unat_of_be) simp
  have "be_value ds < 256 ^ length ds" by (rule be_value_less)
  also have "\<dots> \<le> 256 ^ 4" using assms(3) by (intro power_increasing) simp_all
  finally show "unat (from_be64 ds) < 2 ^ 32" by (simp add: v)
  have ge: "unat (hd ds) * 256 ^ (length ds - 1) \<le> be_value ds" using assms(1,2) by (rule be_value_ge [rotated])
  have "128 \<le> be_value ds"
  proof (cases "length ds = 1")
    case True
    with assms(4) have "128 \<le> unat (hd ds)" by (simp add: word_less_nat_alt)
    with ge True show ?thesis by simp
  next
    case False
    obtain k where k: "length ds - 1 = Suc k" using False assms(1) by (cases "length ds - 1") (cases ds; simp)+
    have "unat (hd ds) \<noteq> 0" using assms(2) by (simp only: unsigned_eq_0_iff not_False_eq_True)
    then have "1 * 128 \<le> unat (hd ds) * 256 ^ (length ds - 1)"
      unfolding k power_Suc by (intro mult_le_mono) (simp_all add: trans_le_add1)
    with ge show ?thesis by simp
  qed
  then have "\<not> unat (from_be64 ds) < 0x80" by (simp add: v)
  then show "length_octets (unat (from_be64 ds)) = (0x80 OR word_of_nat (length ds)) # ds"
    using assms(3) by (simp add: length_octets_def Let_def significant_digits [OF assms(1,2)])
qed

end
