(* ===== verification/Bridge_Payload.thy ===== *)
theory Bridge_Payload imports Bridge_Record Der_Length begin

unbundle bit_operations_syntax

text \<open>
  The payloads of bridge records (\<^verbatim>\<open>bridge_protocol.rs\<close>): credit, statistics and ping records, the
  JSON messages and their validators, and the FDR manifest that is signed over the bridge. The JSON
  library is a parameter: \<open>to_vec\<close> and \<open>from_slice\<close> stand for the two functions of it that are called.
\<close>

section \<open>JSON messages\<close>

definition SERVER_CAPABILITIES :: "string list" where
  "SERVER_CAPABILITIES =
     [''list'', ''watch'', ''packetCredit'', ''bootContext'', ''signFdrManifest'', ''signerPublicKey'', ''detach'']"

record Hello =
  minimum_version :: u16
  maximum_version :: u16
  client_name :: bytes
  client_instance_id :: bytes
  client_pid :: u32

record ServerHello =
  selected_version :: u16
  server_name :: bytes
  sh_broker_id :: bytes
  server_pid :: u32
  capabilities :: "bytes list"

datatype DeviceEvent = Snapshot | Added | Changed | EventRemoved
datatype TransportKind = Dwc3 | VirtioGadget
datatype DeviceState = Available | StateClaimed | Unavailable | StateRemoved

record DeviceRecord =
  dr_revision :: u64
  dr_event :: DeviceEvent
  dr_broker_id :: bytes
  dr_device_id :: bytes
  vm_id :: bytes
  vm_name :: bytes
  controller_index :: u32
  dr_transport_kind :: TransportKind
  dr_state :: DeviceState
  dr_detail :: "bytes option"
  dr_out_max_packet_size :: u16
  dr_max_packet_size :: u32
  dr_max_transfer_size :: u32

record ListEnd =
  le_revision :: u64
  device_count :: u32

record WatchRequest =
  after_revision :: u64

record ClaimRequest =
  cr_device_id :: bytes
  receive_depth_packets :: u32

record Claimed =
  cl_device_id :: bytes
  cl_transport_kind :: TransportKind
  cl_out_max_packet_size :: u16
  cl_max_packet_size :: u32
  cl_max_transfer_size :: u32
  host_to_device_credits :: u32
  device_to_host_credits :: u32

datatype GoneReason =
    VmStopped | VmReset | GuestDisconnected | PumpFailed | BrokerStopping | ClaimAborted | TransportClosed

record Gone =
  gone_reason :: GoneReason
  gone_detail :: "bytes option"
  replacement_generation :: "u64 option"
  gone_retryable :: bool

datatype DetachOutcome = Complete | Cancelled | Failed

record Detach =
  dt_outcome :: DetachOutcome
  dt_detail :: "bytes option"

datatype DetachedDeviceState = StateDetached | AlreadyGone

record Detached =
  dd_outcome :: DetachOutcome
  dd_device_state :: DetachedDeviceState
  dd_detail :: "bytes option"

record ErrorRecord =
  er_code :: bytes
  er_detail :: bytes
  er_fatal :: bool
  er_retryable :: bool
  current_revision :: "u64 option"
  current_generation :: "u64 option"

definition encode_json :: "('v \<Rightarrow> string + bytes) \<Rightarrow> 'v \<Rightarrow> BridgeError + bytes" where
  "encode_json to_vec v =
     bindE (map_err (\<lambda>e. InvalidInput ''JSON encode failed'') (to_vec v)) (\<lambda>bs.
       if int (length bs) > MAX_JSON_BYTES then Inl (InvalidInput ''JSON payload exceeds the limit'')
       else Inr bs)"

definition decode_json :: "(bytes \<Rightarrow> string + 'v) \<Rightarrow> bytes \<Rightarrow> BridgeError + 'v" where
  "decode_json from_slice payload =
     (if int (length payload) > MAX_JSON_BYTES then Inl (InvalidData ''JSON payload exceeds the limit'')
      else map_err (\<lambda>e. InvalidData ''JSON decode failed'') (from_slice payload))"

definition is_lower_hex :: "byte \<Rightarrow> bool" where
  "is_lower_hex b \<longleftrightarrow> (0x30 \<le> b \<and> b \<le> 0x39) \<or> (0x61 \<le> b \<and> b \<le> 0x66)"

definition validate_hex_id :: "bytes \<Rightarrow> BridgeError + unit" where
  "validate_hex_id v =
     (if length v \<noteq> 32 \<or> \<not> list_all is_lower_hex v
      then Inl (InvalidData ''must be 32 lower-case hex digits'') else Inr ())"

definition validate_ascii_identifier :: "bytes \<Rightarrow> nat \<Rightarrow> BridgeError + unit" where
  "validate_ascii_identifier v max_len =
     (if v = [] \<or> length v > max_len \<or> list_ex (\<lambda>b. \<not> b < 0x80 \<or> b = 0) v
      then Inl (InvalidData ''must be nonempty ASCII'') else Inr ())"

definition validate_utf8_nonempty :: "bytes \<Rightarrow> nat \<Rightarrow> BridgeError + unit" where
  "validate_utf8_nonempty v max_len =
     (if v = [] \<or> length v > max_len then Inl (InvalidData ''must be nonempty UTF-8'') else Inr ())"

definition validate_hello :: "Hello \<Rightarrow> BridgeError + unit" where
  "validate_hello hello =
     (if minimum_version hello > VERSION \<or> maximum_version hello < VERSION
      then Inl (InvalidData ''hello version range does not bracket the version'')
      else if client_name hello \<noteq> ascii ''apple-utils'' then Inl (InvalidData ''unexpected client name'')
      else validate_hex_id (client_instance_id hello))"

definition validate_server_hello :: "ServerHello \<Rightarrow> BridgeError + unit" where
  "validate_server_hello hello =
     (if selected_version hello \<noteq> VERSION then Inl (InvalidData ''server selected version'')
      else
        bindE (validate_hex_id (sh_broker_id hello)) (\<lambda>_.
          if length (capabilities hello) \<noteq> length SERVER_CAPABILITIES
             \<or> capabilities hello \<noteq> map ascii SERVER_CAPABILITIES
          then Inl (InvalidData ''unexpected capabilities'') else Inr ()))"

definition validate_device_record :: "DeviceRecord \<Rightarrow> BridgeError + unit" where
  "validate_device_record r =
     bindE (validate_hex_id (dr_broker_id r)) (\<lambda>_.
     bindE (validate_ascii_identifier (dr_device_id r) 128) (\<lambda>_.
     bindE (validate_utf8_nonempty (vm_id r) 256) (\<lambda>_.
     bindE (validate_utf8_nonempty (vm_name r) 256) (\<lambda>_.
       if dr_out_max_packet_size r = 0 then Inl (InvalidData ''outMaxPacketSize must be nonzero'')
       else if dr_max_packet_size r = 0 \<or> uint (dr_max_packet_size r) > MAX_PACKET_BYTES
       then Inl (InvalidData ''maxPacketSize exceeds the limit'')
       else if dr_max_transfer_size r = 0 \<or> uint (dr_max_transfer_size r) > MAX_TRANSFER_BYTES
       then Inl (InvalidData ''maxTransferSize exceeds the limit'')
       else Inr ()))))"

definition validate_claim_request :: "ClaimRequest \<Rightarrow> BridgeError + unit" where
  "validate_claim_request r =
     bindE (validate_ascii_identifier (cr_device_id r) 128) (\<lambda>_.
       if \<not> (1 \<le> receive_depth_packets r \<and> receive_depth_packets r \<le> 256)
       then Inl (InvalidInput ''receiveDepthPackets is outside 1..=256'') else Inr ())"

definition validate_claimed :: "Claimed \<Rightarrow> BridgeError + unit" where
  "validate_claimed c =
     bindE (validate_ascii_identifier (cl_device_id c) 128) (\<lambda>_.
       if \<not> (1 \<le> host_to_device_credits c \<and> host_to_device_credits c \<le> 256)
       then Inl (InvalidData ''hostToDeviceCredits is outside 1..=256'')
       else if \<not> (1 \<le> device_to_host_credits c \<and> device_to_host_credits c \<le> 256)
       then Inl (InvalidData ''deviceToHostCredits is outside 1..=256'')
       else if uint (cl_max_packet_size c) > MAX_PACKET_BYTES
       then Inl (InvalidData ''maxPacketSize exceeds the limit'')
       else if uint (cl_max_transfer_size c) > MAX_TRANSFER_BYTES
       then Inl (InvalidData ''maxTransferSize exceeds the limit'')
       else Inr ())"

section \<open>Credit, statistics and ping\<close>

record CreditRecord =
  cd_direction :: u8
  cd_delta :: u32

record StatsRecord =
  packets_to_device_received :: u64
  packets_accepted_by_device :: u64
  bytes_accepted_by_device :: u64
  packets_from_device_sent :: u64
  bytes_from_device_sent :: u64
  queued_to_device :: u32
  queued_from_device :: u32
  host_to_device_credits_outstanding :: u32
  device_to_host_credits_outstanding :: u32
  presence :: u8

definition encode_credit :: "CreditRecord \<Rightarrow> BridgeError + bytes" where
  "encode_credit c =
     (if cd_direction c \<noteq> 1 \<and> cd_direction c \<noteq> 2 then Inl (InvalidInput ''credit direction is invalid'')
      else if cd_delta c = 0 then Inl (InvalidInput ''credit delta must be nonzero'')
      else Inr ([cd_direction c] @ [0, 0, 0] @ be32 (cd_delta c)))"

definition decode_credit :: "bytes \<Rightarrow> BridgeError + CreditRecord" where
  "decode_credit payload =
     (if length payload \<noteq> 8 then Inl (InvalidData ''credit payload must be 8 bytes'')
      else if subslice payload 1 4 \<noteq> [0, 0, 0] then Inl (InvalidData ''credit reserved bytes must be zero'')
      else
        let direction = payload ! 0; delta = from_be32 (subslice payload 4 8)
        in if (direction \<noteq> 1 \<and> direction \<noteq> 2) \<or> delta = 0 then Inl (InvalidData ''invalid credit'')
           else Inr \<lparr>cd_direction = direction, cd_delta = delta\<rparr>)"

definition encode_stats :: "StatsRecord \<Rightarrow> bytes" where
  "encode_stats s =
     be64 (packets_to_device_received s) @ be64 (packets_accepted_by_device s)
       @ be64 (bytes_accepted_by_device s) @ be64 (packets_from_device_sent s)
       @ be64 (bytes_from_device_sent s) @ be32 (queued_to_device s) @ be32 (queued_from_device s)
       @ be32 (host_to_device_credits_outstanding s) @ be32 (device_to_host_credits_outstanding s)
       @ [presence s] @ replicate 7 0"

definition decode_stats :: "bytes \<Rightarrow> BridgeError + StatsRecord" where
  "decode_stats payload =
     (if length payload \<noteq> 64 then Inl (InvalidData ''stats payload must be 64 bytes'')
      else if subslice payload 57 64 \<noteq> replicate 7 0
      then Inl (InvalidData ''stats trailing reserved bytes must be zero'')
      else Inr
        \<lparr>packets_to_device_received = from_be64 (subslice payload 0 8),
         packets_accepted_by_device = from_be64 (subslice payload 8 16),
         bytes_accepted_by_device = from_be64 (subslice payload 16 24),
         packets_from_device_sent = from_be64 (subslice payload 24 32),
         bytes_from_device_sent = from_be64 (subslice payload 32 40),
         queued_to_device = from_be32 (subslice payload 40 44),
         queued_from_device = from_be32 (subslice payload 44 48),
         host_to_device_credits_outstanding = from_be32 (subslice payload 48 52),
         device_to_host_credits_outstanding = from_be32 (subslice payload 52 56),
         presence = payload ! 56\<rparr>)"

definition encode_ping_nonce :: "u64 \<Rightarrow> bytes" where
  "encode_ping_nonce nonce = be64 nonce"

definition decode_ping_nonce :: "bytes \<Rightarrow> BridgeError + u64" where
  "decode_ping_nonce payload =
     (if length payload \<noteq> 8 then Inl (InvalidData ''ping payload must be 8 bytes'')
      else Inr (from_be64 payload))"

section \<open>The signed manifest\<close>

definition SIGNING_ENCODING_VERSION :: u16 where "SIGNING_ENCODING_VERSION = 1"
definition SIGNING_DIGEST_ALGORITHM :: u16 where "SIGNING_DIGEST_ALGORITHM = 1"
definition SIGNATURE_FORMAT_RS :: u16 where "SIGNATURE_FORMAT_RS = 1"

definition MANB_IDENTIFIER_BYTES :: bytes where
  "MANB_IDENTIFIER_BYTES = [0xff, 0x84, 0xea, 0x85, 0x9c, 0x42]"

definition decode_der_length :: "bytes \<Rightarrow> nat \<Rightarrow> BridgeError + nat \<times> nat" where
  "decode_der_length bs cursor =
     bindE (ok_or (InvalidData ''DER length is truncated'') (get_at bs cursor)) (\<lambda>first.
       let cursor = cursor + 1
       in if first = 0x80 then Inl (InvalidData ''indefinite DER length is not allowed'')
          else if first AND 0x80 = 0 then Inr (unat first, cursor)
          else
            let count = unat (first AND 0x7f)
            in if count = 0 \<or> count > 4 then Inl (InvalidData ''DER length uses invalid byte count'')
               else
                 bindE (ok_or (InvalidData ''DER long length is truncated'')
                     (get_range bs cursor (cursor + count))) (\<lambda>length_bytes.
                   if length_bytes ! 0 = 0 then Inl (InvalidData ''DER length is not minimally encoded'')
                   else if count = 1 \<and> length_bytes ! 0 < 0x80
                   then Inl (InvalidData ''DER long length should have used short form'')
                   else
                     let len = foldl (\<lambda>len b. push_bit 8 len OR ucast b) (0 :: u64) length_bytes
                     in Inr (unat len, cursor + count)))"

definition take_element_body :: "bytes \<Rightarrow> nat \<Rightarrow> BridgeError + bytes \<times> nat" where
  "take_element_body bs cursor =
     bindE (decode_der_length bs cursor) (\<lambda>(len, cursor).
       if int cursor + int len \<ge> 2 ^ 64 then Inl (InvalidData ''length overflow'')
       else
         bindE (ok_or (InvalidData ''overruns payload'') (get_range bs cursor (cursor + len))) (\<lambda>body.
           Inr (body, cursor + len)))"

definition take_private_manb_element :: "bytes \<Rightarrow> nat \<Rightarrow> BridgeError + bytes \<times> nat" where
  "take_private_manb_element bs cursor =
     (if get_range bs cursor (cursor + length MANB_IDENTIFIER_BYTES) \<noteq> Some MANB_IDENTIFIER_BYTES
      then Inl (InvalidData ''MANB private identifier bytes are missing'')
      else take_element_body bs (cursor + length MANB_IDENTIFIER_BYTES))"

definition take_der_element :: "bytes \<Rightarrow> nat \<Rightarrow> u8 \<Rightarrow> BridgeError + bytes \<times> nat" where
  "take_der_element bs cursor expected_tag =
     bindE (ok_or (InvalidData ''truncated before tag'') (get_at bs cursor)) (\<lambda>tag.
       if tag \<noteq> expected_tag then Inl (InvalidData ''tag does not match'')
       else take_element_body bs (cursor + 1))"

definition validate_signed_manb_body :: "bytes \<Rightarrow> BridgeError + unit" where
  "validate_signed_manb_body body =
     (if body = [] \<or> int (length body) > MAX_SIGNED_BODY_BYTES
      then Inl (InvalidData ''signed MANB body exceeds the limit'')
      else
        bindE (take_der_element body 0 0x31) (\<lambda>(set_body, cursor).
        if cursor \<noteq> length body then Inl (InvalidData ''signed MANB body has trailing bytes'') else
        bindE (take_private_manb_element set_body 0) (\<lambda>(private_body, set_cursor).
        if set_cursor \<noteq> length set_body
        then Inl (InvalidData ''outer SET must contain exactly one element'') else
        bindE (take_der_element private_body 0 0x30) (\<lambda>(sequence_body, private_cursor).
        if private_cursor \<noteq> length private_body
        then Inl (InvalidData ''MANB private element must contain exactly one sequence'') else
        bindE (take_der_element sequence_body 0 0x16) (\<lambda>(ia5, sequence_cursor).
        if ia5 \<noteq> ascii ''MANB'' then Inl (InvalidData ''MANB IA5String payload must be MANB'') else
        bindE (take_der_element sequence_body sequence_cursor 0x31) (\<lambda>(inner_set, sequence_cursor).
        if inner_set = [] then Inl (InvalidData ''MANB inner SET must not be empty'')
        else if sequence_cursor \<noteq> length sequence_body
        then Inl (InvalidData ''MANB sequence has trailing elements'')
        else Inr ()))))))"

record SignFdrManifestRequest =
  signed_body :: bytes

record FdrManifestSignature =
  signed_body_length :: u32
  digest_sha384 :: bytes
  signature_rs :: bytes
  signer_public_key_uncompressed :: bytes

definition sign_request_encode :: "SignFdrManifestRequest \<Rightarrow> BridgeError + bytes" where
  "sign_request_encode r =
     bindE (validate_signed_manb_body (signed_body r)) (\<lambda>_.
       if int (length (signed_body r)) \<ge> 2 ^ 32 then Inl (InvalidInput ''signed body too large'')
       else Inr (be16 SIGNING_ENCODING_VERSION @ be16 SIGNING_DIGEST_ALGORITHM
                  @ be32 (word_of_nat (length (signed_body r))) @ signed_body r))"

definition sign_request_decode :: "bytes \<Rightarrow> BridgeError + SignFdrManifestRequest" where
  "sign_request_decode payload =
     (if length payload < 8 then Inl (InvalidData ''sign request payload too short'')
      else
        let encoding = from_be16 (subslice payload 0 2);
            algorithm = from_be16 (subslice payload 2 4);
            signed_body_len = unat (from_be32 (subslice payload 4 8))
        in if encoding \<noteq> SIGNING_ENCODING_VERSION \<or> algorithm \<noteq> SIGNING_DIGEST_ALGORITHM
           then Inl (InvalidData ''sign request header is invalid'')
           else if int signed_body_len > MAX_SIGNED_BODY_BYTES
           then Inl (InvalidData ''signed body exceeds the limit'')
           else if length payload \<noteq> 8 + signed_body_len
           then Inl (InvalidData ''sign request length does not match header'')
           else
             bindE (validate_signed_manb_body (drop 8 payload)) (\<lambda>_.
               Inr \<lparr>signed_body = drop 8 payload\<rparr>))"

definition signature_encode :: "FdrManifestSignature \<Rightarrow> bytes" where
  "signature_encode s =
     be16 SIGNING_ENCODING_VERSION @ be16 SIGNATURE_FORMAT_RS @ be32 (signed_body_length s)
       @ digest_sha384 s @ signature_rs s @ signer_public_key_uncompressed s"

definition signature_decode :: "bytes \<Rightarrow> BridgeError + FdrManifestSignature" where
  "signature_decode payload =
     (if length payload \<noteq> 185 then Inl (InvalidData ''signature payload must be 185 bytes'')
      else
        let encoding = from_be16 (subslice payload 0 2);
            format = from_be16 (subslice payload 2 4)
        in if encoding \<noteq> SIGNING_ENCODING_VERSION \<or> format \<noteq> SIGNATURE_FORMAT_RS
           then Inl (InvalidData ''signature header is invalid'')
           else
             let digest = subslice payload 8 56;
                 signature = subslice payload 56 120;
                 key = subslice payload 120 185
             in if key ! 0 \<noteq> 0x04 then Inl (InvalidData ''signer public key must be uncompressed SEC1'')
                else Inr \<lparr>signed_body_length = from_be32 (subslice payload 4 8), digest_sha384 = digest,
                          signature_rs = signature, signer_public_key_uncompressed = key\<rparr>)"

section \<open>Packets\<close>

definition validate_packet_to_device :: "bytes \<Rightarrow> BridgeError + unit" where
  "validate_packet_to_device payload =
     (if \<not> (8 \<le> length payload \<and> int (length payload) \<le> MAX_PACKET_BYTES)
      then Inl (InvalidData ''packet-to-device length is outside the range'')
      else
        let declared = from_be32 (subslice payload 4 8)
        in if uint declared \<noteq> int (length payload)
           then Inl (InvalidData ''packet-to-device inner length does not match'') else Inr ())"

definition validate_packet_from_device :: "bytes \<Rightarrow> int \<Rightarrow> BridgeError + unit" where
  "validate_packet_from_device payload max_transfer_size =
     (if payload = [] \<or> int (length payload) > max_transfer_size \<or> int (length payload) > MAX_TRANSFER_BYTES
      then Inl (InvalidData ''packet-from-device length exceeds the limit'') else Inr ())"

section \<open>Strict DER\<close>

lemma subslice_Cons: "a < b \<Longrightarrow> b \<le> length xs \<Longrightarrow> subslice xs a b = xs ! a # subslice xs (Suc a) b"
  by (simp add: subslice_def Cons_nth_drop_Suc [symmetric] take_Suc_conv_app_nth Suc_diff_Suc [symmetric])

lemma decode_der_length_sound:
  assumes "decode_der_length bs cursor = Inr (n, c)"
  shows "cursor < c \<and> c \<le> length bs \<and> subslice bs cursor c = length_octets n \<and> n < 2 ^ 32"
proof -
  from assms have cur: "cursor < length bs" by (auto simp: decode_der_length_def bindE_eq_Inr)
  define first where "first = bs ! cursor"
  have first: "get_at bs cursor = Some first" using cur by (simp add: first_def)
  show ?thesis
  proof (cases "first AND 0x80 = 0")
    case True
    with assms first have n: "n = unat first" "c = Suc cursor"
      by (auto simp: decode_der_length_def Let_def split: if_splits)
    moreover have "subslice bs cursor (Suc cursor) = [first]" using cur by (simp add: subslice_Cons first_def)
    ultimately show ?thesis using short_first [OF True] cur by (simp add: length_octets_def)
  next
    case False
    define count where "count = unat (first AND 0x7f)"
    define ds where "ds = subslice bs (Suc cursor) (Suc cursor + count)"
    from assms first False have count: "count \<noteq> 0" "\<not> 4 < count" and range: "Suc cursor + count \<le> length bs"
      and ds: "ds ! 0 \<noteq> 0" "count = 1 \<Longrightarrow> \<not> ds ! 0 < 0x80" and n: "n = unat (from_be64 ds)" "c = Suc cursor + count"
      by (auto simp: decode_der_length_def Let_def bindE_eq_Inr of_be_def ds_def count_def split: if_splits)
    have len: "length ds = count" using range by (simp add: ds_def)
    then have hd: "hd ds = ds ! 0" "ds \<noteq> []" using count by (auto simp: hd_conv_nth)
    have "length_octets (unat (from_be64 ds)) = (0x80 OR word_of_nat (length ds)) # ds" "unat (from_be64 ds) < 2 ^ 32"
      using long_octets [of ds] hd ds len count by simp_all
    moreover have "first = 0x80 OR word_of_nat (length ds)" unfolding len count_def by (rule long_first [OF False])
    moreover have "subslice bs cursor c = first # ds"
      using range count unfolding n(2) ds_def first_def by (intro subslice_Cons) simp_all
    ultimately show ?thesis using n range by simp
  qed
qed

lemma decode_der_length_complete:
  assumes "n < 2 ^ 32"
  shows "decode_der_length (pre @ length_octets n @ post) (length pre) = Inr (n, length pre + length (length_octets n))"
proof (cases "n < 0x80")
  case True
  with short_length_byte [OF True [simplified]] show ?thesis
    by (auto simp: decode_der_length_def length_octets_def get_at_def nth_append)
next
  case False
  let ?w = "word_of_nat n :: u64"
  let ?ds = "significant (be64 ?w)"
  let ?f = "0x80 OR word_of_nat (length ?ds) :: u8"
  have n: "unat ?w = n" using assms by (simp add: unat_of_nat_small)
  then have nz: "?w \<noteq> 0" using False by (metis not_less unat_0 zero_less_numeral)
  have ds: "length ?ds \<le> 4" "?ds \<noteq> []" "hd ?ds \<noteq> 0" "from_be64 ?ds = ?w"
    using significant_short [OF nz] significant_eq [OF nz] assms n of_be_dropWhile [of "be64 ?w"]
      hd_dropWhile [of "\<lambda>d. d = 0" "be64 ?w"] by simp_all
  have val: "be_value ?ds = n" using ds(1,4) n by (simp flip: unat_of_be)
  have f: "?f AND 0x80 \<noteq> 0" "unat (?f AND 0x7f) = length ?ds" by (rule long_length_byte [OF ds(1)])+
  then have "?f \<noteq> 0x80" using ds(2) by auto
  have one: "\<not> hd ?ds < 0x80" if "length ?ds = 1"
  proof -
    obtain d where d: "?ds = [d]" using \<open>length ?ds = 1\<close> by (auto simp: length_Suc_conv)
    then show ?thesis using val False by (simp add: word_less_nat_alt)
  qed
  have oct: "length_octets n = ?f # ?ds" using False by (simp add: length_octets_def Let_def)
  have at: "get_at (pre @ length_octets n @ post) (length pre) = Some ?f" by (simp add: oct get_at_def nth_append)
  have range: "get_range (pre @ length_octets n @ post) (length pre + 1) (length pre + 1 + length ?ds) = Some ?ds"
    by (simp add: oct get_range_def subslice_def)
  have "0 < length ?ds" using ds(2) by blast
  then show ?thesis
    unfolding decode_der_length_def at ok_or_simps bindE_simps Let_def f(2) range
    using \<open>?f \<noteq> 0x80\<close> f(1) ds one oct by (auto simp: hd_conv_nth n simp flip: of_be_def)
qed

lemma length_subslice_in: "a \<le> b \<Longrightarrow> b \<le> length xs \<Longrightarrow> length (subslice xs a b) = b - a"
  by simp

lemma subslice_in: "a \<le> b \<Longrightarrow> b \<le> length xs \<Longrightarrow> xs = take a xs @ subslice xs a b @ drop b xs"
  using append_take_drop_id [of "b - a" "drop a xs"] append_take_drop_id [of a xs] by (simp add: subslice_def)

lemma take_element_body_iff:
  assumes "length bs < 2 ^ 64"
  shows "take_element_body bs cursor = Inr (body, c) \<longleftrightarrow>
    cursor \<le> c \<and> c \<le> length bs \<and> subslice bs cursor c = length_octets (length body) @ body \<and> length body < 2 ^ 32"
    (is "?l \<longleftrightarrow> ?r")
proof
  assume ?l
  then obtain n c1 where dec: "decode_der_length bs cursor = Inr (n, c1)" and range: "c1 + n \<le> length bs"
    and body: "body = subslice bs c1 (c1 + n)" and c: "c = c1 + n"
    by (auto simp: take_element_body_def bindE_eq_Inr split: if_splits)
  from decode_der_length_sound [OF dec] have d: "cursor < c1" "subslice bs cursor c1 = length_octets n" "n < 2 ^ 32"
    by simp_all
  have "length body = n" using range by (simp add: body)
  with d range c body slice_append_slice [of cursor c1 "c1 + n" bs] show ?r by simp
next
  assume r: ?r
  let ?pre = "take cursor bs" and ?post = "drop c bs"
  have bs: "bs = ?pre @ length_octets (length body) @ body @ ?post"
    using r subslice_in [of cursor c bs] by simp
  have pre: "length ?pre = cursor" using r by simp
  have c: "c = cursor + length (length_octets (length body)) + length body"
  proof -
    have "length (subslice bs cursor c) = c - cursor" using r by (intro length_subslice_in) simp_all
    moreover have "length (subslice bs cursor c) = length (length_octets (length body)) + length body" using r by simp
    ultimately show ?thesis using r by linarith
  qed
  have "decode_der_length bs cursor = Inr (length body, cursor + length (length_octets (length body)))"
    using decode_der_length_complete [of "length body" ?pre "body @ ?post"] r pre bs by metis
  moreover have "subslice bs (cursor + length (length_octets (length body))) c = body"
  proof -
    let ?m = "cursor + length (length_octets (length body))"
    have "subslice bs cursor ?m @ subslice bs ?m c = length_octets (length body) @ body"
      using r c slice_append_slice [of cursor ?m c bs] by simp
    moreover have "length (subslice bs cursor ?m) = length (length_octets (length body))"
      using r c length_subslice_in [of cursor ?m bs] by linarith
    ultimately show ?thesis by simp
  qed
  ultimately show ?l using r c assms by (simp add: take_element_body_def get_range_def)
qed

lemma take_der_element_iff:
  assumes "length bs < 2 ^ 64"
  shows "take_der_element bs cursor tag = Inr (body, c) \<longleftrightarrow>
    cursor \<le> c \<and> c \<le> length bs \<and> subslice bs cursor c = tlv [tag] body \<and> length body < 2 ^ 32"
    (is "?l \<longleftrightarrow> ?r")
proof -
  have "?l \<longleftrightarrow> cursor < length bs \<and> bs ! cursor = tag \<and> take_element_body bs (Suc cursor) = Inr (body, c)"
    by (auto simp: take_der_element_def bindE_eq_Inr)
  also have "\<dots> \<longleftrightarrow> ?r"
  proof (cases "cursor < c \<and> c \<le> length bs")
    case True
    then show ?thesis
      using subslice_Cons [of cursor c bs] by (auto simp: take_element_body_iff [OF assms] tlv_octets)
  next
    case False
    then show ?thesis by (auto simp: take_element_body_iff [OF assms] tlv_octets)
  qed
  finally show ?thesis .
qed

lemma take_private_manb_element_iff:
  assumes "length bs < 2 ^ 64"
  shows "take_private_manb_element bs cursor = Inr (body, c) \<longleftrightarrow>
    cursor \<le> c \<and> c \<le> length bs \<and> subslice bs cursor c = tlv MANB_IDENTIFIER_BYTES body \<and> length body < 2 ^ 32"
    (is "?l \<longleftrightarrow> ?r")
proof -
  let ?m = "cursor + length MANB_IDENTIFIER_BYTES"
  have "?l \<longleftrightarrow> ?m \<le> length bs \<and> subslice bs cursor ?m = MANB_IDENTIFIER_BYTES \<and> take_element_body bs ?m = Inr (body, c)"
    by (auto simp: take_private_manb_element_def get_range_def split: if_splits)
  also have "\<dots> \<longleftrightarrow> ?r"
  proof
    assume "?m \<le> length bs \<and> subslice bs cursor ?m = MANB_IDENTIFIER_BYTES \<and> take_element_body bs ?m = Inr (body, c)"
    then show ?r using slice_append_slice [of cursor ?m c bs] by (simp add: take_element_body_iff [OF assms] tlv_octets)
  next
    assume r: ?r
    have "length (subslice bs cursor c) = c - cursor" using r by (intro length_subslice_in) simp_all
    moreover have "length MANB_IDENTIFIER_BYTES \<le> length (subslice bs cursor c)" using r by (simp add: tlv_octets)
    ultimately have m: "?m \<le> c" using r by linarith
    then have split: "subslice bs cursor ?m @ subslice bs ?m c
        = MANB_IDENTIFIER_BYTES @ length_octets (length body) @ body"
      using r slice_append_slice [of cursor ?m c bs] by (simp add: tlv_octets)
    have "length (subslice bs cursor ?m) = length MANB_IDENTIFIER_BYTES"
      using r m length_subslice_in [of cursor ?m bs] by linarith
    with split have "subslice bs cursor ?m = MANB_IDENTIFIER_BYTES"
      "subslice bs ?m c = length_octets (length body) @ body" by simp_all
    with r m show "?m \<le> length bs \<and> subslice bs cursor ?m = MANB_IDENTIFIER_BYTES \<and> take_element_body bs ?m = Inr (body, c)"
      by (simp add: take_element_body_iff [OF assms])
  qed
  finally show ?thesis .
qed

lemma length_tlv_body: "length body \<le> length (tlv identifier body)"
  by (simp add: tlv_octets)

text \<open>
  The manifest a signer sends: the elements as the DER writer builds them. The bytes the reader looks
  for are the writer's private tag of the code.
\<close>

lemma manb_identifier: "fourcc_private (ascii ''MANB'') = Inr MANB_IDENTIFIER_BYTES"
  by code_simp

definition manb_body :: "bytes \<Rightarrow> bytes" where
  "manb_body inner =
     der_set (tlv MANB_IDENTIFIER_BYTES (der_sequence (tlv [0x16] (ascii ''MANB'') @ der_set inner)))"

lemma whole_der_element:
  "length bs < 2 ^ 64 \<Longrightarrow> take_der_element bs 0 tag = Inr (body, length bs) \<longleftrightarrow> bs = tlv [tag] body \<and> length body < 2 ^ 32"
  by (auto simp: take_der_element_iff)

lemma whole_manb_element:
  "length bs < 2 ^ 64 \<Longrightarrow>
   take_private_manb_element bs 0 = Inr (body, length bs) \<longleftrightarrow> bs = tlv MANB_IDENTIFIER_BYTES body \<and> length body < 2 ^ 32"
  by (auto simp: take_private_manb_element_iff)

lemma two_der_elements:
  assumes "length bs < 2 ^ 64"
  shows "(\<exists>c. take_der_element bs 0 t1 = Inr (b1, c) \<and> take_der_element bs c t2 = Inr (b2, length bs))
    \<longleftrightarrow> bs = tlv [t1] b1 @ tlv [t2] b2 \<and> length b1 < 2 ^ 32 \<and> length b2 < 2 ^ 32" (is "?l \<longleftrightarrow> ?r")
proof
  assume ?l
  then obtain c where "c \<le> length bs" "subslice bs 0 c = tlv [t1] b1" "subslice bs c (length bs) = tlv [t2] b2"
    "length b1 < 2 ^ 32" "length b2 < 2 ^ 32" by (auto simp: take_der_element_iff [OF assms])
  then show ?r using slice_append_slice [of 0 c "length bs" bs] by simp
next
  assume ?r
  then show ?l
    unfolding take_der_element_iff [OF assms]
    by (intro exI [of _ "length (tlv [t1] b1)"]) (auto simp: subslice_def)
qed

lemma validate_manb_steps:
  "validate_signed_manb_body body = Inr () \<longleftrightarrow>
     body \<noteq> [] \<and> int (length body) \<le> MAX_SIGNED_BODY_BYTES
     \<and> (\<exists>s p q inner. take_der_element body 0 0x31 = Inr (s, length body)
         \<and> take_private_manb_element s 0 = Inr (p, length s) \<and> take_der_element p 0 0x30 = Inr (q, length p)
         \<and> (\<exists>c. take_der_element q 0 0x16 = Inr (ascii ''MANB'', c) \<and> take_der_element q c 0x31 = Inr (inner, length q))
         \<and> inner \<noteq> [])"
  unfolding validate_signed_manb_body_def
  by (auto simp: bindE_eq_Inr split: if_splits)

section \<open>Properties\<close>

text \<open>
  Claim C34. A manifest is accepted for signing exactly when the DER writer could have built it: a set
  with one private \<open>MANB\<close> element, holding one sequence of the string \<open>MANB\<close> and a non-empty set, with
  every length in its shortest form and no byte left over anywhere, within the size limit.
\<close>

theorem manb_body_exact:
  "validate_signed_manb_body body = Inr () \<longleftrightarrow>
     int (length body) \<le> MAX_SIGNED_BODY_BYTES \<and> (\<exists>inner. inner \<noteq> [] \<and> body = manb_body inner)"
    (is "?l \<longleftrightarrow> ?r")
proof (cases "int (length body) \<le> MAX_SIGNED_BODY_BYTES")
  case small: True
  have sizes: "length x < 2 ^ 64 \<and> length x < 2 ^ 32" if "length x \<le> length body" for x :: bytes
    using small that by (simp add: MAX_SIGNED_BODY_BYTES_def)
  show ?thesis
  proof
    assume ?l
    then obtain s p q inner where steps: "take_der_element body 0 0x31 = Inr (s, length body)"
      "take_private_manb_element s 0 = Inr (p, length s)" "take_der_element p 0 0x30 = Inr (q, length p)"
      "\<exists>c. take_der_element q 0 0x16 = Inr (ascii ''MANB'', c) \<and> take_der_element q c 0x31 = Inr (inner, length q)"
      "inner \<noteq> []" unfolding validate_manb_steps by blast
    have b: "body = tlv [0x31] s" using steps(1) whole_der_element [of body "0x31" s] sizes [of body] by simp
    then have s: "length s \<le> length body" using length_tlv_body [of s "[0x31]"] by simp
    then have sp: "s = tlv MANB_IDENTIFIER_BYTES p" using steps(2) whole_manb_element [of s p] sizes [of s] by simp
    then have p: "length p \<le> length body" using length_tlv_body [of p MANB_IDENTIFIER_BYTES] s by simp
    then have pq: "p = tlv [0x30] q" using steps(3) whole_der_element [of p "0x30" q] sizes [of p] by simp
    then have q: "length q \<le> length body" using length_tlv_body [of q "[0x30]"] p by simp
    have "q = tlv [0x16] (ascii ''MANB'') @ tlv [0x31] inner"
      using steps(4) two_der_elements [of q] sizes [OF q] by blast
    with b sp pq steps(5) small show ?r
      by (auto simp: manb_body_def der_set_def der_sequence_def IDENTIFIER_SET_def IDENTIFIER_SEQUENCE_def)
  next
    assume ?r
    then obtain inner where inner: "inner \<noteq> []" and body: "body = manb_body inner" by blast
    let ?q = "tlv [0x16] (ascii ''MANB'') @ tlv [0x31] inner"
    let ?p = "tlv [0x30] ?q"
    let ?s = "tlv MANB_IDENTIFIER_BYTES ?p"
    have b: "body = tlv [0x31] ?s"
      by (simp add: body manb_body_def der_set_def der_sequence_def IDENTIFIER_SET_def IDENTIFIER_SEQUENCE_def)
    have len: "length ?s \<le> length body" "length ?p \<le> length body" "length ?q \<le> length body" "length inner \<le> length body"
      unfolding b by (simp_all add: tlv_octets)
    have "take_der_element body 0 0x31 = Inr (?s, length body)"
      using whole_der_element [of body] b sizes [of body] sizes [OF len(1)] by simp
    moreover have "take_private_manb_element ?s 0 = Inr (?p, length ?s)"
      using whole_manb_element [of ?s] sizes [OF len(1)] sizes [OF len(2)] by simp
    moreover have "take_der_element ?p 0 0x30 = Inr (?q, length ?p)"
      using whole_der_element [of ?p] sizes [OF len(2)] sizes [OF len(3)] by simp
    moreover have "\<exists>c. take_der_element ?q 0 0x16 = Inr (ascii ''MANB'', c) \<and> take_der_element ?q c 0x31 = Inr (inner, length ?q)"
      using two_der_elements [of ?q] sizes [OF len(3)] sizes [OF len(4)] by (simp add: ascii_def)
    moreover have "body \<noteq> []" by (simp add: b tlv_octets)
    ultimately show ?l using inner small unfolding validate_manb_steps by blast
  qed
qed (simp add: validate_signed_manb_body_def)

lemma be_field: "length xs = n \<Longrightarrow> 8 * n = LENGTH('a::len) \<Longrightarrow> be_bytes n (of_be xs :: 'a word) = xs"
  by (simp add: be_bytes_of_be)

lemma split_at: "n \<le> length xs \<Longrightarrow> subslice xs 0 n @ drop n xs = xs"
  by (simp add: subslice_def)

lemma credit_roundtrip: "encode_credit c = Inr p \<Longrightarrow> decode_credit p = Inr c"
  by (auto simp: encode_credit_def decode_credit_def subslice_def split: if_splits)

lemma credit_canonical:
  assumes "decode_credit p = Inr c"
  shows "encode_credit c = Inr p"
proof -
  from assms have len: "length p = 8" and mid: "subslice p 1 4 = [0, 0, 0]"
    by (auto simp: decode_credit_def split: if_splits)
  have "p = (subslice p 0 1 @ subslice p 1 4) @ subslice p 4 8"
    using len by (simp only: slice_append_slice) simp
  moreover have "subslice p 0 1 = [p ! 0]" using len subslice_Cons [of 0 1 p] by simp
  ultimately have "[p ! 0] @ [0, 0, 0] @ be32 (from_be32 (subslice p 4 8)) = p"
    using len mid be_field [of "subslice p 4 8" 4, where 'a = 32] by simp
  with assms show ?thesis by (auto simp: decode_credit_def encode_credit_def Let_def split: if_splits)
qed

lemma stats_roundtrip: "decode_stats (encode_stats s) = Inr s"
  by (simp add: decode_stats_def encode_stats_def subslice_def nth_append)

lemma sign_request_roundtrip: "sign_request_encode r = Inr p \<Longrightarrow> sign_request_decode p = Inr r"
proof -
  assume "sign_request_encode r = Inr p"
  then have ok: "validate_signed_manb_body (signed_body r) = Inr ()" and small: "int (length (signed_body r)) < 2 ^ 32"
    and p: "p = be16 SIGNING_ENCODING_VERSION @ be16 SIGNING_DIGEST_ALGORITHM
      @ be32 (word_of_nat (length (signed_body r))) @ signed_body r"
    by (auto simp: sign_request_encode_def bindE_eq_Inr split: if_splits)
  have "int (length (signed_body r)) \<le> MAX_SIGNED_BODY_BYTES"
    using ok by (auto simp: validate_signed_manb_body_def split: if_splits)
  moreover have "unat (word_of_nat (length (signed_body r)) :: u32) = length (signed_body r)"
    using small by (simp add: unat_of_nat_small)
  ultimately show ?thesis using ok by (simp add: sign_request_decode_def p subslice_def)
qed

lemma sign_request_canonical:
  assumes "sign_request_decode p = Inr r"
  shows "sign_request_encode r = Inr p"
proof -
  from assms have len: "8 \<le> length p" "length p = 8 + unat (from_be32 (subslice p 4 8))"
    and hdr: "from_be16 (subslice p 0 2) = SIGNING_ENCODING_VERSION" "from_be16 (subslice p 2 4) = SIGNING_DIGEST_ALGORITHM"
    and ok: "validate_signed_manb_body (drop 8 p) = Inr ()" and r: "signed_body r = drop 8 p"
    by (auto simp: sign_request_decode_def Let_def bindE_eq_Inr split: if_splits)
  have "be16 SIGNING_ENCODING_VERSION = subslice p 0 2" "be16 SIGNING_DIGEST_ALGORITHM = subslice p 2 4"
    "be32 (from_be32 (subslice p 4 8)) = subslice p 4 8"
    unfolding hdr [symmetric] using len(1) by (simp_all add: be_field)
  moreover have "word_of_nat (length p - 8) = from_be32 (subslice p 4 8)" using len(2) by simp
  moreover have "p = ((subslice p 0 2 @ subslice p 2 4) @ subslice p 4 8) @ drop 8 p"
    using len(1) split_at [of 8 p] by (simp add: slice_append_slice)
  moreover have "int (length p - 8) < 2 ^ 32"
    using len(2) unsigned_less [of "from_be32 (subslice p 4 8)", where 'a = int] by simp
  ultimately show ?thesis using ok r by (simp add: sign_request_encode_def)
qed

definition signature_wf :: "FdrManifestSignature \<Rightarrow> bool" where
  "signature_wf s \<longleftrightarrow> length (digest_sha384 s) = 48 \<and> length (signature_rs s) = 64
     \<and> length (signer_public_key_uncompressed s) = 65 \<and> signer_public_key_uncompressed s ! 0 = 0x04"

lemma signature_roundtrip: "signature_wf s \<Longrightarrow> signature_decode (signature_encode s) = Inr s"
  by (simp add: signature_wf_def signature_decode_def signature_encode_def subslice_def)

text \<open>
  Claim C35. The fixed payloads of the bridge read back as what was written, and what a reader accepts is
  what the writer writes: credits, statistics, ping nonces, signing requests and signatures, where a
  signature has the lengths of its fields and an uncompressed key.
\<close>

theorem bridge_payloads_roundtrip:
  assumes "signature_wf s"
  shows "decode_stats (encode_stats st) = Inr st \<and> decode_ping_nonce (encode_ping_nonce n) = Inr n
    \<and> signature_decode (signature_encode s) = Inr s
    \<and> (encode_credit c = Inr p \<longleftrightarrow> decode_credit p = Inr c)
    \<and> (sign_request_encode r = Inr q \<longleftrightarrow> sign_request_decode q = Inr r)"
proof (intro conjI)
  show "decode_ping_nonce (encode_ping_nonce n) = Inr n" by (simp add: decode_ping_nonce_def encode_ping_nonce_def)
  show "encode_credit c = Inr p \<longleftrightarrow> decode_credit p = Inr c"
    by (rule iffI [OF credit_roundtrip credit_canonical])
  show "sign_request_encode r = Inr q \<longleftrightarrow> sign_request_decode q = Inr r"
    by (rule iffI [OF sign_request_roundtrip sign_request_canonical])
qed (rule stats_roundtrip, rule signature_roundtrip [OF assms])

theorem bridge_payloads_roundtrip_witness:
  "signature_decode (signature_encode \<lparr>signed_body_length = 7, digest_sha384 = replicate 48 1,
       signature_rs = replicate 64 2, signer_public_key_uncompressed = 4 # replicate 64 3\<rparr>)
     = Inr \<lparr>signed_body_length = 7, digest_sha384 = replicate 48 1,
       signature_rs = replicate 64 2, signer_public_key_uncompressed = 4 # replicate 64 3\<rparr>"
proof -
  have "signature_wf \<lparr>signed_body_length = 7, digest_sha384 = replicate 48 1,
       signature_rs = replicate 64 2, signer_public_key_uncompressed = 4 # replicate 64 3\<rparr>"
    by (simp add: signature_wf_def)
  from bridge_payloads_roundtrip [OF this] show ?thesis by blast
qed

end
