(* ===== verification/Bridge_Context.thy ===== *)
theory Bridge_Context imports Bridge_Payload begin

unbundle bit_operations_syntax

text \<open>
  The boot context record of the bridge (\<^verbatim>\<open>bridge_protocol.rs\<close>): optional parts behind a word of
  presence flags, with the digests of two of them checked on both sides.
\<close>

section \<open>Data\<close>

definition BOOT_CONTEXT_ENCODING_VERSION :: u16 where "BOOT_CONTEXT_ENCODING_VERSION = 1"

record BootContext =
  staged_boot_manifest_sha384 :: bytes
  staged_boot_manifest :: "bytes option"
  ap_nonce :: "bytes option"
  fdr_element_index :: u32
  fdr_element_count :: u32
  fdr_trust_digest_sha256 :: "bytes option"
  fdr_trust_object :: "bytes option"
  fdr_instance :: "bytes option"
  fdr_material_path :: "bytes option"
  sep_public_key_uncompressed :: "bytes option"
  remote_signer_available :: bool

text \<open>Well-formed UTF-8, as \<^verbatim>\<open>String::from_utf8\<close> checks it.\<close>

definition continuation :: "byte \<Rightarrow> bool" where
  "continuation b \<longleftrightarrow> 0x80 \<le> b \<and> b \<le> 0xbf"

definition utf8_second :: "byte \<Rightarrow> byte \<Rightarrow> bool" where
  "utf8_second b c \<longleftrightarrow> continuation c \<and> (b = 0xe0 \<longrightarrow> 0xa0 \<le> c) \<and> (b = 0xed \<longrightarrow> c \<le> 0x9f)
     \<and> (b = 0xf0 \<longrightarrow> 0x90 \<le> c) \<and> (b = 0xf4 \<longrightarrow> c \<le> 0x8f)"

definition utf8_width :: "byte \<Rightarrow> nat" where
  "utf8_width b =
     (if b < 0x80 then 1 else if 0xc2 \<le> b \<and> b \<le> 0xdf then 2 else if 0xe0 \<le> b \<and> b \<le> 0xef then 3
      else if 0xf0 \<le> b \<and> b \<le> 0xf4 then 4 else 0)"

function utf8_valid :: "bytes \<Rightarrow> bool" where
  "utf8_valid bs =
     (case bs of
        [] \<Rightarrow> True
      | b # rest \<Rightarrow>
          let w = utf8_width b
          in w \<noteq> 0 \<and> w \<le> length bs \<and> (w = 1 \<or> utf8_second b (rest ! 0))
             \<and> list_all continuation (take (w - 2) (drop 1 rest))
             \<and> (if w = 0 then False else utf8_valid (drop w bs)))"
  by pat_completeness auto
termination
  by (relation "measure length") (auto simp: Let_def)

declare utf8_valid.simps [simp del]

section \<open>Encoding\<close>

definition material_path_ok :: "bytes \<Rightarrow> bool" where
  "material_path_ok bs \<longleftrightarrow> \<not> (bs = [] \<or> bs ! 0 \<noteq> 0x2f \<or> 0 \<in> set bs)"

definition trust_flags :: "BootContext \<Rightarrow> u32 \<Rightarrow> BridgeError + u32" where
  "trust_flags c flags =
     (case (fdr_trust_object c, fdr_trust_digest_sha256 c) of
        (Some object, Some digest) \<Rightarrow>
          if object = [] then Inl (InvalidInput ''trust object must not be empty'')
          else if fdr_element_count c = 0 \<or> fdr_element_index c \<ge> fdr_element_count c
          then Inl (InvalidInput ''FDR element metadata is invalid'')
          else if sha256 object \<noteq> digest then Inl (InvalidInput ''trust digest does not match trust object'')
          else Inr (flags OR push_bit 1 1)
      | (None, None) \<Rightarrow>
          if fdr_element_index c \<noteq> 0 \<or> fdr_element_count c \<noteq> 0
          then Inl (InvalidInput ''FDR element metadata must be zero without trust data'')
          else Inr flags
      | _ \<Rightarrow> Inl (InvalidInput ''trust object and digest must appear together''))"

definition instance_flags :: "BootContext \<Rightarrow> u32 \<Rightarrow> BridgeError + u32" where
  "instance_flags c flags =
     (case fdr_instance c of
        None \<Rightarrow> Inr flags
      | Some inst \<Rightarrow>
          if fdr_trust_object c = None then Inl (InvalidInput ''FDR instance requires trust data'')
          else if inst = [] then Inl (InvalidInput ''FDR instance must not be empty'')
          else Inr (flags OR push_bit 2 1))"

definition path_flags :: "BootContext \<Rightarrow> u32 \<Rightarrow> BridgeError + u32" where
  "path_flags c flags =
     (case fdr_material_path c of
        None \<Rightarrow> Inr flags
      | Some path \<Rightarrow>
          if fdr_trust_object c = None then Inl (InvalidInput ''FDR material path requires trust data'')
          else if \<not> material_path_ok path then Inl (InvalidInput ''FDR material path must be nonempty absolute raw Unix bytes with no NUL'')
          else Inr (flags OR push_bit 3 1))"

definition sep_flags :: "BootContext \<Rightarrow> u32 \<Rightarrow> BridgeError + u32" where
  "sep_flags c flags =
     (case sep_public_key_uncompressed c of
        None \<Rightarrow> Inr flags
      | Some sep \<Rightarrow>
          if sep ! 0 \<noteq> 0x04 then Inl (InvalidInput ''SEP public key must be uncompressed SEC1'')
          else Inr (flags OR push_bit 4 1))"

definition signer_flags :: "BootContext \<Rightarrow> u32 \<Rightarrow> BridgeError + u32" where
  "signer_flags c flags =
     (if remote_signer_available c then
        if sep_public_key_uncompressed c = None
        then Inl (InvalidInput ''remote signer requires SEP public key'') else Inr (flags OR push_bit 5 1)
      else Inr flags)"

definition manifest_flags :: "BootContext \<Rightarrow> u32 \<Rightarrow> BridgeError + u32" where
  "manifest_flags c flags =
     (case staged_boot_manifest c of
        None \<Rightarrow> Inr flags
      | Some manifest \<Rightarrow>
          if manifest = [] \<or> sha384 manifest \<noteq> staged_boot_manifest_sha384 c
          then Inl (InvalidInput ''staged boot manifest digest mismatch'')
          else Inr (flags OR push_bit 6 1))"

definition opt_bytes :: "bytes option \<Rightarrow> bytes" where
  "opt_bytes x = (case x of None \<Rightarrow> [] | Some bs \<Rightarrow> bs)"

definition u32_len :: "string \<Rightarrow> bytes \<Rightarrow> BridgeError + u32" where
  "u32_len message bs =
     (if int (length bs) \<ge> 2 ^ 32 then Inl (InvalidInput message) else Inr (word_of_nat (length bs)))"

definition context_encode :: "BootContext \<Rightarrow> BridgeError + bytes" where
  "context_encode c =
     bindE (trust_flags c (if ap_nonce c = None then 0 else 0 OR push_bit 0 1)) (\<lambda>flags.
     bindE (instance_flags c flags) (\<lambda>flags.
     bindE (path_flags c flags) (\<lambda>flags.
     bindE (sep_flags c flags) (\<lambda>flags.
     bindE (signer_flags c flags) (\<lambda>flags.
     bindE (manifest_flags c flags) (\<lambda>flags.
     bindE (u32_len ''trust object too large'' (opt_bytes (fdr_trust_object c))) (\<lambda>trust_object_len.
     bindE (u32_len ''instance too large'' (opt_bytes (fdr_instance c))) (\<lambda>instance_len.
     bindE (u32_len ''material path too large'' (opt_bytes (fdr_material_path c))) (\<lambda>material_len.
     bindE (u32_len ''staged boot manifest too large'' (opt_bytes (staged_boot_manifest c))) (\<lambda>manifest_len.
       let out = be16 BOOT_CONTEXT_ENCODING_VERSION @ be16 0 @ be32 flags @ be32 (fdr_element_index c)
                   @ be32 (fdr_element_count c) @ be32 trust_object_len @ be32 instance_len @ be32 material_len
                   @ be32 manifest_len @ staged_boot_manifest_sha384 c @ opt_bytes (ap_nonce c)
                   @ opt_bytes (fdr_trust_digest_sha256 c) @ opt_bytes (fdr_trust_object c)
                   @ opt_bytes (fdr_instance c) @ opt_bytes (fdr_material_path c)
                   @ opt_bytes (sep_public_key_uncompressed c) @ opt_bytes (staged_boot_manifest c)
       in if int (length out) > MAX_BOOT_CONTEXT_BYTES then Inl (InvalidInput ''boot context exceeds the limit'')
          else Inr out))))))))))"

section \<open>Decoding\<close>

definition slice_at :: "bytes \<Rightarrow> nat \<Rightarrow> nat \<Rightarrow> BridgeError + bytes \<times> nat" where
  "slice_at payload cursor len =
     (if int cursor + int len \<ge> 2 ^ 64 then Inl (InvalidData ''payload length overflow'')
      else
        bindE (ok_or (InvalidData ''payload truncated'') (get_range payload cursor (cursor + len))) (\<lambda>s.
          Inr (s, cursor + len)))"

definition take_fixed :: "nat \<Rightarrow> bytes \<Rightarrow> nat \<Rightarrow> BridgeError + bytes \<times> nat" where
  "take_fixed n payload cursor = map_err (\<lambda>e. InvalidData ''overruns payload'') (slice_at payload cursor n)"

definition take_nonce :: "u32 \<Rightarrow> bytes \<Rightarrow> nat \<Rightarrow> BridgeError + bytes option \<times> nat" where
  "take_nonce flags payload cursor =
     (if flags AND push_bit 0 1 \<noteq> 0
      then bindE (take_fixed 32 payload cursor) (\<lambda>(nonce, cursor). Inr (Some nonce, cursor))
      else Inr (None, cursor))"

definition take_trust ::
    "u32 \<Rightarrow> nat \<Rightarrow> nat \<Rightarrow> nat \<Rightarrow> u32 \<Rightarrow> u32 \<Rightarrow> bytes \<Rightarrow> nat \<Rightarrow> BridgeError + bytes option \<times> bytes option \<times> nat" where
  "take_trust flags trust_object_len instance_len material_len index count payload cursor =
     (if flags AND push_bit 1 1 \<noteq> 0 then
        bindE (take_fixed 32 payload cursor) (\<lambda>(digest, cursor).
        bindE (slice_at payload cursor trust_object_len) (\<lambda>(object, cursor).
          Inr (Some digest, Some object, cursor)))
      else if trust_object_len \<noteq> 0 \<or> index \<noteq> 0 \<or> count \<noteq> 0 \<or> instance_len \<noteq> 0 \<or> material_len \<noteq> 0
      then Inl (InvalidData ''boot context has FDR lengths without FDR presence bit'')
      else Inr (None, None, cursor))"

definition take_instance :: "u32 \<Rightarrow> nat \<Rightarrow> bytes \<Rightarrow> nat \<Rightarrow> BridgeError + bytes option \<times> nat" where
  "take_instance flags instance_len payload cursor =
     (if flags AND push_bit 2 1 \<noteq> 0 then
        if flags AND push_bit 1 1 = 0 then Inl (InvalidData ''boot context instance requires FDR trust data'')
        else
          bindE (slice_at payload cursor instance_len) (\<lambda>(bs, cursor).
            if \<not> utf8_valid bs then Inl (InvalidData ''invalid FDR instance UTF-8'') else Inr (Some bs, cursor))
      else if instance_len \<noteq> 0 then Inl (InvalidData ''boot context instance length without presence bit'')
      else Inr (None, cursor))"

definition take_path :: "u32 \<Rightarrow> nat \<Rightarrow> bytes \<Rightarrow> nat \<Rightarrow> BridgeError + bytes option \<times> nat" where
  "take_path flags material_len payload cursor =
     (if flags AND push_bit 3 1 \<noteq> 0 then
        if flags AND push_bit 1 1 = 0 then Inl (InvalidData ''boot context material path requires FDR trust data'')
        else
          bindE (slice_at payload cursor material_len) (\<lambda>(bs, cursor).
            if \<not> material_path_ok bs then Inl (InvalidData ''boot context material path must be nonempty absolute raw Unix bytes with no NUL'')
            else Inr (Some bs, cursor))
      else if material_len \<noteq> 0 then Inl (InvalidData ''boot context material path length without presence bit'')
      else Inr (None, cursor))"

definition take_sep :: "u32 \<Rightarrow> bytes \<Rightarrow> nat \<Rightarrow> BridgeError + bytes option \<times> nat" where
  "take_sep flags payload cursor =
     (if flags AND push_bit 4 1 \<noteq> 0 then
        bindE (take_fixed 65 payload cursor) (\<lambda>(key, cursor).
          if key ! 0 \<noteq> 0x04 then Inl (InvalidData ''boot context SEP public key must be uncompressed SEC1'')
          else Inr (Some key, cursor))
      else Inr (None, cursor))"

definition take_manifest :: "u32 \<Rightarrow> nat \<Rightarrow> bytes \<Rightarrow> bytes \<Rightarrow> nat \<Rightarrow> BridgeError + bytes option \<times> nat" where
  "take_manifest flags manifest_len digest payload cursor =
     (if flags AND push_bit 6 1 \<noteq> 0 then
        bindE (slice_at payload cursor manifest_len) (\<lambda>(manifest, cursor).
          if manifest = [] \<or> sha384 manifest \<noteq> digest
          then Inl (InvalidData ''staged boot manifest digest mismatch'') else Inr (Some manifest, cursor))
      else if manifest_len \<noteq> 0 then Inl (InvalidData ''boot context manifest length without presence bit'')
      else Inr (None, cursor))"

definition check_trust :: "bytes option \<Rightarrow> bytes option \<Rightarrow> nat \<Rightarrow> u32 \<Rightarrow> u32 \<Rightarrow> BridgeError + unit" where
  "check_trust digest object trust_object_len index count =
     (case digest of
        None \<Rightarrow> Inr ()
      | Some digest \<Rightarrow>
          if trust_object_len = 0 \<or> count = 0 \<or> index \<ge> count
          then Inl (InvalidData ''boot context FDR element metadata is invalid'')
          else if sha256 (the object) \<noteq> digest
          then Inl (InvalidData ''boot context trust digest does not match trust object'') else Inr ())"

definition context_decode :: "bytes \<Rightarrow> BridgeError + BootContext" where
  "context_decode payload =
     (if length payload < 80 then Inl (InvalidData ''boot context payload too short'')
      else if int (length payload) > MAX_BOOT_CONTEXT_BYTES
      then Inl (InvalidData ''boot context payload exceeds the limit'')
      else
        let encoding_version = from_be16 (subslice payload 0 2);
            reserved0 = from_be16 (subslice payload 2 4);
            flags = from_be32 (subslice payload 4 8);
            index = from_be32 (subslice payload 8 12);
            count = from_be32 (subslice payload 12 16);
            trust_object_len = unat (from_be32 (subslice payload 16 20));
            instance_len = unat (from_be32 (subslice payload 20 24));
            material_len = unat (from_be32 (subslice payload 24 28));
            manifest_len = unat (from_be32 (subslice payload 28 32))
        in if encoding_version \<noteq> BOOT_CONTEXT_ENCODING_VERSION \<or> reserved0 \<noteq> 0
           then Inl (InvalidData ''boot context prefix is invalid'')
           else if flags AND NOT 0x7f \<noteq> 0 then Inl (InvalidData ''unknown boot context flags'')
           else
             bindE (take_fixed 48 payload 32) (\<lambda>(manifest_digest, cursor).
             bindE (take_nonce flags payload cursor) (\<lambda>(nonce, cursor).
             bindE (take_trust flags trust_object_len instance_len material_len index count payload cursor)
               (\<lambda>(digest, object, cursor).
             bindE (take_instance flags instance_len payload cursor) (\<lambda>(inst, cursor).
             bindE (take_path flags material_len payload cursor) (\<lambda>(path, cursor).
             bindE (take_sep flags payload cursor) (\<lambda>(sep, cursor).
             let remote = (flags AND push_bit 5 1 \<noteq> 0) in
             bindE (take_manifest flags manifest_len manifest_digest payload cursor) (\<lambda>(manifest, cursor).
             if remote \<and> sep = None then Inl (InvalidData ''boot context remote signer requires SEP public key'')
             else if cursor \<noteq> length payload then Inl (InvalidData ''boot context has trailing bytes'')
             else
               bindE (check_trust digest object trust_object_len index count) (\<lambda>_.
                 Inr \<lparr>staged_boot_manifest_sha384 = manifest_digest, staged_boot_manifest = manifest,
                      ap_nonce = nonce, fdr_element_index = index, fdr_element_count = count,
                      fdr_trust_digest_sha256 = digest, fdr_trust_object = object, fdr_instance = inst,
                      fdr_material_path = path, sep_public_key_uncompressed = sep,
                      remote_signer_available = remote\<rparr>)))))))))"

section \<open>Reading back\<close>

text \<open>The lengths and the text that the types of the source enforce.\<close>

definition context_wf :: "BootContext \<Rightarrow> bool" where
  "context_wf c \<longleftrightarrow> length (staged_boot_manifest_sha384 c) = 48
     \<and> pred_option (\<lambda>x. length x = 32) (ap_nonce c)
     \<and> pred_option (\<lambda>x. length x = 32) (fdr_trust_digest_sha256 c)
     \<and> pred_option (\<lambda>x. length x = 65) (sep_public_key_uncompressed c)
     \<and> pred_option utf8_valid (fdr_instance c)"

definition present :: "BootContext \<Rightarrow> nat \<Rightarrow> bool" where
  "present c k \<longleftrightarrow> (k = 0 \<and> ap_nonce c \<noteq> None) \<or> (k = 1 \<and> fdr_trust_object c \<noteq> None)
     \<or> (k = 2 \<and> fdr_instance c \<noteq> None) \<or> (k = 3 \<and> fdr_material_path c \<noteq> None)
     \<or> (k = 4 \<and> sep_public_key_uncompressed c \<noteq> None) \<or> (k = 5 \<and> remote_signer_available c)
     \<or> (k = 6 \<and> staged_boot_manifest c \<noteq> None)"

definition context_image :: "BootContext \<Rightarrow> u32 \<Rightarrow> bytes" where
  "context_image c flags =
     be16 BOOT_CONTEXT_ENCODING_VERSION @ be16 0 @ be32 flags @ be32 (fdr_element_index c)
       @ be32 (fdr_element_count c) @ be32 (word_of_nat (length (opt_bytes (fdr_trust_object c))))
       @ be32 (word_of_nat (length (opt_bytes (fdr_instance c))))
       @ be32 (word_of_nat (length (opt_bytes (fdr_material_path c))))
       @ be32 (word_of_nat (length (opt_bytes (staged_boot_manifest c))))
       @ staged_boot_manifest_sha384 c @ opt_bytes (ap_nonce c)
       @ opt_bytes (fdr_trust_digest_sha256 c) @ opt_bytes (fdr_trust_object c)
       @ opt_bytes (fdr_instance c) @ opt_bytes (fdr_material_path c)
       @ opt_bytes (sep_public_key_uncompressed c) @ opt_bytes (staged_boot_manifest c)"

lemma flag_bit: "flags AND push_bit k 1 \<noteq> 0 \<longleftrightarrow> bit flags k" for flags :: u32
  by (simp add: bit_iff_and_push_bit_not_eq_0)

lemma flag_unset: "flags AND push_bit k 1 = 0 \<longleftrightarrow> \<not> bit flags k" for flags :: u32
  by (metis flag_bit)

lemma bit_flag_OR: "k < 32 \<Longrightarrow> bit (flags OR push_bit k 1) j \<longleftrightarrow> bit flags j \<or> j = k" for flags :: u32
  by (auto simp: bit_simps)

lemmas bit_flags = bit_flag_OR [of 1, simplified] bit_flag_OR [of 2, simplified] bit_flag_OR [of 3, simplified]
  bit_flag_OR [of 4, simplified] bit_flag_OR [of 5, simplified] bit_flag_OR [of 6, simplified]

lemma bit_start: "bit (if b then 0 else 0 OR push_bit 0 1 :: u32) j \<longleftrightarrow> \<not> b \<and> j = 0"
  by (auto simp: bit_simps)

text \<open>What a context must satisfy to be encoded.\<close>

definition context_ok :: "BootContext \<Rightarrow> bool" where
  "context_ok c \<longleftrightarrow>
     (case (fdr_trust_object c, fdr_trust_digest_sha256 c) of
        (Some object, Some digest) \<Rightarrow> object \<noteq> [] \<and> fdr_element_index c < fdr_element_count c \<and> sha256 object = digest
      | (None, None) \<Rightarrow> fdr_element_index c = 0 \<and> fdr_element_count c = 0 \<and> fdr_instance c = None \<and> fdr_material_path c = None
      | _ \<Rightarrow> False)
     \<and> pred_option (\<lambda>x. x \<noteq> []) (fdr_instance c) \<and> pred_option material_path_ok (fdr_material_path c)
     \<and> pred_option (\<lambda>x. x ! 0 = 0x04) (sep_public_key_uncompressed c)
     \<and> (remote_signer_available c \<longrightarrow> sep_public_key_uncompressed c \<noteq> None)
     \<and> pred_option (\<lambda>x. x \<noteq> [] \<and> sha384 x = staged_boot_manifest_sha384 c) (staged_boot_manifest c)"

lemma trust_flags_Inr:
  "trust_flags c f = Inr g \<Longrightarrow>
   (case (fdr_trust_object c, fdr_trust_digest_sha256 c) of
      (Some object, Some digest) \<Rightarrow> object \<noteq> [] \<and> fdr_element_index c < fdr_element_count c \<and> sha256 object = digest
    | (None, None) \<Rightarrow> fdr_element_index c = 0 \<and> fdr_element_count c = 0
    | _ \<Rightarrow> False) \<and> (\<forall>j. bit g j \<longleftrightarrow> bit f j \<or> (j = 1 \<and> fdr_trust_object c \<noteq> None))"
  by (auto simp: trust_flags_def bit_flags not_le split: option.splits if_splits)

lemma instance_flags_Inr:
  "instance_flags c f = Inr g \<Longrightarrow>
   pred_option (\<lambda>x. x \<noteq> [] \<and> fdr_trust_object c \<noteq> None) (fdr_instance c)
   \<and> (\<forall>j. bit g j \<longleftrightarrow> bit f j \<or> (j = 2 \<and> fdr_instance c \<noteq> None))"
  by (auto simp: instance_flags_def bit_flags split: option.splits if_splits)

lemma path_flags_Inr:
  "path_flags c f = Inr g \<Longrightarrow>
   pred_option (\<lambda>x. material_path_ok x \<and> fdr_trust_object c \<noteq> None) (fdr_material_path c)
   \<and> (\<forall>j. bit g j \<longleftrightarrow> bit f j \<or> (j = 3 \<and> fdr_material_path c \<noteq> None))"
  by (auto simp: path_flags_def bit_flags split: option.splits if_splits)

lemma sep_flags_Inr:
  "sep_flags c f = Inr g \<Longrightarrow> pred_option (\<lambda>x. x ! 0 = 0x04) (sep_public_key_uncompressed c)
   \<and> (\<forall>j. bit g j \<longleftrightarrow> bit f j \<or> (j = 4 \<and> sep_public_key_uncompressed c \<noteq> None))"
  by (auto simp: sep_flags_def bit_flags split: option.splits if_splits)

lemma signer_flags_Inr:
  "signer_flags c f = Inr g \<Longrightarrow> (remote_signer_available c \<longrightarrow> sep_public_key_uncompressed c \<noteq> None)
   \<and> (\<forall>j. bit g j \<longleftrightarrow> bit f j \<or> (j = 5 \<and> remote_signer_available c))"
  by (auto simp: signer_flags_def bit_flags split: if_splits)

lemma manifest_flags_Inr:
  "manifest_flags c f = Inr g \<Longrightarrow>
   pred_option (\<lambda>x. x \<noteq> [] \<and> sha384 x = staged_boot_manifest_sha384 c) (staged_boot_manifest c)
   \<and> (\<forall>j. bit g j \<longleftrightarrow> bit f j \<or> (j = 6 \<and> staged_boot_manifest c \<noteq> None))"
  by (auto simp: manifest_flags_def bit_flags split: option.splits if_splits)

lemmas flags_Inr = trust_flags_Inr instance_flags_Inr path_flags_Inr sep_flags_Inr signer_flags_Inr manifest_flags_Inr

lemma u32_len_Inr: "u32_len m bs = Inr n \<longleftrightarrow> int (length bs) < 2 ^ 32 \<and> n = word_of_nat (length bs)"
  by (auto simp: u32_len_def)

lemma context_encode_Inr:
  assumes "context_encode c = Inr p"
  shows "\<exists>flags. p = context_image c flags \<and> (\<forall>j. bit flags j \<longleftrightarrow> present c j) \<and> context_ok c
    \<and> int (length p) \<le> MAX_BOOT_CONTEXT_BYTES"
proof -
  from assms obtain f1 f2 f3 f4 f5 f6 where
    f: "trust_flags c (if ap_nonce c = None then 0 else 0 OR push_bit 0 1) = Inr f1" "instance_flags c f1 = Inr f2"
      "path_flags c f2 = Inr f3" "sep_flags c f3 = Inr f4" "signer_flags c f4 = Inr f5" "manifest_flags c f5 = Inr f6"
    and p: "p = context_image c f6" and len: "int (length p) \<le> MAX_BOOT_CONTEXT_BYTES"
    unfolding context_encode_def
    by (auto simp: bindE_eq_Inr u32_len_Inr context_image_def Let_def split: if_splits)
  have "\<forall>j. bit f6 j \<longleftrightarrow> present c j"
    using f(1) [THEN flags_Inr(1)] f(2) [THEN flags_Inr(2)] f(3) [THEN flags_Inr(3)] f(4) [THEN flags_Inr(4)]
      f(5) [THEN flags_Inr(5)] f(6) [THEN flags_Inr(6)]
    by (simp add: present_def bit_start) blast
  moreover have "context_ok c"
    using f(1) [THEN flags_Inr(1), THEN conjunct1] f(2) [THEN flags_Inr(2), THEN conjunct1]
      f(3) [THEN flags_Inr(3), THEN conjunct1] f(4) [THEN flags_Inr(4), THEN conjunct1]
      f(5) [THEN flags_Inr(5), THEN conjunct1] f(6) [THEN flags_Inr(6), THEN conjunct1]
    unfolding context_ok_def by (auto split: option.splits simp: option.pred_set option.set_sel)
  ultimately show ?thesis using p len by blast
qed

text \<open>A part of the payload is read back where it was put.\<close>

lemma slice_at_app:
  assumes "p = pre @ x @ post" "q = pre @ x" "int (length p) < 2 ^ 64"
  shows "slice_at p (length pre) (length x) = Inr (x, length q)"
proof -
  have "get_range p (length pre) (length pre + length x) = Some x" using assms(1) by (simp add: subslice_def)
  then show ?thesis using assms by (simp del: get_range_Some add: slice_at_def ok_or_def)
qed

lemma take_fixed_app:
  "p = pre @ x @ post \<Longrightarrow> q = pre @ x \<Longrightarrow> int (length p) < 2 ^ 64 \<Longrightarrow> length x = n
    \<Longrightarrow> take_fixed n p (length pre) = Inr (x, length q)"
  using slice_at_app [of p pre x post q] by (simp add: take_fixed_def map_err_def)

lemma take_nonce_app:
  assumes "p = pre @ opt_bytes x @ post" "q = pre @ opt_bytes x" "int (length p) < 2 ^ 64"
    and "bit flags 0 \<longleftrightarrow> x \<noteq> None" "pred_option (\<lambda>x. length x = 32) x"
  shows "take_nonce flags p (length pre) = Inr (x, length q)"
  using assms(2,4-) take_fixed_app [OF assms(1-3)]
  unfolding take_nonce_def flag_bit by (cases x) (simp_all add: opt_bytes_def)

lemma take_trust_app:
  assumes "p = pre @ opt_bytes digest @ opt_bytes object @ post" "q = pre @ opt_bytes digest @ opt_bytes object"
    and "int (length p) < 2 ^ 64"
    and "bit flags 1 \<longleftrightarrow> object \<noteq> None" "object = None \<longleftrightarrow> digest = None" "pred_option (\<lambda>x. length x = 32) digest"
    and "object = None \<Longrightarrow> index = 0 \<and> count = 0 \<and> il = 0 \<and> ml = 0"
  shows "take_trust flags (length (opt_bytes object)) il ml index count p (length pre) = Inr (digest, object, length q)"
proof (cases object)
  case None
  then show ?thesis using assms unfolding take_trust_def flag_bit by (simp add: opt_bytes_def)
next
  case (Some ob)
  with assms obtain d where d: "digest = Some d" by auto
  have "take_fixed 32 p (length pre) = Inr (d, length (pre @ d))"
    using assms d Some by (intro take_fixed_app [where post = "ob @ post"]) (simp_all add: opt_bytes_def)
  moreover have "slice_at p (length (pre @ d)) (length ob) = Inr (ob, length q)"
    using assms d Some by (intro slice_at_app) (simp_all add: opt_bytes_def)
  ultimately show ?thesis
    using assms(4) d Some unfolding take_trust_def flag_bit by (simp add: opt_bytes_def)
qed

lemma take_instance_app:
  assumes "p = pre @ opt_bytes x @ post" "q = pre @ opt_bytes x" "int (length p) < 2 ^ 64"
    and "bit flags 2 \<longleftrightarrow> x \<noteq> None" "x \<noteq> None \<Longrightarrow> bit flags 1" "pred_option utf8_valid x"
  shows "take_instance flags (length (opt_bytes x)) p (length pre) = Inr (x, length q)"
  using assms(2,4-) slice_at_app [OF assms(1-3)]
  unfolding take_instance_def flag_bit flag_unset by (cases x) (simp_all add: opt_bytes_def)

lemma take_path_app:
  assumes "p = pre @ opt_bytes x @ post" "q = pre @ opt_bytes x" "int (length p) < 2 ^ 64"
    and "bit flags 3 \<longleftrightarrow> x \<noteq> None" "x \<noteq> None \<Longrightarrow> bit flags 1" "pred_option material_path_ok x"
  shows "take_path flags (length (opt_bytes x)) p (length pre) = Inr (x, length q)"
  using assms(2,4-) slice_at_app [OF assms(1-3)]
  unfolding take_path_def flag_bit flag_unset by (cases x) (simp_all add: opt_bytes_def)

lemma take_sep_app:
  assumes "p = pre @ opt_bytes x @ post" "q = pre @ opt_bytes x" "int (length p) < 2 ^ 64"
    and "bit flags 4 \<longleftrightarrow> x \<noteq> None" "pred_option (\<lambda>x. length x = 65) x" "pred_option (\<lambda>x. x ! 0 = 0x04) x"
  shows "take_sep flags p (length pre) = Inr (x, length q)"
  using assms(2,4-) take_fixed_app [OF assms(1-3)]
  unfolding take_sep_def flag_bit by (cases x) (simp_all add: opt_bytes_def)

lemma take_manifest_app:
  assumes "p = pre @ opt_bytes x @ post" "q = pre @ opt_bytes x" "int (length p) < 2 ^ 64"
    and "bit flags 6 \<longleftrightarrow> x \<noteq> None" "pred_option (\<lambda>x. x \<noteq> [] \<and> sha384 x = d) x"
  shows "take_manifest flags (length (opt_bytes x)) d p (length pre) = Inr (x, length q)"
  using assms(2,4-) slice_at_app [OF assms(1-3)]
  unfolding take_manifest_def flag_bit by (cases x) (simp_all add: opt_bytes_def)

lemma context_prefix:
  shows "from_be16 (subslice (context_image c f) 0 2) = BOOT_CONTEXT_ENCODING_VERSION"
    and "from_be16 (subslice (context_image c f) 2 4) = 0"
    and "from_be32 (subslice (context_image c f) 4 8) = f"
    and "from_be32 (subslice (context_image c f) 8 12) = fdr_element_index c"
    and "from_be32 (subslice (context_image c f) 12 16) = fdr_element_count c"
    and "from_be32 (subslice (context_image c f) 16 20) = word_of_nat (length (opt_bytes (fdr_trust_object c)))"
    and "from_be32 (subslice (context_image c f) 20 24) = word_of_nat (length (opt_bytes (fdr_instance c)))"
    and "from_be32 (subslice (context_image c f) 24 28) = word_of_nat (length (opt_bytes (fdr_material_path c)))"
    and "from_be32 (subslice (context_image c f) 28 32) = word_of_nat (length (opt_bytes (staged_boot_manifest c)))"
  by (simp_all add: context_image_def subslice_def)

lemma flags_known:
  assumes "\<forall>j. bit f j \<longleftrightarrow> present c j"
  shows "f AND NOT 0x7f = (0 :: u32)"
proof -
  have "present c j \<Longrightarrow> j < 7" for j unfolding present_def by (elim disjE conjE) simp_all
  with assms have low: "bit f j \<Longrightarrow> j < 7" for j by blast
  have "f AND NOT (mask 7) = 0"
    by (rule bit_eqI) (use low in \<open>auto simp: bit_and_iff bit_not_iff bit_mask_iff\<close>)
  moreover have "mask 7 = (0x7f :: u32)" by (simp add: mask_eq_exp_minus_1)
  ultimately show ?thesis by (simp only:)
qed

lemma unat_len32:
  assumes "int (length p) \<le> MAX_BOOT_CONTEXT_BYTES" "length x \<le> length p"
  shows "unat (word_of_nat (length x) :: u32) = length x"
proof -
  have "int (length x) < 2 ^ 32" using assms by (simp add: MAX_BOOT_CONTEXT_BYTES_def)
  then have "uint (word_of_int (int (length x)) :: u32) = int (length x)"
    by (subst uint_word_of_int_eq) (simp add: take_bit_int_eq_self)
  then show ?thesis by (simp add: unat_eq_nat_uint)
qed

lemma context_ok_trust:
  assumes "context_ok c"
  shows "fdr_trust_object c = None \<longleftrightarrow> fdr_trust_digest_sha256 c = None"
    and "fdr_trust_object c = None \<Longrightarrow> fdr_element_index c = 0 \<and> fdr_element_count c = 0
      \<and> fdr_instance c = None \<and> fdr_material_path c = None"
    and "fdr_instance c \<noteq> None \<Longrightarrow> fdr_trust_object c \<noteq> None" "fdr_material_path c \<noteq> None \<Longrightarrow> fdr_trust_object c \<noteq> None"
  using assms unfolding context_ok_def
  by (cases "fdr_trust_object c"; cases "fdr_trust_digest_sha256 c"; simp)+

lemma check_trust_ok:
  "context_ok c \<Longrightarrow> check_trust (fdr_trust_digest_sha256 c) (fdr_trust_object c) (length (opt_bytes (fdr_trust_object c)))
     (fdr_element_index c) (fdr_element_count c) = Inr ()"
  unfolding context_ok_def check_trust_def opt_bytes_def
  by (cases "fdr_trust_object c"; cases "fdr_trust_digest_sha256 c") (auto simp: not_le)

lemma context_read_back:
  assumes wf: "context_wf c" and ok: "context_ok c" and flags: "\<forall>j. bit f j \<longleftrightarrow> present c j"
    and len: "int (length (context_image c f)) \<le> MAX_BOOT_CONTEXT_BYTES"
  shows "context_decode (context_image c f) = Inr c"
proof -
  let ?p = "context_image c f"
  define h where "h = be16 BOOT_CONTEXT_ENCODING_VERSION @ be16 0 @ be32 f @ be32 (fdr_element_index c)
    @ be32 (fdr_element_count c) @ be32 (word_of_nat (length (opt_bytes (fdr_trust_object c))))
    @ be32 (word_of_nat (length (opt_bytes (fdr_instance c))))
    @ be32 (word_of_nat (length (opt_bytes (fdr_material_path c))))
    @ be32 (word_of_nat (length (opt_bytes (staged_boot_manifest c))))"
  have p: "?p = h @ staged_boot_manifest_sha384 c @ opt_bytes (ap_nonce c) @ opt_bytes (fdr_trust_digest_sha256 c)
      @ opt_bytes (fdr_trust_object c) @ opt_bytes (fdr_instance c) @ opt_bytes (fdr_material_path c)
      @ opt_bytes (sep_public_key_uncompressed c) @ opt_bytes (staged_boot_manifest c)"
    by (simp only: context_image_def h_def append_assoc)
  define d where "d = h @ staged_boot_manifest_sha384 c"
  define n where "n = d @ opt_bytes (ap_nonce c)"
  define t where "t = n @ opt_bytes (fdr_trust_digest_sha256 c) @ opt_bytes (fdr_trust_object c)"
  define i where "i = t @ opt_bytes (fdr_instance c)"
  define m where "m = i @ opt_bytes (fdr_material_path c)"
  define k where "k = m @ opt_bytes (sep_public_key_uncompressed c)"
  have at_d: "?p = h @ staged_boot_manifest_sha384 c @ drop (length d) ?p" by (simp add: p d_def)
  have at_n: "?p = d @ opt_bytes (ap_nonce c) @ drop (length n) ?p" by (simp add: p d_def n_def)
  have at_t: "?p = n @ opt_bytes (fdr_trust_digest_sha256 c) @ opt_bytes (fdr_trust_object c) @ drop (length t) ?p"
    by (simp add: p d_def n_def t_def)
  have at_i: "?p = t @ opt_bytes (fdr_instance c) @ drop (length i) ?p" by (simp add: p d_def n_def t_def i_def)
  have at_m: "?p = i @ opt_bytes (fdr_material_path c) @ drop (length m) ?p" by (simp add: p d_def n_def t_def i_def m_def)
  have at_k: "?p = m @ opt_bytes (sep_public_key_uncompressed c) @ drop (length k) ?p"
    by (simp add: p d_def n_def t_def i_def m_def k_def)
  have at_p: "?p = k @ opt_bytes (staged_boot_manifest c) @ []" by (simp add: p d_def n_def t_def i_def m_def k_def)
  have hl: "length h = 32" by (simp add: h_def)
  have small: "int (length ?p) < 2 ^ 64" using len by (simp add: MAX_BOOT_CONTEXT_BYTES_def)
  note trust = context_ok_trust [OF ok]
  have none: "fdr_element_index c = 0 \<and> fdr_element_count c = 0
      \<and> length (opt_bytes (fdr_instance c)) = 0 \<and> length (opt_bytes (fdr_material_path c)) = 0"
    if "fdr_trust_object c = None" using trust(2) [OF that] by (simp add: opt_bytes_def)
  have b: "bit f 0 \<longleftrightarrow> ap_nonce c \<noteq> None" "bit f 1 \<longleftrightarrow> fdr_trust_object c \<noteq> None"
      "bit f 2 \<longleftrightarrow> fdr_instance c \<noteq> None" "bit f 3 \<longleftrightarrow> fdr_material_path c \<noteq> None"
      "bit f 4 \<longleftrightarrow> sep_public_key_uncompressed c \<noteq> None" "bit f 5 \<longleftrightarrow> remote_signer_available c"
      "bit f 6 \<longleftrightarrow> staged_boot_manifest c \<noteq> None"
    using flags by (simp_all add: present_def)
  have w: "length (staged_boot_manifest_sha384 c) = 48" "pred_option (\<lambda>x. length x = 32) (ap_nonce c)"
      "pred_option (\<lambda>x. length x = 32) (fdr_trust_digest_sha256 c)"
      "pred_option (\<lambda>x. length x = 65) (sep_public_key_uncompressed c)" "pred_option utf8_valid (fdr_instance c)"
    using wf unfolding context_wf_def by blast+
  have o: "pred_option material_path_ok (fdr_material_path c)" "pred_option (\<lambda>x. x ! 0 = 0x04) (sep_public_key_uncompressed c)"
      "remote_signer_available c \<Longrightarrow> sep_public_key_uncompressed c \<noteq> None"
      "pred_option (\<lambda>x. x \<noteq> [] \<and> sha384 x = staged_boot_manifest_sha384 c) (staged_boot_manifest c)"
    using ok unfolding context_ok_def by blast+
  have steps: "take_fixed 48 ?p (length h) = Inr (staged_boot_manifest_sha384 c, length d)"
      "take_nonce f ?p (length d) = Inr (ap_nonce c, length n)"
      "take_trust f (length (opt_bytes (fdr_trust_object c))) (length (opt_bytes (fdr_instance c)))
        (length (opt_bytes (fdr_material_path c))) (fdr_element_index c) (fdr_element_count c) ?p (length n)
        = Inr (fdr_trust_digest_sha256 c, fdr_trust_object c, length t)"
      "take_instance f (length (opt_bytes (fdr_instance c))) ?p (length t) = Inr (fdr_instance c, length i)"
      "take_path f (length (opt_bytes (fdr_material_path c))) ?p (length i) = Inr (fdr_material_path c, length m)"
      "take_sep f ?p (length m) = Inr (sep_public_key_uncompressed c, length k)"
      "take_manifest f (length (opt_bytes (staged_boot_manifest c))) (staged_boot_manifest_sha384 c) ?p (length k)
        = Inr (staged_boot_manifest c, length ?p)"
    by (rule take_fixed_app [OF at_d d_def small w(1)] take_nonce_app [OF at_n n_def small b(1) w(2)]
        take_trust_app [OF at_t t_def small b(2) trust(1) w(3) none] take_sep_app [OF at_k k_def small b(5) w(4) o(2)]
        take_instance_app [OF at_i i_def small b(3) b(2) [THEN iffD2, OF trust(3)] w(5)]
        take_path_app [OF at_m m_def small b(4) b(2) [THEN iffD2, OF trust(4)] o(1)]
        take_manifest_app [OF at_p at_p [unfolded append_Nil2] small b(7) o(4)]; assumption?)+
  have lens: "unat (word_of_nat (length (opt_bytes (fdr_trust_object c))) :: u32) = length (opt_bytes (fdr_trust_object c))"
      "unat (word_of_nat (length (opt_bytes (fdr_instance c))) :: u32) = length (opt_bytes (fdr_instance c))"
      "unat (word_of_nat (length (opt_bytes (fdr_material_path c))) :: u32) = length (opt_bytes (fdr_material_path c))"
      "unat (word_of_nat (length (opt_bytes (staged_boot_manifest c))) :: u32) = length (opt_bytes (staged_boot_manifest c))"
    by (rule unat_len32 [OF len], simp add: p)+
  have "\<not> length ?p < 80" using hl w(1) by (simp add: p)
  moreover have "\<not> (remote_signer_available c \<and> sep_public_key_uncompressed c = None)" using o(3) by blast
  moreover have "\<not> int (length ?p) > MAX_BOOT_CONTEXT_BYTES" using len by simp
  ultimately show ?thesis
    unfolding context_decode_def context_prefix lens flag_bit
    by (simp only: Let_def steps [unfolded hl] b(6) check_trust_ok [OF ok] flags_known [OF flags] bindE_simps prod.case
        if_False simp_thms) simp
qed

section \<open>Writing back\<close>

lemma flags_total:
  assumes "context_ok c"
  shows "\<exists>g. trust_flags c f = Inr g" "\<exists>g. instance_flags c f = Inr g" "\<exists>g. path_flags c f = Inr g"
    "\<exists>g. sep_flags c f = Inr g" "\<exists>g. signer_flags c f = Inr g" "\<exists>g. manifest_flags c f = Inr g"
proof -
  show "\<exists>g. trust_flags c f = Inr g"
    using assms unfolding context_ok_def trust_flags_def
    by (cases "fdr_trust_object c"; cases "fdr_trust_digest_sha256 c") (auto simp: not_le)
  show "\<exists>g. instance_flags c f = Inr g"
    using assms context_ok_trust(3) [OF assms] unfolding context_ok_def instance_flags_def by (cases "fdr_instance c") auto
  show "\<exists>g. path_flags c f = Inr g"
    using assms context_ok_trust(4) [OF assms] unfolding context_ok_def path_flags_def by (cases "fdr_material_path c") auto
  show "\<exists>g. sep_flags c f = Inr g"
    using assms unfolding context_ok_def sep_flags_def by (cases "sep_public_key_uncompressed c") auto
  show "\<exists>g. signer_flags c f = Inr g" using assms unfolding context_ok_def signer_flags_def by auto
  show "\<exists>g. manifest_flags c f = Inr g"
    using assms unfolding context_ok_def manifest_flags_def by (cases "staged_boot_manifest c") auto
qed

lemma length_context_image: "length (context_image c g) = length (context_image c f)"
  by (simp add: context_image_def)

lemma context_encode_ok:
  assumes ok: "context_ok c" and len: "int (length (context_image c f)) \<le> MAX_BOOT_CONTEXT_BYTES"
    and flags: "\<forall>j. bit f j \<longleftrightarrow> present c j"
  shows "context_encode c = Inr (context_image c f)"
proof -
  obtain f1 f2 f3 f4 f5 f6 where f: "trust_flags c (if ap_nonce c = None then 0 else 0 OR push_bit 0 1) = Inr f1"
      "instance_flags c f1 = Inr f2" "path_flags c f2 = Inr f3" "sep_flags c f3 = Inr f4" "signer_flags c f4 = Inr f5"
      "manifest_flags c f5 = Inr f6"
    using flags_total [OF ok] by metis
  have small: "\<not> int (length x) \<ge> 2 ^ 32" if "length x \<le> length (context_image c f)" for x :: bytes
    using that len by (simp add: MAX_BOOT_CONTEXT_BYTES_def)
  have lens: "u32_len m (opt_bytes x) = Inr (word_of_nat (length (opt_bytes x)))"
    if "x \<in> {fdr_trust_object c, fdr_instance c, fdr_material_path c, staged_boot_manifest c}" for m x
    using that small [of "opt_bytes x"] unfolding u32_len_def by (auto simp: context_image_def)
  have "\<not> MAX_BOOT_CONTEXT_BYTES < int (length (context_image c f6))" using len length_context_image [of c f6 f] by simp
  then have enc: "context_encode c = Inr (context_image c f6)"
    unfolding context_encode_def context_image_def by (simp only: f lens bindE_simps insert_iff simp_thms Let_def if_False)
  then obtain g where "context_image c f6 = context_image c g" "\<forall>j. bit g j \<longleftrightarrow> present c j"
    using context_encode_Inr by blast
  then have "\<forall>j. bit f6 j \<longleftrightarrow> present c j" using context_prefix(3) by metis
  with flags have "f6 = f" by (simp add: bit_eq_iff)
  with enc show ?thesis by simp
qed

text \<open>What a reader takes from the payload lies between its two cursors.\<close>

definition takes :: "bytes \<Rightarrow> nat \<Rightarrow> bytes \<Rightarrow> nat \<Rightarrow> bool" where
  "takes p a bs b \<longleftrightarrow> a \<le> b \<and> b \<le> length p \<and> subslice p a b = bs"

lemma takes_append: "takes p a xs b \<Longrightarrow> takes p b ys c \<Longrightarrow> takes p a (xs @ ys) c"
  by (auto simp: takes_def slice_append_slice)

lemma takes_end: "takes p a xs b \<Longrightarrow> b \<le> length p"
  by (simp add: takes_def)

lemma takes_refl: "a \<le> length p \<Longrightarrow> takes p a [] a"
  by (simp add: takes_def)

lemma slice_at_takes: "slice_at p a n = Inr (x, b) \<Longrightarrow> takes p a x b \<and> length x = n"
  by (auto simp: slice_at_def takes_def ok_or_def bindE_eq_Inr split: if_splits option.splits)

lemma take_fixed_takes: "take_fixed n p a = Inr (x, b) \<Longrightarrow> takes p a x b \<and> length x = n"
  by (auto simp: take_fixed_def map_err_def slice_at_takes split: sum.splits)

lemma take_nonce_takes:
  "take_nonce f p a = Inr (x, b) \<Longrightarrow> a \<le> length p
    \<Longrightarrow> takes p a (opt_bytes x) b \<and> (bit f 0 \<longleftrightarrow> x \<noteq> None)"
  unfolding take_nonce_def flag_bit
  by (auto simp: bindE_eq_Inr opt_bytes_def takes_refl dest!: take_fixed_takes split: if_splits)

lemma take_trust_takes:
  "take_trust f tn il ml index count p a = Inr (digest, object, b) \<Longrightarrow> a \<le> length p
    \<Longrightarrow> takes p a (opt_bytes digest @ opt_bytes object) b \<and> (bit f 1 \<longleftrightarrow> object \<noteq> None) \<and> (digest = None \<longleftrightarrow> object = None)
      \<and> length (opt_bytes object) = tn \<and> (object = None \<longrightarrow> index = 0 \<and> count = 0 \<and> il = 0 \<and> ml = 0)"
  unfolding take_trust_def flag_bit
  by (auto simp: bindE_eq_Inr opt_bytes_def takes_refl takes_append dest!: take_fixed_takes slice_at_takes split: if_splits)

lemma take_instance_takes:
  "take_instance f n p a = Inr (x, b) \<Longrightarrow> a \<le> length p
    \<Longrightarrow> takes p a (opt_bytes x) b \<and> (bit f 2 \<longleftrightarrow> x \<noteq> None) \<and> length (opt_bytes x) = n \<and> (x \<noteq> None \<longrightarrow> bit f 1)"
  unfolding take_instance_def flag_bit flag_unset
  by (auto simp: bindE_eq_Inr opt_bytes_def takes_refl dest!: slice_at_takes split: if_splits)

lemma take_path_takes:
  "take_path f n p a = Inr (x, b) \<Longrightarrow> a \<le> length p
    \<Longrightarrow> takes p a (opt_bytes x) b \<and> (bit f 3 \<longleftrightarrow> x \<noteq> None) \<and> length (opt_bytes x) = n \<and> (x \<noteq> None \<longrightarrow> bit f 1)
      \<and> pred_option material_path_ok x"
  unfolding take_path_def flag_bit flag_unset
  by (auto simp: bindE_eq_Inr opt_bytes_def takes_refl dest!: slice_at_takes split: if_splits)

lemma take_sep_takes:
  "take_sep f p a = Inr (x, b) \<Longrightarrow> a \<le> length p
    \<Longrightarrow> takes p a (opt_bytes x) b \<and> (bit f 4 \<longleftrightarrow> x \<noteq> None) \<and> pred_option (\<lambda>x. x ! 0 = 0x04) x"
  unfolding take_sep_def flag_bit
  by (auto simp: bindE_eq_Inr opt_bytes_def takes_refl dest!: take_fixed_takes split: if_splits)

lemma take_manifest_takes:
  "take_manifest f n d p a = Inr (x, b) \<Longrightarrow> a \<le> length p
    \<Longrightarrow> takes p a (opt_bytes x) b \<and> (bit f 6 \<longleftrightarrow> x \<noteq> None) \<and> length (opt_bytes x) = n
      \<and> pred_option (\<lambda>x. x \<noteq> [] \<and> sha384 x = d) x"
  unfolding take_manifest_def flag_bit
  by (auto simp: bindE_eq_Inr opt_bytes_def takes_refl dest!: slice_at_takes split: if_splits)

lemma check_trust_Inr:
  "check_trust digest object n index count = Inr u \<Longrightarrow> digest = None \<or> (n \<noteq> 0 \<and> index < count \<and> digest = Some (sha256 (the object)))"
  by (auto simp: check_trust_def not_le split: option.splits if_splits)

lemma context_decode_steps:
  assumes "context_decode p = Inr c"
  defines "f \<equiv> from_be32 (subslice p 4 8)" and "tn \<equiv> unat (from_be32 (subslice p 16 20))"
    and "il \<equiv> unat (from_be32 (subslice p 20 24))" and "ml \<equiv> unat (from_be32 (subslice p 24 28))"
    and "sl \<equiv> unat (from_be32 (subslice p 28 32))"
  obtains a1 a2 a3 a4 a5 a6 where "80 \<le> length p" "int (length p) \<le> MAX_BOOT_CONTEXT_BYTES"
    "from_be16 (subslice p 0 2) = BOOT_CONTEXT_ENCODING_VERSION" "from_be16 (subslice p 2 4) = 0" "f AND NOT 0x7f = 0"
    "fdr_element_index c = from_be32 (subslice p 8 12)" "fdr_element_count c = from_be32 (subslice p 12 16)"
    "take_fixed 48 p 32 = Inr (staged_boot_manifest_sha384 c, a1)" "take_nonce f p a1 = Inr (ap_nonce c, a2)"
    "take_trust f tn il ml (fdr_element_index c) (fdr_element_count c) p a2
       = Inr (fdr_trust_digest_sha256 c, fdr_trust_object c, a3)"
    "take_instance f il p a3 = Inr (fdr_instance c, a4)" "take_path f ml p a4 = Inr (fdr_material_path c, a5)"
    "take_sep f p a5 = Inr (sep_public_key_uncompressed c, a6)"
    "take_manifest f sl (staged_boot_manifest_sha384 c) p a6 = Inr (staged_boot_manifest c, length p)"
    "remote_signer_available c \<longleftrightarrow> bit f 5" "remote_signer_available c \<Longrightarrow> sep_public_key_uncompressed c \<noteq> None"
    "check_trust (fdr_trust_digest_sha256 c) (fdr_trust_object c) tn (fdr_element_index c) (fdr_element_count c) = Inr ()"
  using assms(1) unfolding context_decode_def flag_bit assms(2-)
  by (auto simp: Let_def bindE_eq_Inr split: if_splits)

lemma flags_below: "f AND NOT 0x7f = 0 \<Longrightarrow> bit f j \<Longrightarrow> j < 7" for f :: u32
proof -
  assume "f AND NOT 0x7f = 0" and b: "bit f j"
  then have "f AND NOT (mask 7) = 0" by (simp add: mask_eq_exp_minus_1)
  then have "\<not> bit (f AND NOT (mask 7)) j" by simp
  then show ?thesis using b bit_imp_le_length [OF b] by (simp add: bit_and_iff bit_not_iff bit_mask_iff)
qed

lemma present_bits:
  assumes "\<And>j. bit f j \<Longrightarrow> j < 7"
    and "bit f 0 \<longleftrightarrow> ap_nonce c \<noteq> None" "bit f 1 \<longleftrightarrow> fdr_trust_object c \<noteq> None"
    "bit f 2 \<longleftrightarrow> fdr_instance c \<noteq> None" "bit f 3 \<longleftrightarrow> fdr_material_path c \<noteq> None"
    "bit f 4 \<longleftrightarrow> sep_public_key_uncompressed c \<noteq> None" "remote_signer_available c \<longleftrightarrow> bit f 5"
    "bit f 6 \<longleftrightarrow> staged_boot_manifest c \<noteq> None"
  shows "\<forall>j. bit f j \<longleftrightarrow> present c j"
proof
  fix j :: nat
  have "j = 0 \<or> j = 1 \<or> j = 2 \<or> j = 3 \<or> j = 4 \<or> j = 5 \<or> j = 6" if "j < 7"
    using that by (simp add: less_Suc_eq numeral_eq_Suc)
  then consider "j \<ge> 7" | "j = 0" | "j = 1" | "j = 2" | "j = 3" | "j = 4" | "j = 5" | "j = 6"
    by (metis not_less)
  then show "bit f j \<longleftrightarrow> present c j"
    using assms(1) [of j] assms(2-) by cases (auto simp: present_def)
qed

lemma context_canonical:
  assumes dec: "context_decode p = Inr c" and ne: "fdr_instance c \<noteq> Some []"
  shows "context_encode c = Inr p"
proof -
  let ?f = "from_be32 (subslice p 4 8)"
  obtain a1 a2 a3 a4 a5 a6 where len: "80 \<le> length p" "int (length p) \<le> MAX_BOOT_CONTEXT_BYTES"
    and head: "from_be16 (subslice p 0 2) = BOOT_CONTEXT_ENCODING_VERSION" "from_be16 (subslice p 2 4) = 0" "?f AND NOT 0x7f = 0"
      "fdr_element_index c = from_be32 (subslice p 8 12)" "fdr_element_count c = from_be32 (subslice p 12 16)"
    and steps: "take_fixed 48 p 32 = Inr (staged_boot_manifest_sha384 c, a1)" "take_nonce ?f p a1 = Inr (ap_nonce c, a2)"
      "take_trust ?f (unat (from_be32 (subslice p 16 20))) (unat (from_be32 (subslice p 20 24))) (unat (from_be32 (subslice p 24 28)))
         (fdr_element_index c) (fdr_element_count c) p a2 = Inr (fdr_trust_digest_sha256 c, fdr_trust_object c, a3)"
      "take_instance ?f (unat (from_be32 (subslice p 20 24))) p a3 = Inr (fdr_instance c, a4)"
      "take_path ?f (unat (from_be32 (subslice p 24 28))) p a4 = Inr (fdr_material_path c, a5)"
      "take_sep ?f p a5 = Inr (sep_public_key_uncompressed c, a6)"
      "take_manifest ?f (unat (from_be32 (subslice p 28 32))) (staged_boot_manifest_sha384 c) p a6
         = Inr (staged_boot_manifest c, length p)"
    and signer: "remote_signer_available c \<longleftrightarrow> bit ?f 5" "remote_signer_available c \<Longrightarrow> sep_public_key_uncompressed c \<noteq> None"
    and trust: "check_trust (fdr_trust_digest_sha256 c) (fdr_trust_object c) (unat (from_be32 (subslice p 16 20)))
      (fdr_element_index c) (fdr_element_count c) = Inr ()"
    by (rule context_decode_steps [OF dec]) blast
  have t1: "takes p 32 (staged_boot_manifest_sha384 c) a1" using take_fixed_takes [OF steps(1)] by blast
  note t2 = take_nonce_takes [OF steps(2) takes_end [OF t1]]
  note t3 = take_trust_takes [OF steps(3) takes_end [OF t2 [THEN conjunct1]]]
  note t4 = take_instance_takes [OF steps(4) takes_end [OF t3 [THEN conjunct1]]]
  note t5 = take_path_takes [OF steps(5) takes_end [OF t4 [THEN conjunct1]]]
  note t6 = take_sep_takes [OF steps(6) takes_end [OF t5 [THEN conjunct1]]]
  note t7 = take_manifest_takes [OF steps(7) takes_end [OF t6 [THEN conjunct1]]]
  have "context_ok c"
    using ne t3 t4 t5 t6 t7 signer(2) check_trust_Inr [OF trust] unfolding context_ok_def
    by (cases "fdr_trust_object c"; cases "fdr_trust_digest_sha256 c"; cases "fdr_instance c") (auto simp: opt_bytes_def)
  moreover have "\<forall>j. bit ?f j \<longleftrightarrow> present c j"
    using flags_below [OF head(3)] t2 t3 t4 t5 t6 t7 signer(1) by (intro present_bits) blast+
  moreover have "p = context_image c ?f"
  proof -
    have fields: "be16 BOOT_CONTEXT_ENCODING_VERSION = subslice p 0 2" "be16 0 = subslice p 2 4" "be32 ?f = subslice p 4 8"
        "be32 (fdr_element_index c) = subslice p 8 12" "be32 (fdr_element_count c) = subslice p 12 16"
        "be32 (word_of_nat (length (opt_bytes (fdr_trust_object c)))) = subslice p 16 20"
        "be32 (word_of_nat (length (opt_bytes (fdr_instance c)))) = subslice p 20 24"
        "be32 (word_of_nat (length (opt_bytes (fdr_material_path c)))) = subslice p 24 28"
        "be32 (word_of_nat (length (opt_bytes (staged_boot_manifest c)))) = subslice p 28 32"
      using len(1) t3 t4 t5 t7 unfolding head(1,2) [symmetric] head(4,5) by (simp_all add: be_field)
    have "takes p 32 (staged_boot_manifest_sha384 c @ opt_bytes (ap_nonce c)
        @ (opt_bytes (fdr_trust_digest_sha256 c) @ opt_bytes (fdr_trust_object c))
        @ opt_bytes (fdr_instance c) @ opt_bytes (fdr_material_path c)
        @ opt_bytes (sep_public_key_uncompressed c) @ opt_bytes (staged_boot_manifest c)) (length p)"
      using t1 t2 t3 t4 t5 t6 t7 by (blast intro: takes_append)
    then have "context_image c ?f = subslice p 0 32 @ subslice p 32 (length p)"
      unfolding context_image_def fields using len(1) by (simp add: takes_def slice_append_slice append_assoc [symmetric] del: append_assoc)
    then show ?thesis using len(1) by (simp add: slice_append_slice)
  qed
  ultimately show ?thesis using context_encode_ok [of c ?f] len(2) by simp
qed

lemma context_decode_digests:
  assumes "context_decode p = Inr c"
  shows "fdr_trust_digest_sha256 c = map_option sha256 (fdr_trust_object c)"
    and "pred_option (\<lambda>x. sha384 x = staged_boot_manifest_sha384 c) (staged_boot_manifest c)"
proof -
  obtain a1 a2 a3 a4 a5 a6 where
    steps: "take_fixed 48 p 32 = Inr (staged_boot_manifest_sha384 c, a1)" "take_nonce (from_be32 (subslice p 4 8)) p a1 = Inr (ap_nonce c, a2)"
      "take_trust (from_be32 (subslice p 4 8)) (unat (from_be32 (subslice p 16 20))) (unat (from_be32 (subslice p 20 24)))
         (unat (from_be32 (subslice p 24 28))) (fdr_element_index c) (fdr_element_count c) p a2
         = Inr (fdr_trust_digest_sha256 c, fdr_trust_object c, a3)"
      "take_manifest (from_be32 (subslice p 4 8)) (unat (from_be32 (subslice p 28 32))) (staged_boot_manifest_sha384 c) p a6
         = Inr (staged_boot_manifest c, length p)"
    and trust: "check_trust (fdr_trust_digest_sha256 c) (fdr_trust_object c) (unat (from_be32 (subslice p 16 20)))
      (fdr_element_index c) (fdr_element_count c) = Inr ()"
    by (rule context_decode_steps [OF assms]) blast
  have "a1 \<le> length p" using take_fixed_takes [OF steps(1)] takes_end by blast
  then have "a2 \<le> length p" using take_nonce_takes [OF steps(2)] takes_end by blast
  then have "fdr_trust_digest_sha256 c = None \<longleftrightarrow> fdr_trust_object c = None" using take_trust_takes [OF steps(3)] by blast
  with check_trust_Inr [OF trust] show "fdr_trust_digest_sha256 c = map_option sha256 (fdr_trust_object c)"
    by (cases "fdr_trust_object c") auto
  show "pred_option (\<lambda>x. sha384 x = staged_boot_manifest_sha384 c) (staged_boot_manifest c)"
    using steps(4) unfolding take_manifest_def
    by (cases "staged_boot_manifest c") (auto simp: bindE_eq_Inr split: if_splits)
qed

definition ex_context :: BootContext where
  "ex_context = \<lparr>staged_boot_manifest_sha384 = replicate 48 7, staged_boot_manifest = None,
     ap_nonce = Some (replicate 32 9), fdr_element_index = 0, fdr_element_count = 0, fdr_trust_digest_sha256 = None,
     fdr_trust_object = None, fdr_instance = None, fdr_material_path = None,
     sep_public_key_uncompressed = Some (4 # replicate 64 3), remote_signer_available = True\<rparr>"

lemma ex_context_encode: "context_encode ex_context = Inr (context_image ex_context 0x31)"
proof (rule context_encode_ok)
  show "context_ok ex_context" by (simp add: context_ok_def ex_context_def)
  show "int (length (context_image ex_context 0x31)) \<le> MAX_BOOT_CONTEXT_BYTES"
    by (simp add: context_image_def ex_context_def opt_bytes_def MAX_BOOT_CONTEXT_BYTES_def)
  have "(0x31 :: u32) = ((0 OR push_bit 0 1) OR push_bit 4 1) OR push_bit 5 1" by simp
  then have b: "bit (0x31 :: u32) j \<longleftrightarrow> j \<in> {0, 4, 5}" for j by (simp only: bit_flag_OR) auto
  show "\<forall>j. bit (0x31 :: u32) j \<longleftrightarrow> present ex_context j"
    unfolding b by (auto simp: present_def ex_context_def)
qed

text \<open>
  Claim C36. A boot context is encoded as a payload exactly when that payload decodes to the context and
  the FDR instance in it is not empty, and a decoded context always carries the SHA-256 of its trust
  object and, with a manifest, the SHA-384 of that manifest.
\<close>

theorem boot_context_exact:
  assumes "context_wf c"
  shows "(context_encode c = Inr p \<longleftrightarrow> context_decode p = Inr c \<and> fdr_instance c \<noteq> Some [])
    \<and> (context_decode p = Inr c \<longrightarrow> fdr_trust_digest_sha256 c = map_option sha256 (fdr_trust_object c)
      \<and> pred_option (\<lambda>x. sha384 x = staged_boot_manifest_sha384 c) (staged_boot_manifest c))"
proof -
  have "context_encode c = Inr p \<Longrightarrow> fdr_instance c \<noteq> Some []"
    using context_encode_Inr [of c p] unfolding context_ok_def by (cases "fdr_instance c") auto
  then show ?thesis
    using context_encode_Inr [of c p] context_read_back [OF assms] context_canonical [of p c]
      context_decode_digests [of p c] by blast
qed

theorem boot_context_exact_witness:
  "context_decode (context_image ex_context 0x31) = Inr ex_context"
  using boot_context_exact [of ex_context "context_image ex_context 0x31"] ex_context_encode
  by (simp add: context_wf_def ex_context_def)

end
