(* ===== verification/Bridge_Message.thy ===== *)
theory Bridge_Message imports Bridge_Context begin

text \<open>
  Sending a record over the bridge (\<^verbatim>\<open>bridge_protocol.rs\<close>): the checks of header and payload per record
  kind, and the encoder. The theory ends with the conversation as a whole: records that were encoded, sent
  back to back and read in pieces of any size, leave the assembler as they went in.
\<close>

section \<open>Operations\<close>

definition validate_record_header :: "RecordHeader \<Rightarrow> BridgeError + unit" where
  "validate_record_header header =
     (if rh_version header \<noteq> VERSION then Inl (InvalidInput ''Restore Bridge version'')
      else if rh_flags header \<noteq> 0 then Inl (InvalidInput ''Restore Bridge v1 flags must be zero'')
      else if rh_kind header \<in> {Hello, ServerHello, List, ListEnd, Watch} then
        if rh_request_id header = 0 then Inl (InvalidInput ''requestId must be nonzero'')
        else if rh_generation header \<noteq> 0 \<or> rh_lease_id header \<noteq> 0
        then Inl (InvalidInput ''generation and lease must be zero'') else Inr ()
      else if rh_kind header = Device then
        if rh_request_id header = 0 then Inl (InvalidInput ''DEVICE requestId must be nonzero'')
        else if rh_generation header = 0 \<or> rh_lease_id header \<noteq> 0
        then Inl (InvalidInput ''DEVICE generation must be nonzero and lease must be zero'') else Inr ()
      else if rh_kind header = Claim then
        if rh_request_id header = 0 then Inl (InvalidInput ''CLAIM requestId must be nonzero'')
        else if rh_generation header = 0 \<or> rh_lease_id header \<noteq> 0
        then Inl (InvalidInput ''CLAIM generation must be nonzero and lease must be zero'') else Inr ()
      else if rh_kind header = Claimed then
        if rh_request_id header = 0 then Inl (InvalidInput ''CLAIMED requestId must be nonzero'')
        else if rh_generation header = 0 \<or> rh_lease_id header = 0
        then Inl (InvalidInput ''CLAIMED generation and lease must be nonzero'') else Inr ()
      else if rh_kind header \<in> {PacketToDevice, PacketFromDevice, Credit, Stats, Gone} then
        if rh_request_id header \<noteq> 0 then Inl (InvalidInput ''requestId must be zero'')
        else if rh_generation header = 0 \<or> rh_lease_id header = 0
        then Inl (InvalidInput ''generation and lease must be nonzero'') else Inr ()
      else if rh_kind header \<in> {Detach, Detached, GetBootContext, BootContext, GetApNonce, ApNonce, GetSepNonce,
          SepNonce, GetSignerPublicKey, SignerPublicKey, SignFdrManifest, FdrManifestSignature} then
        if rh_request_id header = 0 then Inl (InvalidInput ''requestId must be nonzero'')
        else if rh_generation header = 0 \<or> rh_lease_id header = 0
        then Inl (InvalidInput ''generation and lease must be nonzero'') else Inr ()
      else if rh_kind header \<in> {Ping, Pong} then
        if rh_request_id header = 0 then Inl (InvalidInput ''requestId must be nonzero'') else Inr ()
      else Inr ())"

fun validate_record_payload :: "RecordKind \<Rightarrow> bytes \<Rightarrow> BridgeError + unit" where
  "validate_record_payload PacketToDevice payload = validate_packet_to_device payload"
| "validate_record_payload PacketFromDevice payload = validate_packet_from_device payload MAX_TRANSFER_BYTES"
| "validate_record_payload Credit payload = bindE (decode_credit payload) (\<lambda>_. Inr ())"
| "validate_record_payload Stats payload = bindE (decode_stats payload) (\<lambda>_. Inr ())"
| "validate_record_payload BootContext payload = bindE (context_decode payload) (\<lambda>_. Inr ())"
| "validate_record_payload ApNonce payload =
     (if length payload \<noteq> 32 then Inl (InvalidData ''AP_NONCE payload must be exactly 32 bytes'') else Inr ())"
| "validate_record_payload SepNonce payload =
     (if length payload \<noteq> 20 then Inl (InvalidData ''SEP_NONCE payload must be exactly 20 bytes'') else Inr ())"
| "validate_record_payload SignerPublicKey payload =
     (if length payload \<noteq> 65 \<or> payload ! 0 \<noteq> 0x04
      then Inl (InvalidData ''signer public key must be a 65-byte uncompressed SEC1 point'') else Inr ())"
| "validate_record_payload SignFdrManifest payload = bindE (sign_request_decode payload) (\<lambda>_. Inr ())"
| "validate_record_payload FdrManifestSignature payload = bindE (signature_decode payload) (\<lambda>_. Inr ())"
| "validate_record_payload kind payload =
     (if kind \<in> {List, GetBootContext, GetApNonce, GetSepNonce, GetSignerPublicKey} then
        if payload \<noteq> [] then Inl (InvalidInput ''payload must be empty'') else Inr ()
      else if kind \<in> {Ping, Pong} then bindE (decode_ping_nonce payload) (\<lambda>_. Inr ())
      else Inr ())"

definition encode_record :: "RecordHeader \<Rightarrow> bytes \<Rightarrow> BridgeError + bytes" where
  "encode_record header payload =
     bindE (validate_record_header header) (\<lambda>_.
     if int (length payload) \<ge> 2 ^ 32 then Inl (InvalidInput ''payload too large'')
     else
       let payload_len = word_of_nat (length payload) :: u32
       in if uint payload_len > payload_limit (rh_kind header) then Inl (InvalidInput ''payload exceeds limit'')
          else
            bindE (validate_record_payload (rh_kind header) payload) (\<lambda>_.
              Inr (header_encode (header\<lparr>rh_payload_len := payload_len\<rparr>) [] @ payload)))"

section \<open>What was sent is what is read\<close>

definition sent :: "RecordHeader \<times> bytes \<Rightarrow> RawRecord" where
  "sent m = \<lparr>rr_header = (fst m)\<lparr>rh_payload_len := word_of_nat (length (snd m))\<rparr>, rr_payload = snd m\<rparr>"

lemma uint_length: "int (length xs) < 2 ^ 32 \<Longrightarrow> uint (word_of_nat (length xs) :: u32) = int (length xs)"
  using uint_word_of_int_eq [where 'a = 32, of "int (length xs)"] by (simp add: take_bit_int_eq_self)

lemma nonce_payloads:
  "validate_record_payload ApNonce payload = Inr () \<longleftrightarrow> length payload = 32"
  "validate_record_payload SepNonce payload = Inr () \<longleftrightarrow> length payload = 20"
  by simp_all

lemma encode_record_next:
  assumes "encode_record h payload = Inr out"
  shows "next_record (out @ later) = Inr (Some (sent (h, payload), length out))"
proof -
  let ?h = "h\<lparr>rh_payload_len := word_of_nat (length payload)\<rparr>"
  from assms have ok: "validate_record_header h = Inr ()" "int (length payload) < 2 ^ 32"
      "validate_record_payload (rh_kind h) payload = Inr ()"
    and limit: "uint (word_of_nat (length payload) :: u32) \<le> payload_limit (rh_kind h)"
    and out: "out = header_image ?h @ payload"
    by (auto simp: encode_record_def bindE_eq_Inr Let_def header_encode_image split: if_splits)
  from ok(1) have "rh_version ?h = VERSION" "rh_flags ?h = 0"
    by (simp_all add: validate_record_header_def split: if_splits)
  then have dec: "header_decode (header_image ?h) = Inr ?h" by (rule header_decode_image)
  have "record_size ?h = Inr (HEADER_LEN + length payload)"
    using ok limit nonce_payloads [of payload] unfolding record_size_def by (auto simp: uint_length Let_def)
  then show ?thesis
    using dec unfolding out next_record_def
    by (simp add: length_header_image sent_def subslice_def)
qed

lemma encode_records_parse:
  "list_all2 (\<lambda>m out. encode_record (fst m) (snd m) = Inr out) ms outs
    \<Longrightarrow> record_stream.parses (concat outs) (map sent ms) [] None"
proof (induction ms outs rule: list_all2_induct)
  case Nil
  have "next_record [] = Inr None" by (simp add: next_record_def HEADER_LEN_def)
  then show ?case by (simp add: record_stream.parses.more)
next
  case (Cons m ms out outs)
  from encode_record_next [OF Cons.hyps(1), of "concat outs"] Cons.IH
  show ?case by (auto intro!: record_stream.parses.frame)
qed

text \<open>
  Claim C37. Records that the sender encodes reach the receiver unchanged: however the byte stream of any
  number of encoded records is cut into reads, the assembler returns exactly those records, in order, each
  with its header, the length of its payload and the payload, and holds nothing back.
\<close>

theorem records_sent_are_received:
  assumes "list_all2 (\<lambda>m out. encode_record (fst m) (snd m) = Inr out) ms outs"
    and "concat reads = concat outs"
  shows "snd (push_all FrameAssembler_default reads) = Inr (map sent ms)
    \<and> pending (fst (push_all FrameAssembler_default reads)) = []"
proof -
  have "pending FrameAssembler_default = []" "fa_ok FrameAssembler_default"
    by (simp_all add: FrameAssembler_default_def pending_def fa_ok_def)
  moreover have "next_record [] = Inr None" by (simp add: next_record_def HEADER_LEN_def)
  ultimately show ?thesis
    using push_all_parses [of FrameAssembler_default reads "map sent ms" "[]" None]
      encode_records_parse [OF assms(1)] assms(2) by simp
qed

definition ex_pong :: RecordHeader where
  "ex_pong = \<lparr>rh_version = 1, rh_kind = Pong, rh_flags = 0, rh_payload_len = 0, rh_request_id = 7,
     rh_generation = 0, rh_lease_id = 0\<rparr>"

definition ex_packet :: RecordHeader where
  "ex_packet = \<lparr>rh_version = 1, rh_kind = Credit, rh_flags = 0, rh_payload_len = 0, rh_request_id = 0,
     rh_generation = 2, rh_lease_id = 3\<rparr>"

lemma ex_encoded:
  "\<exists>a. encode_record ex_pong (be64 9) = Inr a" "\<exists>b. encode_record ex_packet (1 # 0 # 0 # 0 # be32 5) = Inr b"
  by (simp_all add: encode_record_def validate_record_header_def ex_pong_def ex_packet_def VERSION_def
      decode_ping_nonce_def decode_credit_def subslice_def Let_def)

theorem records_sent_are_received_witness:
  "\<exists>a b. encode_record ex_pong (be64 9) = Inr a \<and> encode_record ex_packet (1 # 0 # 0 # 0 # be32 5) = Inr b
     \<and> snd (push_all FrameAssembler_default [take 3 a, drop 3 a @ take 41 b, drop 41 b])
       = Inr [sent (ex_pong, be64 9), sent (ex_packet, 1 # 0 # 0 # 0 # be32 5)]"
proof -
  obtain a b where ab: "encode_record ex_pong (be64 9) = Inr a" "encode_record ex_packet (1 # 0 # 0 # 0 # be32 5) = Inr b"
    using ex_encoded by blast
  with records_sent_are_received [of "[(ex_pong, be64 9), (ex_packet, 1 # 0 # 0 # 0 # be32 5)]" "[a, b]"
      "[take 3 a, drop 3 a @ take 41 b, drop 41 b]"]
  show ?thesis by auto
qed

end
