(* ===== verification/Apfs_Image.thy ===== *)
theory Apfs_Image
  imports Prelude "HOL-Library.Multiset"
begin

unbundle bit_operations_syntax

text \<open>
  What the toolkit reads of a disc image before it opens a file system (\<^verbatim>\<open>apfs_image.rs\<close>): the GUID partition
  table, the choice of a container, the superblock probe, and the Fletcher checksum of APFS objects. A
  string is the list of its code points; \<^verbatim>\<open>usize\<close> is 64 bits wide. Sums and products that leave their type
  wrap, as in a release build.
\<close>

section \<open>The partition table\<close>

definition SECTOR_BYTES :: u64 where "SECTOR_BYTES = 512"
definition APPLE_SILICON_ANS_BLOCK_SIZE :: u32 where "APPLE_SILICON_ANS_BLOCK_SIZE = 4096"
definition GPT_ENTRY_COUNT :: u32 where "GPT_ENTRY_COUNT = 128"
definition GPT_ENTRY_BYTES :: u32 where "GPT_ENTRY_BYTES = 128"
definition GPT_ENTRY_ARRAY_BYTES :: u64 where "GPT_ENTRY_ARRAY_BYTES = ucast (GPT_ENTRY_COUNT * GPT_ENTRY_BYTES)"

text \<open>\<^verbatim>\<open>u64::div_ceil\<close>, of a divisor that is not 0.\<close>

definition div_ceil :: "u64 \<Rightarrow> u64 \<Rightarrow> u64" where
  "div_ceil a b = (if a mod b = 0 then a div b else a div b + 1)"

definition gpt_entry_array_blocks :: "u32 \<Rightarrow> u64" where
  "gpt_entry_array_blocks block_size = div_ceil GPT_ENTRY_ARRAY_BYTES (ucast block_size)"

definition gpt_reserved_blocks :: "u32 \<Rightarrow> u64" where
  "gpt_reserved_blocks block_size = 1 + gpt_entry_array_blocks block_size"

definition gpt_first_usable_lba :: "u32 \<Rightarrow> u64" where
  "gpt_first_usable_lba block_size = 2 + gpt_entry_array_blocks block_size"

definition gpt_min_blocks :: "u32 \<Rightarrow> u64" where
  "gpt_min_blocks block_size = gpt_first_usable_lba block_size + gpt_reserved_blocks block_size + 1"

definition GPT_RESERVED_SECTORS :: u64 where "GPT_RESERVED_SECTORS = gpt_reserved_blocks (ucast SECTOR_BYTES)"
definition GPT_FIRST_USABLE_LBA :: u64 where "GPT_FIRST_USABLE_LBA = gpt_first_usable_lba (ucast SECTOR_BYTES)"
definition GPT_MIN_SECTORS :: u64 where "GPT_MIN_SECTORS = gpt_min_blocks (ucast SECTOR_BYTES)"

definition guid :: "u32 \<Rightarrow> u16 \<Rightarrow> u16 \<Rightarrow> bytes \<Rightarrow> bytes" where
  "guid data1 data2 data3 tail = le32 data1 @ le16 data2 @ le16 data3 @ tail"

definition APPLE_APFS_ISC_TYPE_GUID :: bytes where
  "APPLE_APFS_ISC_TYPE_GUID = guid 0x69646961 0x6700 0x11AA [0xAA, 0x11, 0x00, 0x30, 0x65, 0x43, 0xEC, 0xAC]"

definition APPLE_APFS_TYPE_GUID :: bytes where
  "APPLE_APFS_TYPE_GUID = guid 0x7C3457EF 0x0000 0x11AA [0xAA, 0x11, 0x00, 0x30, 0x65, 0x43, 0xEC, 0xAC]"

definition EFI_SYSTEM_PARTITION_TYPE_GUID :: bytes where
  "EFI_SYSTEM_PARTITION_TYPE_GUID = guid 0xC12A7328 0xF81F 0x11D2 [0xBA, 0x4B, 0x00, 0xA0, 0xC9, 0x3E, 0xC9, 0x3B]"

definition LINUX_FILESYSTEM_TYPE_GUID :: bytes where
  "LINUX_FILESYSTEM_TYPE_GUID = guid 0x0FC63DAF 0x8483 0x4772 [0x8E, 0x79, 0x3D, 0x69, 0xD8, 0x47, 0x7D, 0xE4]"

definition GPT_SIGNATURE :: bytes where "GPT_SIGNATURE = ascii ''EFI PART''"

record GptPartition =
  gp_type_guid :: bytes
  gp_unique_guid :: bytes
  gp_first_lba :: u64
  gp_last_lba :: u64
  gp_attributes :: u64
  gp_name :: "u32 list"

definition byte_range :: "GptPartition \<Rightarrow> u32 \<Rightarrow> u64 \<times> u64" where
  "byte_range p block_size =
     (let bs = ucast block_size in (gp_first_lba p * bs, (gp_last_lba p + 1) * bs))"

definition is_apple_apfs :: "GptPartition \<Rightarrow> bool" where "is_apple_apfs p \<longleftrightarrow> gp_type_guid p = APPLE_APFS_TYPE_GUID"
definition is_apple_apfs_isc :: "GptPartition \<Rightarrow> bool" where
  "is_apple_apfs_isc p \<longleftrightarrow> gp_type_guid p = APPLE_APFS_ISC_TYPE_GUID"
definition is_efi :: "GptPartition \<Rightarrow> bool" where "is_efi p \<longleftrightarrow> gp_type_guid p = EFI_SYSTEM_PARTITION_TYPE_GUID"
definition is_linux :: "GptPartition \<Rightarrow> bool" where "is_linux p \<longleftrightarrow> gp_type_guid p = LINUX_FILESYSTEM_TYPE_GUID"

definition apfs_container_rank :: "GptPartition \<Rightarrow> u8" where
  "apfs_container_rank p = (if is_apple_apfs p then 2 else if is_apple_apfs_isc p then 0 else 1)"

text \<open>\<^verbatim>\<open>max_by_key\<close> keeps the last of several maxima.\<close>

type_synonym candidate = "GptPartition \<times> bool \<times> u64"

fun candidate_le :: "candidate \<Rightarrow> candidate \<Rightarrow> bool" where
  "candidate_le (p, nx, n) (q, ny, m) \<longleftrightarrow>
     apfs_container_rank p < apfs_container_rank q
     \<or> apfs_container_rank p = apfs_container_rank q \<and> (nx < ny \<or> nx = ny \<and> n \<le> m)"

definition pick_apfs_container :: "candidate list \<Rightarrow> candidate option" where
  "pick_apfs_container cs =
     foldl (\<lambda>best c. case best of None \<Rightarrow> Some c | Some b \<Rightarrow> if candidate_le b c then Some c else Some b) None cs"

record GptTable =
  gt_block_size :: u32
  gt_disk_guid :: bytes
  gt_partitions :: "GptPartition list"

datatype GptError = GptTooShort nat | BadSignature | UnsupportedBlockSize u32

definition is_power_of_two :: "u32 \<Rightarrow> bool" where
  "is_power_of_two n \<longleftrightarrow> n \<noteq> 0 \<and> n AND (n - 1) = 0"

text \<open>\<^verbatim>\<open>String::from_utf16_lossy\<close>: a surrogate without its partner becomes the replacement character.\<close>

fun from_utf16_lossy :: "u16 list \<Rightarrow> u32 list" where
  "from_utf16_lossy [] = []"
| "from_utf16_lossy [u] = [if u AND 0xF800 = 0xD800 then 0xFFFD else ucast u]"
| "from_utf16_lossy (u # v # us) =
     (if u AND 0xF800 \<noteq> 0xD800 then ucast u # from_utf16_lossy (v # us)
      else if u AND 0xFC00 = 0xD800 \<and> v AND 0xFC00 = 0xDC00
      then (0x10000 + (push_bit 10 (ucast u AND 0x3FF) OR (ucast v AND 0x3FF))) # from_utf16_lossy us
      else 0xFFFD # from_utf16_lossy (v # us))"

fun le_units :: "bytes \<Rightarrow> u16 list" where
  "le_units (a # b # bs) = from_le16 [a, b] # le_units bs"
| "le_units bs = []"

definition utf16le_z :: "bytes \<Rightarrow> u32 list" where
  "utf16le_z bs = from_utf16_lossy (takeWhile (\<lambda>u. u \<noteq> 0) (le_units bs))"

definition saturating_usize :: "int \<Rightarrow> int" where
  "saturating_usize n = min n (2 ^ 64 - 1)"

definition parse_entry :: "bytes \<Rightarrow> GptPartition" where
  "parse_entry entry =
     \<lparr>gp_type_guid = subslice entry 0 16, gp_unique_guid = subslice entry 16 32,
      gp_first_lba = from_le64 (subslice entry 32 40), gp_last_lba = from_le64 (subslice entry 40 48),
      gp_attributes = from_le64 (subslice entry 48 56), gp_name = utf16le_z (subslice entry 56 (min 128 (length entry)))\<rparr>"

fun parse_entries :: "bytes \<Rightarrow> nat \<Rightarrow> nat \<Rightarrow> nat \<Rightarrow> GptPartition list" where
  "parse_entries img part_size pos 0 = []"
| "parse_entries img part_size pos (Suc n) =
     (let entry = subslice img pos (pos + part_size); rest = parse_entries img part_size (pos + part_size) n
      in if list_all (\<lambda>b. b = 0) (subslice entry 0 16) then rest else parse_entry entry # rest)"

definition parse_gpt :: "bytes \<Rightarrow> u32 \<Rightarrow> GptError + GptTable" where
  "parse_gpt img block_size =
     (if block_size < 512 \<or> \<not> is_power_of_two block_size then Inl (UnsupportedBlockSize block_size)
      else
        let header_at = unat block_size
        in if length img < header_at + 92 then Inl (GptTooShort (length img))
           else
             let header = subslice img header_at (header_at + 92)
             in if subslice header 0 8 \<noteq> GPT_SIGNATURE then Inl BadSignature
                else
                  let disk_guid = subslice header 56 72;
                      part_lba = from_le64 (subslice header 72 80);
                      part_count = from_le32 (subslice header 80 84);
                      part_size = from_le32 (subslice header 84 88)
                  in if part_size < 128 then Inl BadSignature
                     else
                       let array_at = saturating_usize (uint part_lba * uint block_size);
                           array_bytes = saturating_usize (uint part_count * uint part_size)
                       in if int (length img) < saturating_usize (array_at + array_bytes)
                          then Inl (GptTooShort (length img))
                          else Inr \<lparr>gt_block_size = block_size, gt_disk_guid = disk_guid,
                                    gt_partitions = parse_entries img (unat part_size) (nat array_at) (unat part_count)\<rparr>)"

section \<open>The superblock and its checksum\<close>

definition NX_MAGIC_OFFSET :: nat where "NX_MAGIC_OFFSET = 0x20"
definition NX_BLOCK_SIZE_OFFSET :: nat where "NX_BLOCK_SIZE_OFFSET = 0x24"
definition NX_BLOCK_COUNT_OFFSET :: nat where "NX_BLOCK_COUNT_OFFSET = 0x28"
definition NX_UUID_OFFSET :: nat where "NX_UUID_OFFSET = 0x48"
definition NX_FLAGS_OFFSET :: nat where "NX_FLAGS_OFFSET = 0x4F0"
definition NX_MAGIC :: u32 where "NX_MAGIC = 0x4253584E"
definition NX_PROBE_BLOCK_SIZE :: u32 where "NX_PROBE_BLOCK_SIZE = 0x1000"
definition NX_FLAG_COMPOSITED :: u8 where "NX_FLAG_COMPOSITED = push_bit 2 1"
definition APFS_OBJ_PHYS_BYTES :: nat where "APFS_OBJ_PHYS_BYTES = 32"
definition APFS_INCOMPAT_SEALED_VOLUME :: u64 where "APFS_INCOMPAT_SEALED_VOLUME = 0x20"

definition APFS_VOL_ROLE_NONE :: u16 where "APFS_VOL_ROLE_NONE = 0x0000"
definition APFS_VOL_ROLE_SYSTEM :: u16 where "APFS_VOL_ROLE_SYSTEM = 0x0001"
definition APFS_VOL_ROLE_USER :: u16 where "APFS_VOL_ROLE_USER = 0x0002"
definition APFS_VOL_ROLE_RECOVERY :: u16 where "APFS_VOL_ROLE_RECOVERY = 0x0004"
definition APFS_VOL_ROLE_VM :: u16 where "APFS_VOL_ROLE_VM = 0x0008"
definition APFS_VOL_ROLE_PREBOOT :: u16 where "APFS_VOL_ROLE_PREBOOT = 0x0010"
definition APFS_VOL_ROLE_INSTALLER :: u16 where "APFS_VOL_ROLE_INSTALLER = 0x0020"
definition APFS_VOL_ROLE_DATA :: u16 where "APFS_VOL_ROLE_DATA = push_bit 6 1"
definition APFS_VOL_ROLE_BASEBAND :: u16 where "APFS_VOL_ROLE_BASEBAND = push_bit 6 2"
definition APFS_VOL_ROLE_UPDATE :: u16 where "APFS_VOL_ROLE_UPDATE = push_bit 6 3"
definition APFS_VOL_ROLE_XART :: u16 where "APFS_VOL_ROLE_XART = push_bit 6 4"
definition APFS_VOL_ROLE_HARDWARE :: u16 where "APFS_VOL_ROLE_HARDWARE = push_bit 6 5"
definition APFS_VOL_ROLE_BACKUP :: u16 where "APFS_VOL_ROLE_BACKUP = push_bit 6 6"

definition apfs_role_name :: "u16 \<Rightarrow> string option" where
  "apfs_role_name role = map_of
     [(APFS_VOL_ROLE_NONE, ''none''),
      (APFS_VOL_ROLE_SYSTEM, ''System''),
      (APFS_VOL_ROLE_USER, ''User''),
      (APFS_VOL_ROLE_RECOVERY, ''Recovery''),
      (APFS_VOL_ROLE_VM, ''VM''),
      (APFS_VOL_ROLE_PREBOOT, ''Preboot''),
      (APFS_VOL_ROLE_INSTALLER, ''Installer''),
      (APFS_VOL_ROLE_DATA, ''Data''),
      (APFS_VOL_ROLE_BASEBAND, ''Baseband''),
      (APFS_VOL_ROLE_UPDATE, ''Update''),
      (APFS_VOL_ROLE_XART, ''xART''),
      (APFS_VOL_ROLE_HARDWARE, ''Hardware''),
      (APFS_VOL_ROLE_BACKUP, ''Backup'')] role"

fun le_words :: "bytes \<Rightarrow> u32 list" where
  "le_words (a # b # c # d # bs) = from_le32 [a, b, c, d] # le_words bs"
| "le_words bs = []"

definition fletcher_step :: "u64 \<times> u64 \<Rightarrow> u32 \<Rightarrow> u64 \<times> u64" where
  "fletcher_step st word =
     (let lo = (fst st + ucast word) mod 0xFFFFFFFF; hi = (snd st + lo) mod 0xFFFFFFFF in (lo, hi))"

definition fletcher64_sums :: "bytes \<Rightarrow> u64 \<times> u64" where
  "fletcher64_sums body = foldl fletcher_step (0, 0) (le_words body)"

text \<open>The slice of the body panics on a block of fewer than 8 bytes, which is \<open>None\<close> here.\<close>

definition fletcher64 :: "bytes \<Rightarrow> u64 option" where
  "fletcher64 block =
     (if length block < 8 then None else
      let (lo, hi) = fletcher64_sums (drop 8 block);
          c1 = 0xFFFFFFFF - (lo + hi) mod 0xFFFFFFFF;
          c2 = 0xFFFFFFFF - (lo + c1) mod 0xFFFFFFFF
      in Some (push_bit 32 c2 OR c1))"

definition fletcher64_seal :: "bytes \<Rightarrow> bytes option" where
  "fletcher64_seal block = map_option (\<lambda>checksum. put block 0 (le64 checksum)) (fletcher64 block)"

definition fletcher64_valid :: "bytes \<Rightarrow> bool" where
  "fletcher64_valid block \<longleftrightarrow> length block \<ge> 8 \<and> length block mod 4 = 0 \<and> fst (fletcher64_sums block) = 0"

record ContainerProbe =
  cp_block_size :: u32
  cp_block_count :: u64
  cp_uuid :: bytes
  cp_composited :: bool
  cp_checksum_valid :: bool

datatype ContainerProbeError = ProbeTooShort nat | BadMagic u32

definition le_u32 :: "bytes \<Rightarrow> nat \<Rightarrow> u32" where "le_u32 bs at = from_le32 (subslice bs at (at + 4))"
definition le_u64 :: "bytes \<Rightarrow> nat \<Rightarrow> u64" where "le_u64 bs at = from_le64 (subslice bs at (at + 8))"

definition probe_container :: "bytes \<Rightarrow> ContainerProbeError + ContainerProbe" where
  "probe_container block0 =
     (if length block0 \<le> NX_FLAGS_OFFSET then Inl (ProbeTooShort (length block0))
      else
        let magic = le_u32 block0 NX_MAGIC_OFFSET
        in if magic \<noteq> NX_MAGIC then Inl (BadMagic magic)
           else
             let raw_block_size = le_u32 block0 NX_BLOCK_SIZE_OFFSET
             in Inr \<lparr>cp_block_size = (if raw_block_size = 0 then NX_PROBE_BLOCK_SIZE else min raw_block_size NX_PROBE_BLOCK_SIZE),
                     cp_block_count = le_u64 block0 NX_BLOCK_COUNT_OFFSET,
                     cp_uuid = subslice block0 NX_UUID_OFFSET (NX_UUID_OFFSET + 16),
                     cp_composited = (block0 ! NX_FLAGS_OFFSET AND NX_FLAG_COMPOSITED \<noteq> 0),
                     cp_checksum_valid = fletcher64_valid block0\<rparr>)"

section \<open>What the checksum establishes\<close>

abbreviation word_sum :: "u32 list \<Rightarrow> int" where
  "word_sum ws \<equiv> sum_list (map uint ws)"

lemma uint_add_mod_M:
  fixes a b :: u64
  assumes "uint a < 2 ^ 33" "uint b < 2 ^ 33"
  shows "uint ((a + b) mod 0xFFFFFFFF) = (uint a + uint b) mod 0xFFFFFFFF"
proof -
  have "uint (a + b) = uint a + uint b"
    using assms by (simp add: uint_word_ariths)
  then show ?thesis by (simp add: uint_mod)
qed

lemma uint_word32_less: "uint (w :: u32) < 2 ^ 32"
  using uint_bounded [of w] by simp

lemma fletcher_step_sums:
  assumes "uint lo < 0xFFFFFFFF" "uint hi < 0xFFFFFFFF" "fletcher_step (lo, hi) w = (lo', hi')"
  shows "uint lo' = (uint lo + uint w) mod 0xFFFFFFFF" "uint hi' < 0xFFFFFFFF"
proof -
  have w: "uint (ucast w :: u64) = uint w" by (simp add: uint_up_ucast is_up)
  have lo': "lo' = (lo + ucast w) mod 0xFFFFFFFF" and hi': "hi' = (hi + lo') mod 0xFFFFFFFF"
    using assms(3) by (auto simp: fletcher_step_def Let_def)
  show "uint lo' = (uint lo + uint w) mod 0xFFFFFFFF"
    unfolding lo' using assms(1) uint_word32_less [of w] by (subst uint_add_mod_M) (simp_all add: w)
  show "uint hi' < 0xFFFFFFFF" unfolding hi' by (simp add: uint_mod)
qed

lemma fletcher_fold_sum:
  assumes "uint lo < 0xFFFFFFFF" "uint hi < 0xFFFFFFFF"
  shows "uint (fst (foldl fletcher_step (lo, hi) ws)) = (uint lo + word_sum ws) mod 0xFFFFFFFF
    \<and> uint (snd (foldl fletcher_step (lo, hi) ws)) < 0xFFFFFFFF"
  using assms
proof (induction ws arbitrary: lo hi)
  case Nil
  then show ?case by simp
next
  case (Cons w ws)
  obtain lo' hi' where st: "fletcher_step (lo, hi) w = (lo', hi')" by (metis surj_pair)
  note sums = fletcher_step_sums [OF Cons.prems st]
  have "uint lo' < 0xFFFFFFFF" unfolding sums(1) by simp
  from Cons.IH [OF this sums(2)] show ?case
    by (simp add: st sums(1) mod_add_left_eq add.assoc)
qed

lemma fletcher64_sums_lo: "uint (fst (fletcher64_sums body)) = word_sum (le_words body) mod 0xFFFFFFFF"
  and fletcher64_sums_hi: "uint (snd (fletcher64_sums body)) < 0xFFFFFFFF"
  using fletcher_fold_sum [of 0 0 "le_words body"] by (simp_all add: fletcher64_sums_def)

lemma fletcher64_valid_iff:
  "fletcher64_valid block \<longleftrightarrow> 8 \<le> length block \<and> length block mod 4 = 0 \<and> word_sum (le_words block) mod 0xFFFFFFFF = 0"
  by (simp add: fletcher64_valid_def fletcher64_sums_lo [symmetric] unsigned_eq_0_iff)

text \<open>The two check words complete the sum to a multiple of \<open>2 ^ 32 - 1\<close>.\<close>

lemma le64_words: "le64 c = le32 (ucast c) @ le32 (ucast (drop_bit 32 c))"
proof (rule nth_equalityI)
  fix i assume i: "i < length (le64 c)"
  show "le64 c ! i = (le32 (ucast c) @ le32 (ucast (drop_bit 32 c))) ! i"
  proof (cases "i < 4")
    case True
    then have "(ucast (drop_bit (8 * i) c) :: u8) = ucast (drop_bit (8 * i) (ucast c :: u32))"
      by (intro bit_word_eqI) (auto simp: bit_simps)
    with True show ?thesis by (simp add: nth_append) (simp add: le_bytes_def)
  next
    case False
    then obtain j where j: "i = 4 + j" "j < 4" using i by (metis add_less_cancel_left le_Suc_ex length_le_bytes not_less numeral_Bit0)
    then have "(ucast (drop_bit (8 * i) c) :: u8) = ucast (drop_bit (8 * j) (ucast (drop_bit 32 c) :: u32))"
      by (intro bit_word_eqI) (auto simp: bit_simps algebra_simps)
    with j show ?thesis by (simp add: nth_append) (simp add: le_bytes_def)
  qed
qed simp

lemma le_words_append_le32: "le_words (le32 w @ bs) = w # le_words bs"
proof -
  have "length (le32 w) = Suc (Suc (Suc (Suc 0)))" by simp
  then obtain a b c d where abcd: "le32 w = [a, b, c, d]"
    by (auto simp only: length_Suc_conv length_0_conv)
  have "from_le32 (le32 w) = w" by simp
  then show ?thesis unfolding abcd by (simp del: of_le_simps)
qed

lemma uint_check_word:
  assumes "uint x < 0xFFFFFFFF"
  shows "uint (0xFFFFFFFF - x :: u64) = 0xFFFFFFFF - uint x"
proof -
  have "(0xFFFFFFFF - uint x) mod 18446744073709551616 = 0xFFFFFFFF - uint x"
    by (rule mod_pos_pos_trivial) (use assms uint_nonnegative [of x] in linarith)+
  then show ?thesis by (simp add: uint_word_ariths)
qed

lemma check_words_split:
  fixes c1 c2 :: u64
  assumes "uint c1 < 2 ^ 32" "uint c2 < 2 ^ 32"
  shows "uint (ucast (push_bit 32 c2 OR c1) :: u32) = uint c1"
    and "uint (ucast (drop_bit 32 (push_bit 32 c2 OR c1)) :: u32) = uint c2"
proof -
  have t: "take_bit 32 c1 = c1" "take_bit 32 c2 = c2"
    using assms by (simp_all add: word_uint_eq_iff unsigned_take_bit_eq take_bit_int_eq_self)
  have b: "bit c1 i \<Longrightarrow> i < 32" "bit c2 i \<Longrightarrow> i < 32" for i
    using t by (metis bit_take_bit_iff)+
  have "(ucast (push_bit 32 c2 OR c1) :: u32) = ucast c1"
    by (rule bit_word_eqI) (auto simp: bit_simps)
  moreover have "(ucast (drop_bit 32 (push_bit 32 c2 OR c1)) :: u32) = ucast c2"
    by (rule bit_word_eqI) (auto simp: bit_simps dest: b)
  ultimately show "uint (ucast (push_bit 32 c2 OR c1) :: u32) = uint c1"
    "uint (ucast (drop_bit 32 (push_bit 32 c2 OR c1)) :: u32) = uint c2"
    using assms by (simp_all add: unsigned_ucast_eq take_bit_int_eq_self)
qed

lemma complement_sum: "(a + (m - (b + a) mod m) + b) mod m = 0" for a b m :: int
proof -
  have "a + (m - (b + a) mod m) + b = m * (1 + (b + a) div m)"
    using mult_div_mod_eq [of m "b + a"] by (simp add: algebra_simps)
  then show ?thesis by simp
qed

lemma fletcher64_completes_sum:
  assumes "fletcher64 block = Some c"
  shows "(uint (ucast c :: u32) + uint (ucast (drop_bit 32 c) :: u32) + word_sum (le_words (drop 8 block)))
    mod 0xFFFFFFFF = 0"
proof -
  define lo where "lo = fst (fletcher64_sums (drop 8 block))"
  define hi where "hi = snd (fletcher64_sums (drop 8 block))"
  define c1 where "c1 = 0xFFFFFFFF - (lo + hi) mod 0xFFFFFFFF"
  define c2 where "c2 = 0xFFFFFFFF - (lo + c1) mod 0xFFFFFFFF"
  have c: "c = push_bit 32 c2 OR c1"
    using assms by (simp add: fletcher64_def Let_def c1_def c2_def lo_def hi_def split: if_splits prod.splits)
  have lo: "uint lo = word_sum (le_words (drop 8 block)) mod 0xFFFFFFFF"
    and hi: "uint hi < 0xFFFFFFFF" unfolding lo_def hi_def by (rule fletcher64_sums_lo fletcher64_sums_hi)+
  have lo_lt: "uint lo < 0xFFFFFFFF" unfolding lo by simp
  have c1: "uint c1 = 0xFFFFFFFF - (uint lo + uint hi) mod 0xFFFFFFFF"
    unfolding c1_def using uint_add_mod_M [of lo hi] lo_lt hi by (subst uint_check_word) simp_all
  have c1_lt: "uint c1 < 2 ^ 32" using pos_mod_bound [of "0xFFFFFFFF" "uint lo + uint hi"] unfolding c1 by simp
  have c2: "uint c2 = 0xFFFFFFFF - (uint lo + uint c1) mod 0xFFFFFFFF"
    unfolding c2_def using uint_add_mod_M [of lo c1] lo_lt c1_lt by (subst uint_check_word) simp_all
  have c2_lt: "uint c2 < 2 ^ 32" unfolding c2 by simp
  have "(uint c1 + uint c2 + uint lo) mod 0xFFFFFFFF = 0"
    unfolding c2 by (rule complement_sum)
  then show ?thesis
    unfolding c check_words_split [OF c1_lt c2_lt] lo by (simp add: mod_add_right_eq)
qed

lemma fletcher64_seal_exists:
  assumes "8 \<le> length block" "length block mod 4 = 0"
  obtains c where "fletcher64_seal block = Some (le64 c @ drop 8 block)" "fletcher64_valid (le64 c @ drop 8 block)"
proof -
  obtain c where c: "fletcher64 block = Some c"
    using assms by (cases "fletcher64 block") (auto simp: fletcher64_def Let_def split: prod.splits)
  have "le_words (le64 c @ drop 8 block) = ucast c # ucast (drop_bit 32 c) # le_words (drop 8 block)"
    by (simp add: le64_words le_words_append_le32)
  then have "fletcher64_valid (le64 c @ drop 8 block)"
    using assms fletcher64_completes_sum [OF c] by (simp add: fletcher64_valid_iff add.assoc)
  moreover have "fletcher64_seal block = Some (le64 c @ drop 8 block)"
    by (simp add: fletcher64_seal_def c put_def)
  ultimately show ?thesis using that by blast
qed

text \<open>
  Claim C39. Sealing an APFS block keeps everything after its first 8 bytes and always produces a block
  that validates; and validation accepts exactly the blocks whose 32-bit words sum to a multiple
  of \<open>2 ^ 32 - 1\<close>. The second Fletcher sum takes no part in it.
\<close>

theorem fletcher64_seal_validates:
  assumes "8 \<le> length block" "length block mod 4 = 0"
  shows "(\<exists>sealed. fletcher64_seal block = Some sealed \<and> length sealed = length block
      \<and> drop 8 sealed = drop 8 block \<and> fletcher64_valid sealed)
    \<and> (fletcher64_valid block \<longleftrightarrow> word_sum (le_words block) mod 0xFFFFFFFF = 0)"
proof -
  obtain c where "fletcher64_seal block = Some (le64 c @ drop 8 block)" "fletcher64_valid (le64 c @ drop 8 block)"
    using assms by (rule fletcher64_seal_exists)
  with assms show ?thesis by (simp add: fletcher64_valid_iff)
qed

theorem fletcher64_seal_validates_witness:
  "(\<exists>sealed. fletcher64_seal [0, 0, 0, 0, 0, 0, 0, 0, 1, 2, 3, 4] = Some sealed
      \<and> drop 8 sealed = [1, 2, 3, 4] \<and> fletcher64_valid sealed)
    \<and> \<not> fletcher64_valid [0, 0, 0, 0, 0, 0, 0, 0, 1, 2, 3, 4]"
  using fletcher64_seal_validates [of "[0, 0, 0, 0, 0, 0, 0, 0, 1, 2, 3, 4]"] by auto

text \<open>
  Reordering the words of a block therefore goes unnoticed, although it changes the checksum; a blank block
  validates with a stored checksum of 0, which is not its checksum.
\<close>

lemma fletcher64_valid_ignores_order:
  assumes "length a = length b" "mset (le_words a) = mset (le_words b)"
  shows "fletcher64_valid a = fletcher64_valid b"
proof -
  have "word_sum (le_words a) = word_sum (le_words b)"
    using assms(2) by (metis mset_map sum_mset_sum_list)
  with assms(1) show ?thesis by (simp add: fletcher64_valid_iff)
qed

lemma fletcher64_valid_swapped:
  "let stored = 0x11FFFFFFE4; a = le64 stored @ le32 7 @ le32 3; b = le64 stored @ le32 3 @ le32 7
   in fletcher64_valid a \<and> fletcher64 a = Some stored \<and> fletcher64_valid b \<and> fletcher64 b \<noteq> Some stored"
  by code_simp

lemma fletcher64_valid_blank:
  "fletcher64_valid (replicate 32 0) \<and> fletcher64 (replicate 32 0) \<noteq> Some 0"
  by code_simp

section \<open>The choice of a container\<close>

declare candidate_le.simps [simp del]

lemma candidate_le_total: "candidate_le c d \<or> candidate_le d c"
  by (cases c; cases d) (auto simp: candidate_le.simps)

lemma candidate_le_trans: "candidate_le c d \<Longrightarrow> candidate_le d e \<Longrightarrow> candidate_le c e"
  by (cases c; cases d; cases e) (auto simp: candidate_le.simps)

lemma pick_fold_best:
  "\<exists>c. foldl (\<lambda>best c. case best of None \<Rightarrow> Some c | Some b \<Rightarrow> if candidate_le b c then Some c else Some b) (Some b) cs = Some c
     \<and> c \<in> insert b (set cs) \<and> (\<forall>d \<in> insert b (set cs). candidate_le d c)"
proof (induction cs arbitrary: b)
  case Nil
  then show ?case using candidate_le_total [of b b] by simp
next
  case (Cons x cs)
  show ?case
  proof (cases "candidate_le b x")
    case True
    with Cons.IH [of x] candidate_le_trans [OF True] show ?thesis by (auto simp del: split_paired_Ex)
  next
    case False
    then have le: "candidate_le x b" using candidate_le_total by blast
    with False Cons.IH [of b] candidate_le_trans [OF le] show ?thesis by (auto simp del: split_paired_Ex)
  qed
qed

text \<open>A container is picked whenever there is a candidate, and none of the candidates ranks above it.\<close>

lemma pick_apfs_container_best:
  assumes "cs \<noteq> []"
  shows "\<exists>c \<in> set cs. pick_apfs_container cs = Some c \<and> (\<forall>d \<in> set cs. candidate_le d c)"
  using assms pick_fold_best [of "hd cs" "tl cs"] by (cases cs) (auto simp: pick_apfs_container_def)

end
