(* ===== verification/Apfs_Fixture.thy ===== *)
theory Apfs_Fixture
  imports Apfs_Image Checksums
begin

text \<open>
  The writer of disc images (\<^verbatim>\<open>apfs_fixture.rs\<close>): the wrapping of a payload into a disc with a protective
  MBR, a primary and a backup partition table, and the container superblock. What it writes is
  read back by the parser and the probe of theory \<^verbatim>\<open>Apfs_Image\<close>.
\<close>

section \<open>The partition table writer\<close>

definition put_u32 :: "bytes \<Rightarrow> nat \<Rightarrow> u32 \<Rightarrow> bytes" where "put_u32 buf pos v = put buf pos (le32 v)"

definition put_u64 :: "bytes \<Rightarrow> nat \<Rightarrow> u64 \<Rightarrow> bytes" where "put_u64 buf pos v = put buf pos (le64 v)"

text \<open>\<^verbatim>\<open>str::encode_utf16\<close>.\<close>

fun encode_utf16 :: "u32 list \<Rightarrow> u16 list" where
  "encode_utf16 [] = []"
| "encode_utf16 (c # cs) =
     (if c < 0x10000 then [ucast c]
      else [0xD800 OR ucast (drop_bit 10 (c - 0x10000)), 0xDC00 OR ucast ((c - 0x10000) AND 0x3FF)]) @ encode_utf16 cs"

definition utf16le_name :: "u32 list \<Rightarrow> bytes" where
  "utf16le_name name =
     foldl (\<lambda>out (i, unit). put out (i * 2) (le16 unit)) (replicate 72 0) (enumerate 0 (take 36 (encode_utf16 name)))"

definition entry_array :: "bytes \<Rightarrow> u64 \<Rightarrow> u64 \<Rightarrow> bytes" where
  "entry_array part_guid first_lba last_lba_part =
     (let a = replicate (128 * 128) 0;
          a = put a 0 APPLE_APFS_TYPE_GUID;
          a = put a 16 part_guid;
          a = put a 32 (le64 first_lba);
          a = put a 40 (le64 last_lba_part);
          name = utf16le_name (map of_char ''APFS'')
      in put a 56 name)"

definition protective_mbr :: "u64 \<Rightarrow> bytes" where
  "protective_mbr backup_header =
     (let mbr = replicate (unat SECTOR_BYTES) 0;
          mbr = mbr[0x1BE + 4 := 0xEE];
          mbr = mbr[0x1BE + 8 := 1];
          mbr_sectors = sat_sub (ucast backup_header :: u32) 1;
          mbr = put mbr (0x1BE + 12) (le32 mbr_sectors);
          mbr = mbr[0x1FE := 0x55]
      in mbr[0x1FF := 0xAA])"

text \<open>The closure \<^verbatim>\<open>write_header\<close>, with what it captures as its first arguments.\<close>

definition write_header :: "u32 \<Rightarrow> u64 \<Rightarrow> bytes \<Rightarrow> u32 \<Rightarrow> u64 \<Rightarrow> u64 \<Rightarrow> u64 \<Rightarrow> bytes" where
  "write_header sector backup_header disk_guid array_crc current alt part_lba =
     (let h = replicate (unat SECTOR_BYTES) 0;
          h = put h 0 GPT_SIGNATURE;
          h = put_u32 h 8 0x00010000;
          h = put_u32 h 12 92;
          h = put_u64 h 24 current;
          h = put_u64 h 32 alt;
          h = put_u64 h 40 (gpt_first_usable_lba sector);
          h = put_u64 h 48 (backup_header - gpt_reserved_blocks sector);
          h = put h 56 disk_guid;
          h = put_u64 h 72 part_lba;
          h = put_u32 h 80 128;
          h = put_u32 h 84 128;
          h = put_u32 h 88 array_crc;
          crc = embedded_panic_crc32 (take 92 h)
      in put_u32 h 16 crc)"

definition fixture_disk_guid :: bytes where
  "fixture_disk_guid = guid 0x4449534B 0x0001 0x4000 [0x80, 1, 2, 3, 4, 5, 6, 7]"

definition fixture_part_guid :: bytes where
  "fixture_part_guid = guid 0x41504653 0x0001 0x4000 [0x80, 9, 8, 7, 6, 5, 4, 3]"

definition wrap_gpt :: "bytes \<Rightarrow> bytes" where
  "wrap_gpt payload =
     (let sector = (ucast SECTOR_BYTES :: u32);
          part_sectors = max (div_ceil (of_nat (length payload)) (ucast sector)) 1;
          first_lba = 40;
          last_lba_part = first_lba + part_sectors - 1;
          backup_header = last_lba_part + gpt_reserved_blocks sector;
          disk_sectors = backup_header + 1;
          img = replicate (unat (disk_sectors * ucast sector)) 0;
          img = put img 0 (protective_mbr backup_header);
          array = entry_array fixture_part_guid first_lba last_lba_part;
          array_crc = embedded_panic_crc32 array;
          img = put img (2 * unat SECTOR_BYTES) array;
          primary = write_header sector backup_header fixture_disk_guid array_crc 1 backup_header 2;
          img = put img (unat SECTOR_BYTES) primary;
          backup_entries = backup_header - 32;
          img = put img (unat (backup_entries * ucast sector)) array;
          backup = write_header sector backup_header fixture_disk_guid array_crc backup_header 1 backup_entries;
          img = put img (unat (backup_header * ucast sector)) backup
      in put img (unat (first_lba * ucast sector)) payload)"

section \<open>The superblock writer\<close>

definition APFS_BLOCK :: u32 where "APFS_BLOCK = 4096"
definition TYPE_NX_SUPERBLOCK :: u32 where "TYPE_NX_SUPERBLOCK = 0x01"
definition OBJ_EPHEMERAL :: u32 where "OBJ_EPHEMERAL = 0x80000000"

definition obj_stamp :: "bytes \<Rightarrow> u64 \<Rightarrow> u64 \<Rightarrow> u32 \<Rightarrow> u32 \<Rightarrow> bytes option" where
  "obj_stamp block oid xid o_type subtype =
     (let b = put_u64 block 8 oid;
          b = put_u64 b 16 xid;
          b = put_u32 b 24 o_type;
          b = put_u32 b 28 subtype
      in fletcher64_seal b)"

text \<open>A slice past the end of the block panics, which is \<open>None\<close>.\<close>

definition write_nxsb :: "u64 \<Rightarrow> bytes \<Rightarrow> u64 \<Rightarrow> u64 list \<Rightarrow> u64 \<Rightarrow> u64 \<Rightarrow> bytes option" where
  "write_nxsb block_count uuid omap_paddr vol_oids xid oid =
     (let b = replicate (unat APFS_BLOCK) 0;
          b = put_u32 b 0x20 NX_MAGIC;
          b = put_u32 b 0x24 APFS_BLOCK;
          b = put_u64 b 0x28 block_count;
          b = put b 0x48 uuid;
          b = put_u64 b 0x58 4096;
          b = put_u64 b 0x60 (xid + 1);
          b = put_u32 b 0x68 8;
          b = put_u32 b 0x6C 8;
          b = put_u64 b 0x70 1;
          b = put_u64 b 0x78 9;
          b = put_u32 b 0x8C 1;
          b = put_u64 b 0xA0 omap_paddr;
          b = put_u32 b 0xB4 (of_nat (length vol_oids))
      in if length b < 0xB8 + length vol_oids * 8 then None
         else
           let b = foldl (\<lambda>b (i, oid_v). put_u64 b (0xB8 + i * 8) oid_v) b (enumerate 0 vol_oids)
           in obj_stamp b oid xid (TYPE_NX_SUPERBLOCK OR OBJ_EPHEMERAL) 0)"

section \<open>The layout of a wrapped disc\<close>

definition payload_sectors :: "bytes \<Rightarrow> nat" where
  "payload_sectors payload = max ((length payload + 511) div 512) 1"

lemma sector_values:
  "unat SECTOR_BYTES = 512" "(ucast SECTOR_BYTES :: u32) = 512" "gpt_reserved_blocks 512 = 33"
  by (simp_all add: SECTOR_BYTES_def gpt_reserved_blocks_def gpt_entry_array_blocks_def div_ceil_def
      GPT_ENTRY_ARRAY_BYTES_def GPT_ENTRY_COUNT_def GPT_ENTRY_BYTES_def)

lemma nat_ceil_512: "(if n mod 512 = 0 then n div 512 else n div 512 + 1) = (n + 511) div 512" for n :: nat
proof -
  define q r where "q = n div 512" and "r = n mod 512"
  then have n: "n = 512 * q + r" and r: "r < 512" by simp_all
  show ?thesis
  proof (cases "r = 0")
    case True
    have "(n + 511) div 512 = q" by (rule div_nat_eqI) (use n True in simp_all)
    with True show ?thesis by (simp add: q_def r_def)
  next
    case False
    have "(n + 511) div 512 = q + 1" by (rule div_nat_eqI) (use n r False in simp_all)
    with False show ?thesis by (simp add: q_def r_def)
  qed
qed

lemma payload_fits: "length payload \<le> payload_sectors payload * 512"
proof -
  let ?m = "length payload + 511"
  have "512 * (?m div 512) + ?m mod 512 = ?m" by (rule mult_div_mod_eq)
  moreover have "?m mod 512 < 512" by simp
  ultimately have "length payload \<le> ?m div 512 * 512" by linarith
  also have "\<dots> \<le> payload_sectors payload * 512" by (simp add: payload_sectors_def)
  finally show ?thesis .
qed

lemma payload_sectors_bound:
  assumes "length payload < 2 ^ 62"
  shows "payload_sectors payload < 2 ^ 54"
proof -
  have "(length payload + 511) div 512 < 2 ^ 54"
    by (rule less_mult_imp_div_less) (use assms in simp)
  then show ?thesis by (simp add: payload_sectors_def)
qed

lemma part_sectors_word:
  assumes "length payload < 2 ^ 62"
  shows "max (div_ceil (of_nat (length payload)) 512) 1 = (of_nat (payload_sectors payload) :: u64)"
proof -
  let ?n = "length payload"
  have n: "unat (of_nat ?n :: u64) = ?n" using assms by (intro unat_of_nat_small) simp
  have c: "unat (div_ceil (of_nat ?n) 512) = (?n + 511) div 512"
  proof (cases "?n mod 512 = 0")
    case True
    then have "(of_nat ?n :: u64) mod 512 = 0" using n by (simp add: word_unat_eq_iff unat_mod)
    with True n show ?thesis unfolding nat_ceil_512 [symmetric] by (simp add: div_ceil_def unat_div)
  next
    case False
    then have "(of_nat ?n :: u64) mod 512 \<noteq> 0" using n by (simp add: word_unat_eq_iff unat_mod)
    moreover have "unat ((of_nat ?n :: u64) div 512 + 1) = ?n div 512 + 1"
      using n assms by (simp add: unat_word_ariths unat_div)
    ultimately show ?thesis using False unfolding nat_ceil_512 [symmetric] by (simp add: div_ceil_def)
  qed
  have "unat (max (div_ceil (of_nat ?n) 512) (1 :: u64)) = payload_sectors payload"
    by (simp add: payload_sectors_def max_def word_le_nat_alt c)
  also have "\<dots> = unat (of_nat (payload_sectors payload) :: u64)"
    using payload_sectors_bound [OF assms] by (intro unat_of_nat_small [symmetric]) simp
  finally show ?thesis by (rule iffD2 [OF word_unat_eq_iff])
qed

lemma put_middle:
  "length old = length new \<Longrightarrow> k = length pre \<Longrightarrow> put (pre @ old @ post) k new = pre @ new @ post"
  by (simp add: put_def)

lemma six_writes:
  fixes m p a b pay :: bytes
  assumes len: "length m = 512" "length p = 512" "length a = 16384" "length b = 512" "length pay \<le> k * 512"
  defines "z \<equiv> \<lambda>n. replicate n (0 :: byte)"
  shows "put (put (put (put (put (put (z ((73 + k) * 512)) 0 m) 1024 a) 512 p) ((40 + k) * 512) a) ((72 + k) * 512) b) 20480 pay
    = m @ p @ a @ z 3072 @ pay @ z (k * 512 - length pay) @ a @ b"
proof -
  let ?n = "length pay" and ?r = "k * 512 - length pay"
  have "(73 + k) * 512 = 512 + (512 + (16384 + (3072 + (?n + (?r + (16384 + 512))))))"
    using len(5) by simp
  then have z: "z ((73 + k) * 512) = z 512 @ z 512 @ z 16384 @ z 3072 @ z ?n @ z ?r @ z 16384 @ z 512"
    by (simp only: z_def replicate_add)
  have lz: "length (z n) = n" for n by (simp add: z_def)
  have pos: "length (m @ p @ a @ z 3072 @ z ?n @ z ?r) = (40 + k) * 512"
    "length (m @ p @ a @ z 3072 @ z ?n @ z ?r @ a) = (72 + k) * 512"
    by (simp_all only: length_append lz len(1-4)) (use len(5) in simp_all)
  have 1: "put (z 512 @ q) 0 m = m @ q" for q
    by (rule put_middle [of _ _ _ "[]", unfolded append_Nil]) (simp_all only: lz len list.size)
  have 2: "put (m @ z 512 @ z 16384 @ q) 1024 a = m @ z 512 @ a @ q" for q
    by (rule put_middle [of _ _ _ "m @ z 512", unfolded append_assoc]) (simp_all only: length_append lz len)
  have 3: "put (m @ z 512 @ q) 512 p = m @ p @ q" for q
    by (rule put_middle) (simp_all only: lz len)
  have 4: "put (m @ p @ a @ z 3072 @ z ?n @ z ?r @ z 16384 @ q) ((40 + k) * 512) a
      = m @ p @ a @ z 3072 @ z ?n @ z ?r @ a @ q" for q
    by (rule put_middle [of _ _ _ "m @ p @ a @ z 3072 @ z ?n @ z ?r", unfolded append_assoc]) (simp_all only: lz len pos)
  have 5: "put (m @ p @ a @ z 3072 @ z ?n @ z ?r @ a @ z 512) ((72 + k) * 512) b
      = m @ p @ a @ z 3072 @ z ?n @ z ?r @ a @ b"
    by (rule put_middle [of _ _ _ "m @ p @ a @ z 3072 @ z ?n @ z ?r @ a" "[]", unfolded append_assoc append_Nil2])
      (simp_all only: lz len pos)
  have 6: "put (m @ p @ a @ z 3072 @ z ?n @ q) 20480 pay = m @ p @ a @ z 3072 @ pay @ q" for q
    by (rule put_middle [of _ _ _ "m @ p @ a @ z 3072", unfolded append_assoc]) (simp_all only: length_append lz len)
  show ?thesis unfolding z 1 2 3 4 5 6 by (rule refl)
qed

lemma length_utf16le_name_APFS: "length (utf16le_name [65, 80, 70, 83]) = 72"
  by code_simp

lemma read_name_APFS: "utf16le_z (utf16le_name [65, 80, 70, 83]) = [65, 80, 70, 83]"
  by code_simp

lemma length_guid [simp]: "length (guid a b c t) = 8 + length t"
  by (simp add: guid_def)

lemmas fixture_guids = fixture_disk_guid_def fixture_part_guid_def APPLE_APFS_TYPE_GUID_def

lemma length_entry_array: "length (entry_array fixture_part_guid f l) = 16384"
  by (simp add: entry_array_def Let_def fixture_guids length_utf16le_name_APFS)

lemma length_protective_mbr: "length (protective_mbr n) = 512"
  by (simp add: protective_mbr_def Let_def sector_values)

text \<open>The reads of a buffer of known length after a write, for the long chains of writes of a header.\<close>

lemma put_length: "length xs = n \<Longrightarrow> a + length ys \<le> n \<Longrightarrow> length (put xs a ys) = n"
  by (simp add: put_def)

lemma put_reads:
  assumes "length xs = n" "a + length ys \<le> n"
  shows "b = a + length ys \<Longrightarrow> subslice (put xs a ys) a b = ys"
    and "d \<le> a \<or> a + length ys \<le> c \<Longrightarrow> subslice (put xs a ys) c d = subslice xs c d"
  using assms slice_put_same [of a ys xs b] slice_put_before [of d a ys xs c] slice_put_after [of a ys c xs d] by auto

lemma write_header_writes:
  obtains crc where "write_header s n g c cur alt lba =
    put (put (put (put (put (put (put (put (put (put (put (put (put (replicate 512 0) 0 GPT_SIGNATURE) 8 (le32 0x00010000))
      12 (le32 92)) 24 (le64 cur)) 32 (le64 alt)) 40 (le64 (gpt_first_usable_lba s)))
      48 (le64 (n - gpt_reserved_blocks s))) 56 g) 72 (le64 lba)) 80 (le32 128)) 84 (le32 128)) 88 (le32 c)) 16 (le32 crc)"
  unfolding write_header_def Let_def sector_values put_u32_def put_u64_def by blast

lemma header_lengths: "length GPT_SIGNATURE = 8" "length fixture_disk_guid = 16"
  by (simp_all add: GPT_SIGNATURE_def ascii_def fixture_guids)

lemma length_write_header: "length (write_header s n fixture_disk_guid c cur alt lba) = 512"
  by (rule write_header_writes [of s n fixture_disk_guid c cur alt lba])
    (simp only:, intro put_length; simp add: header_lengths)

text \<open>A wrapped disc, piece by piece.\<close>

definition wrapped_array :: "nat \<Rightarrow> bytes" where
  "wrapped_array k = entry_array fixture_part_guid 40 (of_nat (39 + k))"

definition wrapped_header :: "nat \<Rightarrow> u64 \<Rightarrow> u64 \<Rightarrow> u64 \<Rightarrow> bytes" where
  "wrapped_header k = write_header 512 (of_nat (72 + k)) fixture_disk_guid (embedded_panic_crc32 (wrapped_array k))"

lemma length_wrapped_array: "length (wrapped_array k) = 16384"
  by (simp only: wrapped_array_def length_entry_array)

lemma unat_sectors:
  assumes "k < 2 ^ 54" "i \<le> 73"
  shows "unat (of_nat (i + k) * 512 :: u64) = (i + k) * 512"
proof -
  have "(of_nat (i + k) * 512 :: u64) = of_nat ((i + k) * 512)" by simp
  also have "unat \<dots> = (i + k) * 512" using assms by (intro unat_of_nat_small) simp
  finally show ?thesis .
qed

lemma wrap_gpt_layout:
  assumes "length payload < 2 ^ 62"
  defines "k \<equiv> payload_sectors payload"
  shows "wrap_gpt payload = protective_mbr (of_nat (72 + k)) @ wrapped_header k 1 (of_nat (72 + k)) 2 @ wrapped_array k
    @ replicate 3072 0 @ payload @ replicate (k * 512 - length payload) 0 @ wrapped_array k
    @ wrapped_header k (of_nat (72 + k)) 1 (of_nat (40 + k))"
proof -
  have k: "k < 2 ^ 54" unfolding k_def by (rule payload_sectors_bound [OF assms(1)])
  have ws: "max (div_ceil (of_nat (length payload)) 512) 1 = (of_nat k :: u64)"
    unfolding k_def by (rule part_sectors_word [OF assms(1)])
  have lba: "40 + (of_nat k :: u64) - 1 = of_nat (39 + k)" "(of_nat (39 + k) :: u64) + 33 = of_nat (72 + k)"
    "(of_nat (72 + k) :: u64) + 1 = of_nat (73 + k)" "(of_nat (72 + k) :: u64) - 32 = of_nat (40 + k)"
    by simp_all
  have sector: "(ucast (512 :: u32) :: u64) = 512" "unat (40 * 512 :: u64) = 20480" "2 * 512 = (1024 :: nat)"
    by simp_all
  have pos: "unat (of_nat (73 + k) * 512 :: u64) = (73 + k) * 512" "unat (of_nat (72 + k) * 512 :: u64) = (72 + k) * 512"
    "unat (of_nat (40 + k) * 512 :: u64) = (40 + k) * 512"
    by (rule unat_sectors [OF k], simp)+
  have "wrap_gpt payload = put (put (put (put (put (put (replicate ((73 + k) * 512) 0)
      0 (protective_mbr (of_nat (72 + k)))) 1024 (wrapped_array k)) 512 (wrapped_header k 1 (of_nat (72 + k)) 2))
      ((40 + k) * 512) (wrapped_array k)) ((72 + k) * 512) (wrapped_header k (of_nat (72 + k)) 1 (of_nat (40 + k))))
      20480 payload"
    unfolding wrap_gpt_def Let_def sector_values sector ws lba pos wrapped_array_def wrapped_header_def by (rule refl)
  also have "\<dots> = protective_mbr (of_nat (72 + k)) @ wrapped_header k 1 (of_nat (72 + k)) 2 @ wrapped_array k
    @ replicate 3072 0 @ payload @ replicate (k * 512 - length payload) 0 @ wrapped_array k
    @ wrapped_header k (of_nat (72 + k)) 1 (of_nat (40 + k))"
    by (rule six_writes)
      (simp_all only: length_protective_mbr wrapped_header_def length_write_header wrapped_array_def length_entry_array
        k_def payload_fits)
  finally show ?thesis .
qed

section \<open>Reading a wrapped disc\<close>

lemma slice_slice: "d \<le> b - a \<Longrightarrow> subslice (subslice xs a b) c d = subslice xs (a + c) (a + d)"
  by (simp add: subslice_def drop_take add.commute min_def)

lemma gpt_header_fields:
  fixes k cur alt lba
  defines "h \<equiv> wrapped_header k cur alt lba"
  shows "subslice h 0 8 = GPT_SIGNATURE" "subslice h 56 72 = fixture_disk_guid" "from_le64 (subslice h 72 80) = lba"
    "from_le32 (subslice h 80 84) = 128" "from_le32 (subslice h 84 88) = 128"
proof -
  obtain crc where h: "h =
    put (put (put (put (put (put (put (put (put (put (put (put (put (replicate 512 0) 0 GPT_SIGNATURE) 8 (le32 0x00010000))
      12 (le32 92)) 24 (le64 cur)) 32 (le64 alt)) 40 (le64 (gpt_first_usable_lba 512)))
      48 (le64 (of_nat (72 + k) - gpt_reserved_blocks 512))) 56 fixture_disk_guid) 72 (le64 lba)) 80 (le32 128)) 84 (le32 128))
      88 (le32 (embedded_panic_crc32 (wrapped_array k)))) 16 (le32 crc)"
    unfolding h_def wrapped_header_def by (rule write_header_writes)
  note reads = put_reads [where n = 512] put_length [where n = 512] header_lengths length_le_bytes length_replicate
  show "subslice h 0 8 = GPT_SIGNATURE" "subslice h 56 72 = fixture_disk_guid" "from_le64 (subslice h 72 80) = lba"
    "from_le32 (subslice h 80 84) = 128" "from_le32 (subslice h 84 88) = 128"
    unfolding h by (simp_all add: reads del: length_put)
qed

lemma entry_fields:
  fixes k
  defines "a \<equiv> wrapped_array k"
  shows "subslice a 0 16 = APPLE_APFS_TYPE_GUID" "subslice a 16 32 = fixture_part_guid" "from_le64 (subslice a 32 40) = 40"
    "from_le64 (subslice a 40 48) = of_nat (39 + k)" "from_le64 (subslice a 48 56) = 0"
    "subslice a 56 128 = utf16le_name [65, 80, 70, 83]" "subslice a 128 16384 = replicate 16256 0"
proof -
  have z: "subslice (replicate 16384 (0 :: byte)) i j = replicate (j - i) 0" if "j \<le> 16384" for i j
    using that by (simp add: subslice_def)
  have zero: "from_le64 (replicate 8 0) = 0" by (simp add: numeral_eq_Suc)
  show "subslice a 0 16 = APPLE_APFS_TYPE_GUID" "subslice a 16 32 = fixture_part_guid"
    "from_le64 (subslice a 32 40) = 40" "from_le64 (subslice a 40 48) = of_nat (39 + k)"
    "from_le64 (subslice a 48 56) = 0" "subslice a 56 128 = utf16le_name [65, 80, 70, 83]"
    "subslice a 128 16384 = replicate 16256 0"
    unfolding a_def wrapped_array_def entry_array_def Let_def
    by (simp_all add: slice_simps fixture_guids length_utf16le_name_APFS z zero)
qed

lemma set_subslice: "set (subslice xs a b) \<subseteq> set xs"
  unfolding subslice_def by (meson set_drop_subset set_take_subset subset_trans)

lemma parse_entries_blank:
  assumes "\<forall>b \<in> set (subslice img pos (pos + n * sz)). b = 0"
  shows "parse_entries img sz pos n = []"
  using assms
proof (induction n arbitrary: pos)
  case 0
  then show ?case by simp
next
  case (Suc n)
  have split: "subslice img pos (pos + Suc n * sz)
      = subslice img pos (pos + sz) @ subslice img (pos + sz) (pos + sz + n * sz)"
    by (simp add: subslice_def take_add add.commute)
  have "parse_entries img sz (pos + sz) n = []"
    using Suc.prems unfolding split by (intro Suc.IH) simp
  moreover have "list_all (\<lambda>b. b = 0) (subslice (subslice img pos (pos + sz)) 0 16)"
    using Suc.prems set_subslice [of "subslice img pos (pos + sz)" 0 16] unfolding split list_all_iff by auto
  ultimately show ?case by (simp add: Let_def)
qed

lemma parse_entries_wrapped:
  assumes "subslice img 1024 17408 = wrapped_array k"
  shows "parse_entries img 128 1024 128 =
    [\<lparr>gp_type_guid = APPLE_APFS_TYPE_GUID, gp_unique_guid = fixture_part_guid, gp_first_lba = 40,
      gp_last_lba = of_nat (39 + k), gp_attributes = 0, gp_name = [65, 80, 70, 83]\<rparr>]" (is "_ = [?p]")
proof -
  let ?a = "wrapped_array k"
  have entry: "subslice img 1024 1152 = subslice ?a 0 128"
    unfolding assms [symmetric] by (simp add: slice_slice)
  have len: "length (subslice ?a 0 128) = 128"
    by (simp add: subslice_def length_wrapped_array)
  have "subslice img 1152 17408 = subslice ?a 128 16384"
    unfolding assms [symmetric] by (simp add: slice_slice)
  then have blank: "parse_entries img 128 1152 127 = []"
    by (intro parse_entries_blank) (simp add: entry_fields)
  have live: "\<not> list_all (\<lambda>b. b = 0) APPLE_APFS_TYPE_GUID"
    by code_simp
  have p: "parse_entry (subslice ?a 0 128) = ?p"
    by (simp add: parse_entry_def len length_wrapped_array slice_slice entry_fields read_name_APFS)
  have "parse_entries img 128 1024 (Suc 127) = [?p]"
    unfolding parse_entries.simps Let_def by (simp add: entry slice_slice entry_fields live p blank)
  then show ?thesis by simp
qed

text \<open>
  Claim C38. A payload wrapped into a disc is found again: the parser accepts the disc, lists exactly
  one partition, of the APFS type and named APFS, and the byte range of that partition holds the
  payload, padded with zeros to whole sectors.
\<close>

theorem wrap_gpt_reads_back:
  assumes "length payload < 2 ^ 62"
  shows "\<exists>p a b. parse_gpt (wrap_gpt payload) 512
        = Inr \<lparr>gt_block_size = 512, gt_disk_guid = fixture_disk_guid, gt_partitions = [p]\<rparr>
      \<and> is_apple_apfs p \<and> gp_name p = map of_char ''APFS'' \<and> byte_range p 512 = (a, b)
      \<and> subslice (wrap_gpt payload) (unat a) (unat b)
        = payload @ replicate (payload_sectors payload * 512 - length payload) 0"
proof -
  define k where "k = payload_sectors payload"
  define m where "m = protective_mbr (of_nat (72 + k))"
  define h where "h = wrapped_header k 1 (of_nat (72 + k)) 2"
  define rest where "rest = wrapped_array k @ wrapped_header k (of_nat (72 + k)) 1 (of_nat (40 + k))"
  let ?img = "wrap_gpt payload" and ?pad = "replicate (k * 512 - length payload) 0"
  have img: "?img = m @ h @ wrapped_array k @ replicate 3072 0 @ (payload @ ?pad) @ rest"
    unfolding m_def h_def rest_def k_def wrap_gpt_layout [OF assms] by simp
  have len: "length m = 512" "length h = 512" "length (wrapped_array k) = 16384"
    by (simp_all add: m_def h_def length_protective_mbr wrapped_header_def length_write_header length_wrapped_array)
  have fit: "length (payload @ ?pad) = k * 512" using payload_fits [of payload] by (simp add: k_def)
  have k: "k < 2 ^ 54" unfolding k_def by (rule payload_sectors_bound [OF assms])
  have header: "subslice ?img 512 604 = subslice h 0 92"
    by (simp add: img slice_append_right slice_append_left len)
  have array: "subslice ?img 1024 17408 = wrapped_array k"
    by (simp add: img slice_append_right slice_append_left len)
  have long: "20480 \<le> length ?img" by (simp add: img len)
  have pow: "is_power_of_two 512" by (simp add: is_power_of_two_def)
  have fields: "subslice h 0 8 = GPT_SIGNATURE" "subslice h 56 72 = fixture_disk_guid" "from_le64 (subslice h 72 80) = 2"
    "from_le32 (subslice h 80 84) = 128" "from_le32 (subslice h 84 88) = 128"
    unfolding h_def by (rule gpt_header_fields)+
  let ?p = "\<lparr>gp_type_guid = APPLE_APFS_TYPE_GUID, gp_unique_guid = fixture_part_guid, gp_first_lba = 40,
      gp_last_lba = of_nat (39 + k), gp_attributes = 0, gp_name = [65, 80, 70, 83]\<rparr>"
  have parse: "parse_gpt ?img 512 = Inr \<lparr>gt_block_size = 512, gt_disk_guid = fixture_disk_guid, gt_partitions = [?p]\<rparr>"
    using long by (simp add: parse_gpt_def Let_def pow header slice_slice fields saturating_usize_def
        parse_entries_wrapped [OF array])
  have "(of_nat (39 + k) :: u64) + 1 = of_nat (40 + k)" by simp
  then have range: "byte_range ?p 512 = (40 * 512, of_nat (40 + k) * 512)"
    by (simp only: byte_range_def Let_def GptPartition.simps) simp
  have "subslice ?img 20480 ((40 + k) * 512) = payload @ ?pad"
    unfolding img using fit by (simp add: slice_append_right slice_append_left len del: append_assoc length_append)
  moreover have "unat (40 * 512 :: u64) = 20480" by simp
  moreover have "unat (of_nat (40 + k) * 512 :: u64) = (40 + k) * 512" by (rule unat_sectors [OF k]) simp
  ultimately have "subslice ?img (unat (40 * 512 :: u64)) (unat (of_nat (40 + k) * 512 :: u64)) = payload @ ?pad"
    by (simp only:)
  with parse range show ?thesis unfolding k_def [symmetric]
    by (intro exI [of _ ?p] exI [of _ "40 * 512"] exI [of _ "of_nat (40 + k) * 512"] conjI)
      (simp_all only: is_apple_apfs_def GptPartition.simps, simp)
qed

theorem wrap_gpt_reads_back_witness:
  "\<exists>p a b. parse_gpt (wrap_gpt [7, 8, 9]) 512
        = Inr \<lparr>gt_block_size = 512, gt_disk_guid = fixture_disk_guid, gt_partitions = [p]\<rparr>
      \<and> is_apple_apfs p \<and> gp_name p = map of_char ''APFS'' \<and> byte_range p 512 = (a, b)
      \<and> subslice (wrap_gpt [7, 8, 9]) (unat a) (unat b) = [7, 8, 9] @ replicate 509 0"
  using wrap_gpt_reads_back [of "[7, 8, 9]"] by (simp add: payload_sectors_def)

section \<open>Probing a written superblock\<close>

lemma put_oids:
  assumes "length b = 4096" "184 + (i + length oids) * 8 \<le> 4096"
  defines "b' \<equiv> foldl (\<lambda>b (i, oid_v). put_u64 b (0xB8 + i * 8) oid_v) b (enumerate i oids)"
  shows "length b' = 4096 \<and> (\<forall>c d. d \<le> 184 \<or> 184 + (i + length oids) * 8 \<le> c \<longrightarrow> subslice b' c d = subslice b c d)"
  using assms(1,2) unfolding b'_def
proof (induction oids arbitrary: b i)
  case Nil
  then show ?case by simp
next
  case (Cons v oids)
  let ?b = "put_u64 b (0xB8 + i * 8) v"
  have fits: "0xB8 + i * 8 + length (le64 v) \<le> 4096" using Cons.prems(2) by simp
  have len: "length ?b = 4096"
    unfolding put_u64_def using Cons.prems(1) fits by (rule put_length)
  have keep: "subslice ?b c d = subslice b c d" if "d \<le> 184 \<or> 184 + (i + length (v # oids)) * 8 \<le> c" for c d
    unfolding put_u64_def using that by (intro put_reads(2) [OF Cons.prems(1) fits]) auto
  show ?case
    using Cons.IH [OF len, of "Suc i"] Cons.prems(2) keep by simp
qed

lemma read_sealed: "8 \<le> c \<Longrightarrow> 8 \<le> length b \<Longrightarrow> subslice (le64 x @ drop 8 b) c d = subslice b c d"
  by (simp add: slice_append_right) (simp add: subslice_def)

lemma nth_subslice: "i < length xs \<Longrightarrow> xs ! i = hd (subslice xs i (Suc i))"
  by (simp add: subslice_def take_Suc hd_drop_conv_nth)

lemma obj_stamp_sealed:
  assumes "length b = 4096"
  obtains b' where "obj_stamp b oid xid ty sub = Some b'" "length b' = 4096" "fletcher64_valid b'"
    "\<forall>c d. 32 \<le> c \<longrightarrow> subslice b' c d = subslice b c d"
proof -
  define b1 where "b1 = put (put (put (put b 8 (le64 oid)) 16 (le64 xid)) 24 (le32 ty)) 28 (le32 sub)"
  have len: "length b1 = 4096"
    unfolding b1_def by (intro put_length; simp add: assms)
  have keep: "subslice b1 c d = subslice b c d" if "32 \<le> c" for c d
    unfolding b1_def using that assms by (simp add: put_reads [where n = 4096] put_length [where n = 4096] del: length_put)
  obtain x where x: "fletcher64_seal b1 = Some (le64 x @ drop 8 b1)" "fletcher64_valid (le64 x @ drop 8 b1)"
    using fletcher64_seal_exists [of b1] len by auto
  show ?thesis
    by (rule that [of "le64 x @ drop 8 b1"])
      (use x len keep in \<open>simp_all add: obj_stamp_def Let_def put_u64_def put_u32_def b1_def [symmetric] read_sealed\<close>)
qed

text \<open>
  Claim C40. A superblock written for up to 135 volumes is recognised by the probe, which reports
  the block size, the block count and the identifier it was written with, and a valid checksum.
\<close>

theorem write_nxsb_probes:
  assumes "length uuid = 16" "length vol_oids \<le> 135"
  shows "\<exists>block. write_nxsb block_count uuid omap_paddr vol_oids xid oid = Some block
    \<and> length block = 4096
    \<and> probe_container block = Inr \<lparr>cp_block_size = 4096, cp_block_count = block_count, cp_uuid = uuid,
        cp_composited = False, cp_checksum_valid = True\<rparr>"
proof -
  define b where "b = put (put (put (put (put (put (put (put (put (put (put (put (put (replicate 4096 0) 0x20 (le32 NX_MAGIC))
      0x24 (le32 APFS_BLOCK)) 0x28 (le64 block_count)) 0x48 uuid) 0x58 (le64 4096)) 0x60 (le64 (xid + 1))) 0x68 (le32 8))
      0x6C (le32 8)) 0x70 (le64 1)) 0x78 (le64 9)) 0x8C (le32 1)) 0xA0 (le64 omap_paddr))
      0xB4 (le32 (of_nat (length vol_oids)))"
  have len: "length b = 4096"
    unfolding b_def by (intro put_length; simp add: assms(1))
  note reads = put_reads [where n = 4096] put_length [where n = 4096] length_le_bytes length_replicate assms(1)
  have block: "unat APFS_BLOCK = 4096" by (simp add: APFS_BLOCK_def)
  have zero: "subslice (replicate 4096 (0 :: byte)) 1264 1265 = [0]" by (simp add: subslice_def)
  have fields: "subslice b 32 36 = le32 NX_MAGIC" "subslice b 36 40 = le32 APFS_BLOCK" "subslice b 40 48 = le64 block_count"
    "subslice b 72 88 = uuid" "subslice b 1264 1265 = [0]"
    unfolding b_def by (simp_all add: reads zero del: length_put)
  define b1 where "b1 = foldl (\<lambda>b (i, oid_v). put_u64 b (0xB8 + i * 8) oid_v) b (enumerate 0 vol_oids)"
  have b1: "length b1 = 4096" "\<And>c d. d \<le> 184 \<or> 1264 \<le> c \<Longrightarrow> subslice b1 c d = subslice b c d"
    using put_oids [OF len, of 0 vol_oids] assms(2) unfolding b1_def by auto
  obtain b2 where b2: "obj_stamp b1 oid xid (TYPE_NX_SUPERBLOCK OR OBJ_EPHEMERAL) 0 = Some b2" "length b2 = 4096"
      "fletcher64_valid b2" "\<forall>c d. 32 \<le> c \<longrightarrow> subslice b2 c d = subslice b1 c d"
    using obj_stamp_sealed [OF b1(1), of oid xid "TYPE_NX_SUPERBLOCK OR OBJ_EPHEMERAL" 0] by blast
  have "write_nxsb block_count uuid omap_paddr vol_oids xid oid = Some b2"
    unfolding write_nxsb_def Let_def put_u32_def put_u64_def block b_def [symmetric]
      b1_def [unfolded put_u64_def, symmetric]
    using b2(1) len assms(2) by simp
  moreover have "b2 ! 1264 = 0"
    by (subst nth_subslice) (simp_all add: b2 b1 fields)
  ultimately show ?thesis
    using b2(2,3) by (simp add: probe_container_def Let_def NX_FLAGS_OFFSET_def NX_MAGIC_OFFSET_def NX_BLOCK_SIZE_OFFSET_def
        NX_BLOCK_COUNT_OFFSET_def NX_UUID_OFFSET_def le_u32_def le_u64_def b2(4) b1(2) fields)
      (simp add: APFS_BLOCK_def NX_PROBE_BLOCK_SIZE_def)
qed

theorem write_nxsb_probes_witness:
  "\<exists>block. write_nxsb 64 (replicate 16 3) 17 [1024] 1 1 = Some block
    \<and> length block = 4096
    \<and> probe_container block = Inr \<lparr>cp_block_size = 4096, cp_block_count = 64, cp_uuid = replicate 16 3,
        cp_composited = False, cp_checksum_valid = True\<rparr>"
  by (rule write_nxsb_probes) simp_all

end
