(* ===== verification/Spec2Isabelle.thy ===== *)
theory Spec2Isabelle
  imports Link_Run Lzvn Deflate Pem Calendar Fdr_Trust Cpio Hash Bridge_Message Apfs_Fixture
begin

text \<open>
  AppleUtils is a Rust toolkit for Apple device recovery and APFS work. A restore talks to a device
  through the USB mux (\<^verbatim>\<open>src/usbmux\<close>) or through a restore bridge (\<^verbatim>\<open>src/bridge_protocol.rs\<close>), hands it
  archives, images and certificates (\<^verbatim>\<open>src/ramrod\<close>, \<^verbatim>\<open>src/asr_server\<close>), and relies on hashes and
  checksums of its own (\<^verbatim>\<open>src/crypto\<close>); the APFS tools decompress files with \<^verbatim>\<open>src/lzvn.rs\<close>. This
  development models the protocol engines and the codecs, the parts whose result depends on their
  input alone, and proves them correct. Paths below are relative to the crate.

  \<^bold>\<open>Conventions.\<close> A byte is an \<open>8 word\<close>, \<^verbatim>\<open>u16\<close>, \<^verbatim>\<open>u32\<close> and \<^verbatim>\<open>u64\<close> are words of their width with the
  wrap-around of the source, a \<^verbatim>\<open>usize\<close> is a natural number with the overflow check written out where
  the source has one. A \<^verbatim>\<open>Result\<close> is a sum with the error on the left; a method that changes its object
  returns the new state, also when it fails. Strings are their UTF-8 bytes where the code looks at bytes,
  and their code points where it converts from UTF-16.
  \<open>Prelude\<close> holds these types, the slices and in-place writes of buffers, and the interfaces
  \<open>fixed_codec\<close> and \<open>header_codec\<close> of fixed-width encodings, interpreted for the integers and the packet headers.

  \<^bold>\<open>USB mux.\<close> \<open>Frame\<close> is \<^verbatim>\<open>usbmux/frame.rs\<close>: the mux header in both versions, version packet and version
  request. \<open>Tcp_Header\<close> is \<^verbatim>\<open>usbmux/tcp.rs\<close>. \<open>Session\<close> is \<^verbatim>\<open>usbmux/session.rs\<close>: the record
  \<open>MuxSession\<close>, one definition per method, and \<open>session_step\<close>, which interleaves the methods in any order.
  \<open>Session_Safety\<close> and \<open>Session_Run\<close> show over all runs that what is sent is the written stream at its
  sequence numbers, that nothing is lost between the queues, that received data is accepted in order and
  read as accepted, that fresh data fits the window of the device, that an owed acknowledgement leaves
  next, that an orderly close means both streams are complete, and that a closed session stays closed.
  The headers read back, in both directions. \<open>Roundtrip\<close> is \<^verbatim>\<open>usbmux/roundtrip.rs\<close>: its meter accounts for every
  segment. \<open>Link\<close> is \<^verbatim>\<open>usbmux/link.rs\<close>, the layer that joins all of these: version exchange, ports, packets with
  their own sequence numbers, delivery, and the waiting calls, each loop a \<open>loopL\<close>. \<open>Link_Run\<close> shows that flushing
  ends and drains the session, that a packet reads back as the segment it carries, that packets are delivered
  in sequence and to one session only, and that every session of a link is a run of the session machine, so
  that the properties of runs are properties of the sessions of a link.

  \<^bold>\<open>Compression and checksums.\<close> \<open>Lzvn\<close> is \<^verbatim>\<open>lzvn.rs\<close>: decoding ends on every input within the limit, is
  independent of what the vector held, and a match is a periodic extension. \<open>Checksums\<close> is
  \<^verbatim>\<open>crypto/crc32.rs\<close> and \<^verbatim>\<open>adler32\<close>; \<open>Deflate\<close> is \<^verbatim>\<open>asr_server/deflate.rs\<close>: stored blocks and the zlib and
  gzip containers read back, lengths add up, and a corrupted byte is detected.

  \<^bold>\<open>Hashes.\<close> \<open>Hash_Stream\<close> and \<open>Hash\<close> are \<^verbatim>\<open>crypto/hash.rs\<close>: the unrolled compression functions and the
  buffering of SHA-1, SHA-256, SHA-384 and SHA-512. The interface \<open>block_hash\<close> carries the buffering once
  for all of them; fed in any pieces each hasher returns the digest of FIPS 180-4.

  \<^bold>\<open>Certificates and trust objects.\<close> \<open>Der\<close> and \<open>Calendar\<close> are \<^verbatim>\<open>ramrod/der.rs\<close>: the DER writer, and its
  calendar against the Gregorian one. \<open>Pem\<close> is \<^verbatim>\<open>ramrod/pem.rs\<close>. \<open>Fdr_Trust\<close> is \<^verbatim>\<open>ramrod/fdr_trust.rs\<close>:
  the reader splits what the writer wrote into its elements, covers the file without gaps, and reports
  their SHA-256 digests. \<open>Der_Length\<close> describes the length octets of the writer for strict readers.

  \<^bold>\<open>Archives.\<close> \<open>Cpio\<close> is \<^verbatim>\<open>ramrod/cpio.rs\<close>: an archive reads back as the entries written, an entry that
  does not fit is refused before anything is written, and a file body has its declared length. The sink
  is a parameter with the interface \<open>byte_sink\<close>, interpreted by a vector.

  \<^bold>\<open>Restore bridge.\<close> \<open>Bridge_Record\<close>, \<open>Bridge_Payload\<close>, \<open>Bridge_Context\<close> and \<open>Bridge_Message\<close> are
  \<^verbatim>\<open>bridge_protocol.rs\<close>: record headers and the frame assembler, the payloads and their validators, the FDR
  manifest that is signed remotely, the boot context, and the encoder of whole records. \<open>Stream_Parser\<close> is the
  interface of a parser whose result does not depend on how the stream was cut; the assembler refines it, and
  records that were encoded and read in any pieces come back as they were. Payloads and boot contexts read
  back, and a manifest is accepted for signing exactly when the DER writer could have built it.

  \<^bold>\<open>Disc images.\<close> \<open>Apfs_Image\<close> is \<^verbatim>\<open>apfs_image.rs\<close>: the partition table parser, the choice of a container, the
  superblock probe and the Fletcher checksum. \<open>Apfs_Fixture\<close> is the part of \<^verbatim>\<open>apfs_fixture.rs\<close> that wraps a payload
  into a partitioned disc and writes a superblock. A wrapped payload is found again by the parser, for payloads below
  \<open>2 ^ 62\<close> bytes, where no block number wraps; a written superblock is recognised by the probe, for up to 135 volumes,
  whose identifiers end before the flags; a sealed block validates. Validation is shown to check the sum of the
  words alone, so it does not see their order.

  \<^bold>\<open>Bounds and fuel.\<close> No definition takes fuel except \<open>allocate_from\<close>, whose count is the one of the loop in the
  source. Loops are recursive functions with a termination proof, by the unread input (\<open>decode_loop\<close>,
  \<open>inflate_blocks\<close>, \<open>elements_from\<close>, \<open>take_loop\<close>), by what the source of a file still returns (\<open>copy_contents\<close>), or by
  the value (\<open>octal_digits\<close>). The loops of the link may wait for ever when the transport or the clock stands
  still; there a call that does not return is \<open>None\<close>, and flushing is proved to return.

  \<^bold>\<open>Parameters.\<close> The \<^verbatim>\<open>Write\<close> implementation behind the cpio writer (the law is that written bytes are
  appended), what the reads of a file source return, the JSON library behind the bridge messages, and the bulk
  transport and the clock below the mux link, of which nothing is assumed.

  \<^bold>\<open>Not modelled.\<close> The streams, the watchdog and the traces of the mux, the bridge transport and the restore
  engine are threads, sockets and clocks around the engines above. The APFS reader, verifier, writer and the repair
  tools walk whole images through positioned I/O, and the rest of the image fixture is one fixed volume. The ramrod client, the FDR objects and the Asahi tools work on
  property lists, archives and JSON of third-party crates, and the rest is user interface. The P-256
  arithmetic has no abstract curve to be compared with in the libraries used. Error messages are kept without
  the values formatted into them.
\<close>

end
